(* ===== verification/Prelude.thy ===== *)
theory Prelude
  imports Main "HOL-Library.Word" "HOL-Library.Multiset"
begin

text \<open>
  The shared vocabulary of the development: machine integer types, the ways the kernel
  can stop (\<open>fault\<close>), the result type of a fallible operation with its sequencing
  operator, and generic lemmas on lists, words and intervals of pages that several
  components use.
\<close>

unbundle bit_operations_syntax

named_theorems result_simps \<open>unfolding of the sequencing of fallible operations\<close>
named_theorems page_simps \<open>arithmetic of page numbers and page intervals\<close>

section \<open>Machine integers\<close>

type_synonym u8 = "8 word"
type_synonym u16 = "16 word"
type_synonym u32 = "32 word"
type_synonym u64 = "64 word"

text \<open>A C \<open>int\<close> on both targets is 32 bits wide; it is kept as the 32-bit pattern and
  read with \<open>sint\<close> where the sign matters.\<close>

type_synonym cint = "32 word"

section \<open>Faults and results\<close>

text \<open>
  Every way the kernel stops making progress is a value: a failed \<open>assert\<close> and a call of
  \<open>panic\<close> (both halt the CPU, \<open>lib/panic.cpp\<close>), an access through a null pointer, an
  access to a deleted object, an index outside its array, an
  access to a virtual address that is not mapped, taking a spinlock that the same
  CPU already holds, and a loop that does not end.
\<close>

datatype fault =
    AssertFailed
  | Panic
  | NullDeref
  | UseAfterFree
  | OutOfBounds
  | Deadlock
  | PageFault
  | Diverges

type_synonym 'a result = "fault + 'a"

fun and_then :: "'a result \<Rightarrow> ('a \<Rightarrow> 'b result) \<Rightarrow> 'b result" where
  "and_then (Inl e) f = Inl e"
| "and_then (Inr x) f = f x"

text \<open>The macro \<open>assert(x)\<close> of \<open>util/util.h\<close>: continue when the condition holds,
  otherwise report and halt.\<close>

definition kassert :: "bool \<Rightarrow> 'a result \<Rightarrow> 'a result" where
  "kassert b k = (if b then k else Inl AssertFailed)"

lemma and_then_Inr_iff [result_simps]:
  "and_then r f = Inr y \<longleftrightarrow> (\<exists>x. r = Inr x \<and> f x = Inr y)"
  by (cases r) auto

lemma and_then_Inl_iff:
  "and_then r f = Inl e \<longleftrightarrow> r = Inl e \<or> (\<exists>x. r = Inr x \<and> f x = Inl e)"
  by (cases r) auto

lemma kassert_Inr_iff [result_simps]: "kassert b k = Inr y \<longleftrightarrow> b \<and> k = Inr y"
  by (simp add: kassert_def)

lemma kassert_True [simp]: "kassert True k = k"
  by (simp add: kassert_def)

lemma kassert_False [simp]: "kassert False k = Inl AssertFailed"
  by (simp add: kassert_def)

section \<open>Lists\<close>

lemma take_drop_Suc_mset:
  "i < length xs \<Longrightarrow> mset xs = add_mset (xs ! i) (mset (take i xs @ drop (Suc i) xs))"
  by (metis Cons_nth_drop_Suc append_take_drop_id mset.simps(2) mset_append union_mset_add_mset_right)

lemma mset_insert_at: "mset (take i xs @ x # drop i xs) = add_mset x (mset xs)"
  by (metis append_take_drop_id mset.simps(2) mset_append union_mset_add_mset_right)

lemma mset_list_update:
  "i < length xs \<Longrightarrow> mset (xs[i := y]) = add_mset y (mset (take i xs @ drop (Suc i) xs))"
  by (simp add: upd_conv_take_nth_drop)

lemma set_insert_at: "set (take i xs @ x # drop i xs) = insert x (set xs)"
  by (metis append_take_drop_id list.simps(15) set_append Un_insert_right)

section \<open>Words\<close>

lemma ball_update: "\<forall>x\<in>set xs. P x \<Longrightarrow> P y \<Longrightarrow> \<forall>x\<in>set (xs[i := y]). P x"
  by (auto dest!: set_update_subset_insert [THEN subsetD])

lemma unat_sub_le: "b \<le> a \<Longrightarrow> unat (a - b :: 'a::len word) = unat a - unat b"
  by (simp add: unat_sub)

lemma unat_add_less:
  "unat a + unat b < 2 ^ LENGTH('a) \<Longrightarrow> unat (a + b :: 'a::len word) = unat a + unat b"
  by (simp add: unat_add_lem)

lemma unat_mult_less:
  "unat a * unat b < 2 ^ LENGTH('a) \<Longrightarrow> unat (a * b :: 'a::len word) = unat a * unat b"
  by (simp add: unat_mult_lem)

lemma unat_u64_less: "unat (w :: u64) < 18446744073709551616"
  using unsigned_less [of w, where 'a = nat] by simp

lemma word_not_less_0 [simp]: "\<not> (x :: 'a::len word) < 0"
  by (simp add: word_less_nat_alt)

lemma of_nat_u64_inj: "a < 2 ^ 64 \<Longrightarrow> b < 2 ^ 64 \<Longrightarrow> (of_nat a :: u64) = of_nat b \<longleftrightarrow> a = b"
  by (simp add: word_of_nat_eq_iff take_bit_nat_eq_self)

lemma offset_inj:
  "a < 2 ^ 64 \<Longrightarrow> b < 2 ^ 64 \<Longrightarrow> p + (of_nat a :: u64) = p + of_nat b \<longleftrightarrow> a = b"
  by (simp add: of_nat_u64_inj)

lemma of_nat_Suc_less:
  "Suc k < 2 ^ 64 \<Longrightarrow> (x :: u64) < of_nat (Suc k) \<longleftrightarrow> x < of_nat k \<or> x = of_nat k"
  by (auto simp: word_less_nat_alt unat_of_nat word_unat_eq_iff simp del: of_nat_Suc)

lemma bit_push_bit_1: "bit (push_bit k 1 :: 'a::len word) n \<longleftrightarrow> n = k \<and> k < LENGTH('a)"
  unfolding bit_push_bit_iff bit_1_iff by (auto simp: possible_bit_word)

end
