(* ===== verification/Frg.thy ===== *)
theory Frg
  imports Prelude
begin

text \<open>
  The containers of the frigg library. The kernel builds against frigg as a git submodule,
  so its code is not part of the repository: each container is a record of operations that
  the model's definitions take as an argument, and what the kernel relies on is a locale.
  The contents of a container are a HOL list (in iteration order) or a HOL map.
  The interpretations at the end show that the contracts can be met.
\<close>

section \<open>Intrusive lists\<close>

text \<open>\<open>frg::intrusive_list\<close>. An element already in a list is referred to by its position
  in iteration order. \<open>fl_insert\<close> places a new element in front of an existing one,
  \<open>fl_erase\<close> unlinks one.\<close>

record 'a frg_list_ops =
  fl_push_back :: "'a list \<Rightarrow> 'a \<Rightarrow> 'a list"
  fl_push_front :: "'a list \<Rightarrow> 'a \<Rightarrow> 'a list"
  fl_insert :: "'a list \<Rightarrow> nat \<Rightarrow> 'a \<Rightarrow> 'a list"
  fl_erase :: "'a list \<Rightarrow> nat \<Rightarrow> 'a list"

locale frg_list =
  fixes L :: "'a frg_list_ops"
  assumes push_back: "fl_push_back L xs x = xs @ [x]"
    and push_front: "fl_push_front L xs x = x # xs"
    and insert_before: "i < length xs \<Longrightarrow> fl_insert L xs i x = take i xs @ x # drop i xs"
    and erase_at: "i < length xs \<Longrightarrow> fl_erase L xs i = take i xs @ drop (Suc i) xs"
begin

lemmas list_laws = push_back push_front insert_before erase_at

lemma mset_push_back: "mset (fl_push_back L xs x) = add_mset x (mset xs)"
  by (simp add: push_back)

lemma mset_push_front: "mset (fl_push_front L xs x) = add_mset x (mset xs)"
  by (simp add: push_front)

lemma mset_insert_before:
  "i < length xs \<Longrightarrow> mset (fl_insert L xs i x) = add_mset x (mset xs)"
  using mset_insert_at [of i xs x] by (simp add: insert_before)

lemma mset_erase_at:
  "i < length xs \<Longrightarrow> mset xs = add_mset (xs ! i) (mset (fl_erase L xs i))"
  using take_drop_Suc_mset [of i xs] by (simp add: erase_at)

lemma length_erase_at: "i < length xs \<Longrightarrow> length (fl_erase L xs i) = length xs - 1"
  by (simp add: erase_at)

end

section \<open>Vectors\<close>

text \<open>\<open>frg::vector\<close>: appending, and growing to a size with value-initialised elements.
  Indexing and iteration read the contents directly.\<close>

record 'a frg_vector_ops =
  fv_push_back :: "'a list \<Rightarrow> 'a \<Rightarrow> 'a list"
  fv_resize :: "'a list \<Rightarrow> nat \<Rightarrow> 'a list"

locale frg_vector =
  fixes V :: "'a frg_vector_ops" and dflt :: 'a
  assumes vec_push_back: "fv_push_back V xs x = xs @ [x]"
    and vec_resize: "fv_resize V xs n = take n xs @ replicate (n - length xs) dflt"
begin

lemma vec_resize_Nil: "fv_resize V [] n = replicate n dflt"
  by (simp add: vec_resize)

lemma length_vec_resize: "length (fv_resize V xs n) = n"
  by (simp add: vec_resize)

end

section \<open>Hash maps\<close>

text \<open>\<open>frg::hash_map\<close>: \<open>fm_index\<close> is \<open>operator[]\<close>, which inserts a value-initialised
  entry for a missing key and returns the entry; \<open>fm_insert\<close> adds an entry;
  \<open>fm_remove\<close> takes an entry out and returns it.\<close>

record ('k, 'v) frg_map_ops =
  fm_index :: "('k \<rightharpoonup> 'v) \<Rightarrow> 'k \<Rightarrow> 'v \<times> ('k \<rightharpoonup> 'v)"
  fm_insert :: "('k \<rightharpoonup> 'v) \<Rightarrow> 'k \<Rightarrow> 'v \<Rightarrow> ('k \<rightharpoonup> 'v)"
  fm_remove :: "('k \<rightharpoonup> 'v) \<Rightarrow> 'k \<Rightarrow> 'v option \<times> ('k \<rightharpoonup> 'v)"

locale frg_map =
  fixes M :: "('k, 'v) frg_map_ops" and dflt :: 'v
  assumes index_present: "m k = Some v \<Longrightarrow> fm_index M m k = (v, m)"
    and index_missing: "m k = None \<Longrightarrow> fm_index M m k = (dflt, m(k \<mapsto> dflt))"
    and insert_entry: "m k = None \<Longrightarrow> fm_insert M m k v = m(k \<mapsto> v)"
    and remove_entry: "fm_remove M m k = (m k, m(k := None))"
begin

lemma index_eq:
  "fm_index M m k = (case m k of Some v \<Rightarrow> (v, m) | None \<Rightarrow> (dflt, m(k \<mapsto> dflt)))"
  by (cases "m k") (simp_all add: index_present index_missing)

lemma index_fst: "fst (fm_index M m k) = (case m k of Some v \<Rightarrow> v | None \<Rightarrow> dflt)"
  by (simp add: index_eq split: option.split)

lemma index_assign: "(snd (fm_index M m k))(k \<mapsto> v) = m(k \<mapsto> v)"
  by (auto simp: index_eq split: option.split)

end

section \<open>Reference containers\<close>

definition ref_list :: "'a frg_list_ops" where
  "ref_list = \<lparr>fl_push_back = (\<lambda>xs x. xs @ [x]), fl_push_front = (\<lambda>xs x. x # xs),
     fl_insert = (\<lambda>xs i x. take i xs @ x # drop i xs),
     fl_erase = (\<lambda>xs i. take i xs @ drop (Suc i) xs)\<rparr>"

definition ref_vector :: "'a \<Rightarrow> 'a frg_vector_ops" where
  "ref_vector d = \<lparr>fv_push_back = (\<lambda>xs x. xs @ [x]),
     fv_resize = (\<lambda>xs n. take n xs @ replicate (n - length xs) d)\<rparr>"

definition ref_map :: "'v \<Rightarrow> ('k, 'v) frg_map_ops" where
  "ref_map d = \<lparr>fm_index = (\<lambda>m k. case m k of Some v \<Rightarrow> (v, m) | None \<Rightarrow> (d, m(k \<mapsto> d))),
     fm_insert = (\<lambda>m k v. m(k \<mapsto> v)),
     fm_remove = (\<lambda>m k. (m k, m(k := None)))\<rparr>"

interpretation reflist: frg_list ref_list
  by unfold_locales (simp_all add: ref_list_def)

interpretation refvec: frg_vector "ref_vector d" d for d
  by unfold_locales (simp_all add: ref_vector_def)

interpretation refmap: frg_map "ref_map d" d for d
  by unfold_locales (simp_all add: ref_map_def)

end
