(* ===== verification/Memory.thy ===== *)
theory Memory
  imports Prelude
begin

text \<open>
  Byte-addressed memory and the 64-bit little-endian accesses the kernel makes to it:
  a memory is a total function from addresses to bytes, \<open>read64\<close> and \<open>write64\<close> (and the narrower loads) are an
  aligned or unaligned load and store of a \<open>uint64_t\<close>, \<open>fill\<close> and \<open>blit\<close> are the closed
  forms of the byte loops \<open>memset\<close> and (on disjoint regions) \<open>memcpy\<close>.
\<close>

type_synonym mem = "u64 \<Rightarrow> u8"

definition read64 :: "mem \<Rightarrow> u64 \<Rightarrow> u64" where
  "read64 m a = word_rcat (map (\<lambda>i. m (a + of_nat i)) (rev [0..<8]))"

definition read16 :: "mem \<Rightarrow> u64 \<Rightarrow> u16" where
  "read16 m a = word_rcat (map (\<lambda>i. m (a + of_nat i)) (rev [0..<2]))"

definition read32 :: "mem \<Rightarrow> u64 \<Rightarrow> u32" where
  "read32 m a = word_rcat (map (\<lambda>i. m (a + of_nat i)) (rev [0..<4]))"

definition write64 :: "mem \<Rightarrow> u64 \<Rightarrow> u64 \<Rightarrow> mem" where
  "write64 m a v = (\<lambda>x. if x - a < 8 then ucast (drop_bit (8 * unat (x - a)) v) else m x)"

definition fill :: "mem \<Rightarrow> u64 \<Rightarrow> u8 \<Rightarrow> u64 \<Rightarrow> mem" where
  "fill m p v n = (\<lambda>x. if x - p < n then v else m x)"

definition blit :: "mem \<Rightarrow> u64 \<Rightarrow> u64 \<Rightarrow> u64 \<Rightarrow> mem" where
  "blit m d s n = (\<lambda>x. if x - d < n then m (s + (x - d)) else m x)"

lemma bit_read64:
  "bit (read64 m a) n \<longleftrightarrow> n < 64 \<and> bit (m (a + of_nat (n div 8))) (n mod 8)"
proof (cases "n < 64")
  case True
  then have "n div 8 < 8" by (simp add: div_less_iff_less_mult)
  then have "rev (map (\<lambda>i. m (a + of_nat i)) (rev [0..<8])) ! (n div 8) = m (a + of_nat (n div 8))"
    by (simp add: rev_map)
  with True \<open>n div 8 < 8\<close> show ?thesis
    using bit_horner_sum_uint_exp_iff [of "rev (map (\<lambda>i. m (a + of_nat i)) (rev [0..<8]))" n]
    by (simp add: read64_def word_rcat_def bit_simps)
next
  case False
  then show ?thesis by (simp add: read64_def word_rcat_def bit_simps)
qed

lemma read64_cong:
  "(\<And>i. i < 8 \<Longrightarrow> m (a + of_nat i) = m' (a + of_nat i)) \<Longrightarrow> read64 m a = read64 m' a"
  unfolding read64_def by (rule arg_cong [where f = word_rcat]) simp

lemma of_nat_less_8: "i < 8 \<Longrightarrow> (of_nat i :: u64) < 8"
  by (simp add: word_less_nat_alt unat_of_nat)

lemma read64_write64 [simp]: "read64 (write64 m a v) a = v"
proof (rule bit_word_eqI)
  fix n assume n: "n < LENGTH(64)"
  have d: "n div 8 < 8" using n by (simp add: div_less_iff_less_mult)
  have u: "unat (of_nat (n div 8) :: u64) = n div 8"
    using d by (simp add: unat_of_nat)
  have "bit (write64 m a v (a + of_nat (n div 8))) (n mod 8) = bit v (8 * (n div 8) + n mod 8)"
    using of_nat_less_8 [OF d] by (simp add: write64_def u bit_simps)
  also have "8 * (n div 8) + n mod 8 = n" by simp
  finally show "bit (read64 (write64 m a v) a) n = bit v n"
    using n by (simp add: bit_read64)
qed

text \<open>Two eight-byte cells are disjoint when each starts at least eight bytes after the
  other, modulo the size of the address space.\<close>

definition apart :: "u64 \<Rightarrow> u64 \<Rightarrow> bool" where
  "apart a b \<longleftrightarrow> 8 \<le> b - a \<and> 8 \<le> a - b"

lemma apart_offset:
  assumes "apart a b" "i < 8"
  shows "\<not> (b + of_nat i - a < (8 :: u64))"
proof
  define d where "d = b - a"
  define e where "e = d + of_nat i"
  assume "b + of_nat i - a < 8"
  then have e: "e < 8" by (simp add: e_def d_def algebra_simps)
  have d: "8 \<le> d" "8 \<le> - d" using assms(1) by (simp_all add: apart_def d_def)
  show False
  proof (cases "of_nat i \<le> e")
    case True
    have "d = e - of_nat i" by (simp add: e_def)
    also have "\<dots> \<le> e" using True by (simp add: word_sub_le)
    finally show False using e d(1) by (meson leD le_less_trans)
  next
    case False
    then have "- d = of_nat i - e" by (simp add: e_def)
    also have "\<dots> \<le> of_nat i" using False by (simp add: word_sub_le)
    finally show False using of_nat_less_8 [OF assms(2)] d(2) by (meson leD le_less_trans)
  qed
qed

lemma read64_write64_apart: "apart a b \<Longrightarrow> read64 (write64 m a v) b = read64 m b"
  by (rule read64_cong) (simp add: write64_def apart_offset)

lemma apart_sym: "apart a b \<Longrightarrow> apart b a"
  by (simp add: apart_def)

lemma read64_zero: "(\<And>i. i < 8 \<Longrightarrow> m (a + of_nat i) = 0) \<Longrightarrow> read64 m a = 0"
  by (rule bit_word_eqI) (simp add: bit_read64 div_less_iff_less_mult)

lemma fill_inside: "x - p < n \<Longrightarrow> fill m p v n x = v"
  by (simp add: fill_def)

lemma fill_outside: "\<not> x - p < n \<Longrightarrow> fill m p v n x = m x"
  by (simp add: fill_def)

section \<open>Narrow stores\<close>

definition write16 :: "mem \<Rightarrow> u64 \<Rightarrow> u16 \<Rightarrow> mem" where
  "write16 m a v = (\<lambda>x. if x - a < 2 then ucast (drop_bit (8 * unat (x - a)) v) else m x)"

definition write32 :: "mem \<Rightarrow> u64 \<Rightarrow> u32 \<Rightarrow> mem" where
  "write32 m a v = (\<lambda>x. if x - a < 4 then ucast (drop_bit (8 * unat (x - a)) v) else m x)"

lemma bit_read32: "bit (read32 m a) n \<longleftrightarrow> n < 32 \<and> bit (m (a + of_nat (n div 8))) (n mod 8)"
proof (cases "n < 32")
  case True
  then have "n div 8 < 4" by (simp add: div_less_iff_less_mult)
  then have "rev (map (\<lambda>i. m (a + of_nat i)) (rev [0..<4])) ! (n div 8) = m (a + of_nat (n div 8))"
    by (simp add: rev_map)
  with True \<open>n div 8 < 4\<close> show ?thesis
    using bit_horner_sum_uint_exp_iff [of "rev (map (\<lambda>i. m (a + of_nat i)) (rev [0..<4]))" n]
    by (simp add: read32_def word_rcat_def bit_simps)
next
  case False
  then show ?thesis by (simp add: read32_def word_rcat_def bit_simps)
qed

lemma read32_write32 [simp]: "read32 (write32 m a v) a = v"
proof (rule bit_word_eqI)
  fix n assume n: "n < LENGTH(32)"
  have d: "n div 8 < 4" using n by (simp add: div_less_iff_less_mult)
  have u: "unat (of_nat (n div 8) :: u64) = n div 8" using d by (simp add: unat_of_nat)
  then have "(of_nat (n div 8) :: u64) < 4" using d by (simp add: word_less_nat_alt)
  then have "bit (write32 m a v (a + of_nat (n div 8))) (n mod 8) = bit v (8 * (n div 8) + n mod 8)"
    by (simp add: write32_def u bit_simps)
  also have "8 * (n div 8) + n mod 8 = n" by simp
  finally show "bit (read32 (write32 m a v) a) n = bit v n" using n by (simp add: bit_read32)
qed

lemma bit_read16: "bit (read16 m a) n \<longleftrightarrow> n < 16 \<and> bit (m (a + of_nat (n div 8))) (n mod 8)"
proof (cases "n < 16")
  case True
  then have "n div 8 < 2" by (simp add: div_less_iff_less_mult)
  then have "rev (map (\<lambda>i. m (a + of_nat i)) (rev [0..<2])) ! (n div 8) = m (a + of_nat (n div 8))"
    by (simp add: rev_map)
  with True \<open>n div 8 < 2\<close> show ?thesis
    using bit_horner_sum_uint_exp_iff [of "rev (map (\<lambda>i. m (a + of_nat i)) (rev [0..<2]))" n]
    by (simp add: read16_def word_rcat_def bit_simps)
next
  case False
  then show ?thesis by (simp add: read16_def word_rcat_def bit_simps)
qed

end
