(* ===== verification/CLib.thy ===== *)
theory CLib
  imports Memory
begin

text \<open>
  The freestanding C library of the kernel: \<open>lib/ctype.cpp\<close>, \<open>lib/string.cpp\<close> and
  \<open>lib/stdlib.cpp\<close>. Pointers are addresses into a byte memory, a \<open>char\<close> is a signed
  8-bit value, an \<open>int\<close> is a 32-bit pattern, and the null pointer is address 0. A loop
  that scans for a terminator is a \<open>partial_function (option)\<close>: \<open>None\<close> means that it
  never ends.
\<close>

section \<open>Character classes\<close>

text \<open>The \<open>int\<close> results of the classification functions are truth values; the
  comparisons are on signed integers.\<close>

definition isdigit :: "cint \<Rightarrow> bool" where
  "isdigit ch \<longleftrightarrow> 0x30 \<le>s ch \<and> ch \<le>s 0x39"

definition isupper :: "cint \<Rightarrow> bool" where
  "isupper ch \<longleftrightarrow> 0x41 \<le>s ch \<and> ch \<le>s 0x5A"

definition islower :: "cint \<Rightarrow> bool" where
  "islower ch \<longleftrightarrow> 0x61 \<le>s ch \<and> ch \<le>s 0x7A"

definition isalpha :: "cint \<Rightarrow> bool" where
  "isalpha ch \<longleftrightarrow> isupper ch \<or> islower ch"

definition isalnum :: "cint \<Rightarrow> bool" where
  "isalnum ch \<longleftrightarrow> isalpha ch \<or> isdigit ch"

definition isblank :: "cint \<Rightarrow> bool" where
  "isblank ch \<longleftrightarrow> ch = 0x09 \<or> ch = 0x20"

definition iscntrl :: "cint \<Rightarrow> bool" where
  "iscntrl ch \<longleftrightarrow> (0x00 \<le>s ch \<and> ch \<le>s 0x1F) \<or> ch = 0x7F"

definition isgraph :: "cint \<Rightarrow> bool" where
  "isgraph ch \<longleftrightarrow> 0x21 \<le>s ch \<and> ch \<le>s 0x7A"

definition isprint :: "cint \<Rightarrow> bool" where
  "isprint ch \<longleftrightarrow> ch = 0x20 \<or> isgraph ch"

definition ispunct :: "cint \<Rightarrow> bool" where
  "ispunct ch \<longleftrightarrow> (0x21 \<le>s ch \<and> ch \<le>s 0x2F) \<or> (0x3A \<le>s ch \<and> ch \<le>s 0x40) \<or>
     (0x5B \<le>s ch \<and> ch \<le>s 0x60) \<or> (0x7B \<le>s ch \<and> ch \<le>s 0x7E)"

definition isspace :: "cint \<Rightarrow> bool" where
  "isspace ch \<longleftrightarrow> ch = 0x20 \<or> (0x09 \<le>s ch \<and> ch \<le>s 0x0D)"

definition isxdigit :: "cint \<Rightarrow> bool" where
  "isxdigit ch \<longleftrightarrow> (0x41 \<le>s ch \<and> ch \<le>s 0x46) \<or> (0x61 \<le>s ch \<and> ch \<le>s 0x66) \<or> isdigit ch"

definition tolower :: "cint \<Rightarrow> cint" where
  "tolower ch = (if isupper ch then ch XOR 0x20 else ch)"

definition toupper :: "cint \<Rightarrow> cint" where
  "toupper ch = (if islower ch then ch XOR 0x20 else ch)"

section \<open>Memory blocks\<close>

definition memset :: "mem \<Rightarrow> u64 \<Rightarrow> u8 \<Rightarrow> u64 \<Rightarrow> mem" where
  "memset m arr val len = fold (\<lambda>i m. m(arr + of_nat i := val)) [0..<unat len] m"

definition memcpy :: "mem \<Rightarrow> u64 \<Rightarrow> u64 \<Rightarrow> u64 \<Rightarrow> mem" where
  "memcpy m dest src len =
     fold (\<lambda>i m. m(dest + of_nat i := m (src + of_nat i))) [0..<unat len] m"

text \<open>\<open>memmove\<close> copies through a variable length array, here the list \<open>cpy\<close>.\<close>

definition memmove :: "mem \<Rightarrow> u64 \<Rightarrow> u64 \<Rightarrow> u64 \<Rightarrow> mem" where
  "memmove m dest src len =
     (let cpy = map (\<lambda>i. m (src + of_nat i)) [0..<unat len]
      in fold (\<lambda>i m. m(dest + of_nat i := cpy ! i)) [0..<unat len] m)"

fun memcmp_loop :: "mem \<Rightarrow> u64 \<Rightarrow> u64 \<Rightarrow> nat list \<Rightarrow> cint" where
  "memcmp_loop m m1 m2 [] = 0"
| "memcmp_loop m m1 m2 (i # is) =
     (if m (m1 + of_nat i) > m (m2 + of_nat i) then 1
      else if m (m1 + of_nat i) < m (m2 + of_nat i) then -1
      else memcmp_loop m m1 m2 is)"

definition memcmp :: "mem \<Rightarrow> u64 \<Rightarrow> u64 \<Rightarrow> u64 \<Rightarrow> cint" where
  "memcmp m m1 m2 len = memcmp_loop m m1 m2 [0..<unat len]"

fun memchr_loop :: "mem \<Rightarrow> u64 \<Rightarrow> u8 \<Rightarrow> nat \<Rightarrow> u64" where
  "memchr_loop m h needle 0 = 0"
| "memchr_loop m h needle (Suc n) =
     (if m h = needle then h else memchr_loop m (h + 1) needle n)"

definition memchr :: "mem \<Rightarrow> u64 \<Rightarrow> cint \<Rightarrow> u64 \<Rightarrow> u64" where
  "memchr m haystack needle sz = memchr_loop m haystack (ucast needle) (unat sz)"

section \<open>Strings\<close>

partial_function (option) strlen_loop :: "mem \<Rightarrow> u64 \<Rightarrow> u64 \<Rightarrow> u64 option" where
  "strlen_loop m s len = (if m (s + len) = 0 then Some len else strlen_loop m s (len + 1))"

definition strlen :: "mem \<Rightarrow> u64 \<Rightarrow> u64 option" where
  "strlen m s = strlen_loop m s 0"

partial_function (option) strcmp_loop :: "mem \<Rightarrow> u64 \<Rightarrow> u64 \<Rightarrow> u64 \<Rightarrow> cint option" where
  "strcmp_loop m str1 str2 i =
     (if m (str1 + i) \<noteq> 0 \<and> m (str1 + i) = m (str2 + i) then strcmp_loop m str1 str2 (i + 1)
      else Some (scast (m (str1 + i)) - scast (m (str2 + i))))"

definition strcmp :: "mem \<Rightarrow> u64 \<Rightarrow> u64 \<Rightarrow> cint option" where
  "strcmp m str1 str2 = strcmp_loop m str1 str2 0"

text \<open>\<open>strncmp\<close> compares the first \<open>len\<close> characters without looking for a terminator;
  the loop of the source runs while \<open>i < len - 1\<close> in unsigned arithmetic.\<close>

fun strncmp_loop :: "mem \<Rightarrow> u64 \<Rightarrow> u64 \<Rightarrow> nat \<Rightarrow> u64 \<Rightarrow> cint" where
  "strncmp_loop m str1 str2 0 i = scast (m (str1 + i)) - scast (m (str2 + i))"
| "strncmp_loop m str1 str2 (Suc n) i =
     (if m (str1 + i) = m (str2 + i) then strncmp_loop m str1 str2 n (i + 1)
      else scast (m (str1 + i)) - scast (m (str2 + i)))"

definition strncmp :: "mem \<Rightarrow> u64 \<Rightarrow> u64 \<Rightarrow> u64 \<Rightarrow> cint" where
  "strncmp m str1 str2 len = strncmp_loop m str1 str2 (unat (len - 1)) 0"

partial_function (option) strcpy_loop :: "mem \<Rightarrow> u64 \<Rightarrow> u64 \<Rightarrow> u64 \<Rightarrow> mem option" where
  "strcpy_loop m dest src i =
     (if m (src + i) \<noteq> 0 then strcpy_loop (m(dest + i := m (src + i))) dest src (i + 1)
      else Some (m(dest + i := 0)))"

definition strcpy :: "mem \<Rightarrow> u64 \<Rightarrow> u64 \<Rightarrow> mem option" where
  "strcpy m dest src = strcpy_loop m dest src 0"

fun strncpy_loop :: "mem \<Rightarrow> u64 \<Rightarrow> u64 \<Rightarrow> nat \<Rightarrow> u64 \<Rightarrow> mem" where
  "strncpy_loop m dest src 0 i = m"
| "strncpy_loop m dest src (Suc n) i =
     (if m (src + i) \<noteq> 0
      then strncpy_loop (m(dest + i := m (src + i))) dest src n (i + 1)
      else fold (\<lambda>j m. m(dest + (i + of_nat j) := 0)) [0..<Suc n] m)"

definition strncpy :: "mem \<Rightarrow> u64 \<Rightarrow> u64 \<Rightarrow> u64 \<Rightarrow> mem" where
  "strncpy m dest src len = strncpy_loop m dest src (unat len) 0"

text \<open>\<open>while (*dest++);\<close> leaves the pointer one past the terminator, and the following
  \<open>--dest\<close> steps back onto it.\<close>

partial_function (option) skip_string :: "mem \<Rightarrow> u64 \<Rightarrow> u64 option" where
  "skip_string m dest = (if m dest = 0 then Some (dest + 1) else skip_string m (dest + 1))"

definition strcat :: "mem \<Rightarrow> u64 \<Rightarrow> u64 \<Rightarrow> mem option" where
  "strcat m dest src =
     (case skip_string m dest of None \<Rightarrow> None | Some d \<Rightarrow> strcpy m (d - 1) src)"

definition strncat :: "mem \<Rightarrow> u64 \<Rightarrow> u64 \<Rightarrow> u64 \<Rightarrow> mem option" where
  "strncat m dest src len =
     (case skip_string m dest of None \<Rightarrow> None
      | Some d \<Rightarrow> Some ((strncpy m (d - 1) src len)((d - 1) + len := 0)))"

partial_function (option) strchr_loop :: "mem \<Rightarrow> u64 \<Rightarrow> u8 \<Rightarrow> u64 option" where
  "strchr_loop m str ch =
     (if m str = 0 then Some 0 else if m str = ch then Some str else strchr_loop m (str + 1) ch)"

definition strchr :: "mem \<Rightarrow> u64 \<Rightarrow> cint \<Rightarrow> u64 option" where
  "strchr m str ch = strchr_loop m str (ucast ch)"

partial_function (option) strrchr_loop :: "mem \<Rightarrow> u64 \<Rightarrow> u8 \<Rightarrow> u64 \<Rightarrow> u64 option" where
  "strrchr_loop m str ch sp =
     (if m str = 0 then Some sp
      else strrchr_loop m (str + 1) ch (if m str = ch then str else sp))"

definition strrchr :: "mem \<Rightarrow> u64 \<Rightarrow> cint \<Rightarrow> u64 option" where
  "strrchr m str ch = strrchr_loop m str (ucast ch) 0"

text \<open>The inner loop of \<open>strstr\<close>: \<open>Some (Some p)\<close> is a \<open>return p\<close>, \<open>Some None\<close> means that
  the characters differed and the outer loop goes on.\<close>

partial_function (option) strstr_inner :: "mem \<Rightarrow> u64 \<Rightarrow> u64 \<Rightarrow> u64 \<Rightarrow> u64 option option" where
  "strstr_inner m str1 str2 i =
     (if m (str1 + i) = m (str2 + i)
      then (if m (str2 + (i + 1)) = 0 then Some (Some str1)
            else if m (str1 + (i + 1)) = 0 then Some (Some 0)
            else strstr_inner m str1 str2 (i + 1))
      else Some None)"

partial_function (option) strstr :: "mem \<Rightarrow> u64 \<Rightarrow> u64 \<Rightarrow> u64 option" where
  "strstr m str1 str2 =
     (if m str1 = 0 then Some 0
      else if m str1 = m str2
      then Option.bind (strstr_inner m str1 str2 1)
             (\<lambda>r. case r of Some p \<Rightarrow> Some p | None \<Rightarrow> strstr m (str1 + 1) str2)
      else strstr m (str1 + 1) str2)"

partial_function (option) strpbrk_inner :: "mem \<Rightarrow> u8 \<Rightarrow> u64 \<Rightarrow> u64 option option" where
  "strpbrk_inner m c sp =
     (if m sp = 0 then Some None else if c = m sp then Some (Some sp)
      else strpbrk_inner m c (sp + 1))"

partial_function (option) strpbrk :: "mem \<Rightarrow> u64 \<Rightarrow> u64 \<Rightarrow> u64 option" where
  "strpbrk m str targets =
     (if m str = 0 then Some 0
      else Option.bind (strpbrk_inner m (m str) targets)
             (\<lambda>r. case r of Some p \<Rightarrow> Some p | None \<Rightarrow> strpbrk m (str + 1) targets))"

section \<open>Conversions\<close>

text \<open>\<open>atoi\<close>, \<open>atol\<close> and \<open>atoll\<close> differ in the width of \<open>res\<close>, so they are one
  function at three widths; the sign is an \<open>int\<close>. Arithmetic wraps.\<close>

definition promote_char :: "u8 \<Rightarrow> cint" where
  "promote_char c = scast c"

partial_function (option) skip_spaces :: "mem \<Rightarrow> u64 \<Rightarrow> u64 option" where
  "skip_spaces m str = (if isspace (promote_char (m str)) then skip_spaces m (str + 1) else Some str)"

partial_function (option) ato_loop :: "mem \<Rightarrow> u64 \<Rightarrow> 'w::len word \<Rightarrow> 'w word \<Rightarrow> 'w word option" where
  "ato_loop m str sign res =
     (if m str = 0 then Some (sign * res)
      else if isdigit (promote_char (m str))
      then ato_loop m (str + 1) sign (res * 10 + scast (promote_char (m str) - 0x30))
      else Some (sign * res))"

definition ato :: "mem \<Rightarrow> u64 \<Rightarrow> 'w::len word option" where
  "ato m str =
     Option.bind (skip_spaces m str) (\<lambda>str.
       let (sign, str) = (if m str = 0x2D then (- 1, str + 1) else (1, str));
           str = (if m str = 0x2B then str + 1 else str)
       in ato_loop m str sign 0)"

definition atoi :: "mem \<Rightarrow> u64 \<Rightarrow> cint option" where
  "atoi m str = ato m str"

definition atol :: "mem \<Rightarrow> u64 \<Rightarrow> 64 word option" where
  "atol m str = ato m str"

definition atoll :: "mem \<Rightarrow> u64 \<Rightarrow> 64 word option" where
  "atoll m str = ato m str"

text \<open>\<open>reverse\<close> swaps from both ends; its indices are \<open>int\<close>s, and \<open>strlen(s) - 1\<close> is
  truncated to 32 bits. Indexing sign-extends.\<close>

function reverse_loop :: "mem \<Rightarrow> u64 \<Rightarrow> cint \<Rightarrow> cint \<Rightarrow> mem" where
  "reverse_loop m s i j =
     (if i <s j
      then reverse_loop (m(s + scast i := m (s + scast j), s + scast j := m (s + scast i)))
             s (i + 1) (j - 1)
      else m)"
  by pat_completeness auto
termination
proof (relation "measure (\<lambda>(m, s, i, j). nat (sint j - sint i))")
  fix m :: mem and s :: u64 and i j :: cint
  assume "i <s j"
  then have lt: "sint i < sint j" by (simp add: word_sless_alt)
  have "sint (i + 1) = sint i + 1"
    using lt sint_lt [of j] sint_ge [of i]
    by (simp add: sint_word_ariths signed_take_bit_int_eq_self)
  moreover have "sint (j - 1) = sint j - 1"
    using lt sint_lt [of j] sint_ge [of i]
    by (simp add: sint_word_ariths signed_take_bit_int_eq_self)
  ultimately show "((m(s + scast i := m (s + scast j), s + scast j := m (s + scast i)), s, i + 1, j - 1), m, s, i, j)
      \<in> measure (\<lambda>(m, s, i, j). nat (sint j - sint i))"
    using lt by simp
qed simp

declare reverse_loop.simps [simp del]

definition reverse :: "mem \<Rightarrow> u64 \<Rightarrow> mem option" where
  "reverse m s = map_option (\<lambda>n. reverse_loop m s 0 (ucast (n - 1))) (strlen m s)"

text \<open>The literal \<open>"0123456789ABCDEF"\<close> and its terminator; an index beyond it is an
  access outside the literal.\<close>

definition digits_upper :: "u8 list" where
  "digits_upper = [0x30, 0x31, 0x32, 0x33, 0x34, 0x35, 0x36, 0x37, 0x38, 0x39,
     0x41, 0x42, 0x43, 0x44, 0x45, 0x46, 0]"

partial_function (option) itoa_loop ::
  "mem \<Rightarrow> u64 \<Rightarrow> u64 \<Rightarrow> u32 \<Rightarrow> u32 \<Rightarrow> (mem \<times> u64) result option" where
  "itoa_loop m s i n base =
     (if base = 0 then Some (Inl Panic)
      else if unat (n mod base) < length digits_upper
      then (let m' = m(s + i := digits_upper ! unat (n mod base)) in
            if n div base > 0 then itoa_loop m' s (i + 1) (n div base) base
            else Some (Inr (m', i + 1)))
      else Some (Inl OutOfBounds))"

text \<open>\<open>itoa\<close> writes the digits in reverse order, terminates the buffer and reverses it.
  Division by a base of 0 is a divide error of the CPU, which the kernel turns into a
  panic.\<close>

definition itoa :: "u32 \<Rightarrow> mem \<Rightarrow> u64 \<Rightarrow> cint \<Rightarrow> mem result option" where
  "itoa n m s base =
     Option.bind (itoa_loop m s 0 n base) (\<lambda>r. case r of
       Inl e \<Rightarrow> Some (Inl e)
     | Inr (m', i) \<Rightarrow> map_option Inr (reverse (m'(s + i := 0)) s))"

section \<open>Reference definitions\<close>

text \<open>\<open>cstr m p xs\<close>: the bytes \<open>xs\<close>, none of them 0, are stored at \<open>p\<close> and followed by
  a terminator. \<open>store_bytes\<close> writes a list of bytes.\<close>

primrec cstr :: "mem \<Rightarrow> u64 \<Rightarrow> u8 list \<Rightarrow> bool" where
  "cstr m p [] \<longleftrightarrow> m p = 0"
| "cstr m p (x # xs) \<longleftrightarrow> m p = x \<and> x \<noteq> 0 \<and> cstr m (p + 1) xs"

primrec store_bytes :: "mem \<Rightarrow> u64 \<Rightarrow> u8 list \<Rightarrow> mem" where
  "store_bytes m p [] = m"
| "store_bytes m p (x # xs) = store_bytes (m(p := x)) (p + 1) xs"


text \<open>Two blocks of \<open>n\<close> bytes that share no address.\<close>

definition disjoint_blocks :: "u64 \<Rightarrow> u64 \<Rightarrow> nat \<Rightarrow> bool" where
  "disjoint_blocks d s n \<longleftrightarrow> (\<forall>i<n. \<forall>j<n. d + of_nat i \<noteq> s + of_nat j)"

text \<open>The digits of a number, least significant first: the reference for \<open>itoa\<close>.\<close>

function ndigits :: "nat \<Rightarrow> nat \<Rightarrow> nat list" where
  "ndigits b n = (n mod b) # (if 2 \<le> b \<and> n div b > 0 then ndigits b (n div b) else [])"
  by pat_completeness auto
termination
  by (relation "measure snd") (auto simp: div_greater_zero_iff)

declare ndigits.simps [simp del]

definition digit_bytes :: "nat \<Rightarrow> nat \<Rightarrow> u8 list" where
  "digit_bytes b n = map (\<lambda>d. digits_upper ! d) (ndigits b n)"

section \<open>Memory blocks: the loops against their closed forms\<close>

lemma memset_upto: "k < 2 ^ 64 \<Longrightarrow>
   fold (\<lambda>i m. m(arr + of_nat i := val)) [0..<k] m = fill m arr val (of_nat k)"
proof (induction k)
  case 0
  then show ?case by (simp add: fill_def)
next
  case (Suc k)
  then show ?case
    by (auto simp: fill_def fun_eq_iff of_nat_Suc_less diff_eq_eq add.commute simp del: of_nat_Suc)
qed

lemma memset_fill: "memset m arr val len = fill m arr val len"
  using memset_upto [of "unat len" arr val m] unat_u64_less [of len] by (simp add: memset_def)

lemma memmove_upto: "k \<le> n \<Longrightarrow> n < 2 ^ 64 \<Longrightarrow>
   fold (\<lambda>i m. m(dest + of_nat i := map (\<lambda>i. m0 (src + of_nat i)) [0..<n] ! i)) [0..<k] m
   = (\<lambda>x :: u64. if x - dest < of_nat k then m0 (src + (x - dest)) else m x)"
proof (induction k)
  case 0
  then show ?case by simp
next
  case (Suc k)
  then show ?case
    by (auto simp: fun_eq_iff of_nat_Suc_less diff_eq_eq add.commute simp del: of_nat_Suc)
qed

lemma memmove_blit: "memmove m dest src len = blit m dest src len"
  using memmove_upto [of "unat len" "unat len" dest m src m] unat_u64_less [of len]
  by (simp add: memmove_def blit_def)

lemma memcpy_upto: "k < 2 ^ 64 \<Longrightarrow> \<forall>i<k. \<forall>j<k. dest + of_nat i \<noteq> src + of_nat j \<Longrightarrow>
   fold (\<lambda>i m. m(dest + of_nat i := m (src + of_nat i))) [0..<k] m = blit m dest src (of_nat k)"
proof (induction k)
  case 0
  then show ?case by (simp add: blit_def)
next
  case (Suc k)
  have sk: "\<not> src + of_nat k - dest < of_nat k"
  proof
    assume a: "src + of_nat k - dest < of_nat k"
    define i where "i = unat (src + of_nat k - dest)"
    from a Suc.prems(1) have "i < k" by (simp add: i_def word_less_nat_alt unat_of_nat)
    moreover have "dest + of_nat i = src + of_nat k" by (simp add: i_def)
    ultimately show False using Suc.prems(2) by (metis lessI less_SucI)
  qed
  have IH: "fold (\<lambda>i m. m(dest + of_nat i := m (src + of_nat i))) [0..<k] m = blit m dest src (of_nat k)"
    using Suc.prems by (intro Suc.IH) auto
  have less: "x - dest < of_nat (Suc k) \<longleftrightarrow> x - dest < of_nat k \<or> x = dest + of_nat k" for x
    using of_nat_Suc_less [OF Suc.prems(1), of "x - dest"] by (auto simp: diff_eq_eq add.commute)
  have "fold (\<lambda>i m. m(dest + of_nat i := m (src + of_nat i))) [0..<Suc k] m
      = (blit m dest src (of_nat k))(dest + of_nat k := blit m dest src (of_nat k) (src + of_nat k))"
    by (simp add: IH)
  also have "\<dots> = blit m dest src (of_nat (Suc k))"
    using sk by (auto simp: blit_def fun_eq_iff less simp del: of_nat_Suc)
  finally show ?case .
qed

lemma memcpy_blit: "disjoint_blocks dest src (unat len) \<Longrightarrow> memcpy m dest src len = blit m dest src len"
  using memcpy_upto [of "unat len" dest src m] unat_u64_less [of len]
  by (simp add: memcpy_def disjoint_blocks_def)

lemma strlen_loop_cstr: "cstr m (s + len) xs \<Longrightarrow> strlen_loop m s len = Some (len + of_nat (length xs))"
proof (induction xs arbitrary: len)
  case Nil
  then show ?case by (subst strlen_loop.simps) simp
next
  case (Cons x xs)
  then have "strlen_loop m s (len + 1) = Some (len + 1 + of_nat (length xs))"
    by (simp add: add.assoc)
  with Cons.prems show ?case
    by (subst strlen_loop.simps) (simp add: algebra_simps)
qed

lemma strlen_cstr: "cstr m s xs \<Longrightarrow> strlen m s = Some (of_nat (length xs))"
  using strlen_loop_cstr [of m s 0 xs] by (simp add: strlen_def)

lemma scast_u8_inj: "(scast (a :: u8) :: cint) = scast b \<longleftrightarrow> a = b"
proof
  assume eq: "(scast a :: cint) = scast b"
  show "a = b"
  proof (rule bit_word_eqI)
    fix n assume n: "n < LENGTH(8)"
    have "bit (scast a :: cint) n = bit (scast b :: cint) n" using eq by simp
    with n show "bit a n = bit b n" by (simp add: bit_simps)
  qed
qed simp

lemma scast_u8_eq_0 [simp]: "(scast (a :: u8) :: cint) = 0 \<longleftrightarrow> a = 0"
  using scast_u8_inj [of a 0] by simp

lemma strcmp_loop_cstr:
  "cstr m (a + i) xs \<Longrightarrow> cstr m (b + i) ys \<Longrightarrow>
   \<exists>r. strcmp_loop m a b i = Some r \<and> (r = 0 \<longleftrightarrow> xs = ys)"
proof (induction xs arbitrary: i ys)
  case Nil
  then show ?case by (subst strcmp_loop.simps, cases ys) (auto simp: scast_u8_inj)
next
  case (Cons x xs)
  show ?case
  proof (cases ys)
    case Nil
    with Cons.prems show ?thesis by (subst strcmp_loop.simps) (auto simp: scast_u8_inj)
  next
    case (Cons y ys')
    show ?thesis
    proof (cases "x = y")
      case True
      with Cons Cons.prems Cons.IH [of "i + 1" ys'] show ?thesis
        by (subst strcmp_loop.simps) (simp add: add.assoc)
    next
      case False
      with Cons Cons.prems show ?thesis by (subst strcmp_loop.simps) (auto simp: scast_u8_inj)
    qed
  qed
qed


lemma strcmp_cstr:
  "cstr m a xs \<Longrightarrow> cstr m b ys \<Longrightarrow> \<exists>r. strcmp m a b = Some r \<and> (r = 0 \<longleftrightarrow> xs = ys)"
  using strcmp_loop_cstr [of m a 0 xs b ys] by (simp add: strcmp_def)

lemma strncmp_loop_eq_0:
  "strncmp_loop m a b n i = 0 \<longleftrightarrow> (\<forall>k<Suc n. m (a + i + of_nat k) = m (b + i + of_nat k))"
proof (induction n arbitrary: i)
  case 0
  then show ?case by (simp add: scast_u8_inj)
next
  case (Suc n)
  show ?case
    by (subst All_less_Suc2) (auto simp: Suc.IH scast_u8_inj add.assoc)
qed

lemma strncmp_eq_0:
  assumes "len \<noteq> 0"
  shows "strncmp m a b len = 0 \<longleftrightarrow> (\<forall>k<unat len. m (a + of_nat k) = m (b + of_nat k))"
proof -
  have "Suc (unat (len - 1)) = unat len"
    using assms by (simp add: unat_minus_one unat_gt_0)
  then show ?thesis by (simp add: strncmp_def strncmp_loop_eq_0)
qed

lemma strcpy_loop_cstr:
  "cstr m (src + i) xs \<Longrightarrow>
   \<forall>j k. j \<le> length xs \<longrightarrow> k \<le> length xs \<longrightarrow> dest + i + of_nat j \<noteq> src + i + of_nat k \<Longrightarrow>
   strcpy_loop m dest src i = Some (store_bytes m (dest + i) (xs @ [0]))"
proof (induction xs arbitrary: i m)
  case Nil
  then show ?case by (subst strcpy_loop.simps) simp
next
  case (Cons x xs)
  have frame: "cstr (m(q := v)) p zs" if "cstr m p zs" "\<forall>k\<le>length zs. q \<noteq> p + of_nat k" for q v p zs
    using that
  proof (induction zs arbitrary: p)
    case Nil
    then show ?case by simp
  next
    case (Cons z zs)
    have "\<forall>k\<le>length zs. q \<noteq> p + 1 + of_nat k"
    proof (intro allI impI)
      fix k assume "k \<le> length zs"
      then show "q \<noteq> p + 1 + of_nat k"
        using Cons.prems(2)[rule_format, of "Suc k"] by (simp add: add.assoc)
    qed
    moreover have "q \<noteq> p" using Cons.prems(2)[rule_format, of 0] by simp
    ultimately show ?case using Cons by auto
  qed
  have nz: "m (src + i) = x" "x \<noteq> 0" "cstr m (src + (i + 1)) xs"
    using Cons.prems(1) by (simp_all add: add.assoc)
  have "\<forall>k\<le>length xs. dest + i \<noteq> src + (i + 1) + of_nat k"
  proof (intro allI impI)
    fix k assume "k \<le> length xs"
    then show "dest + i \<noteq> src + (i + 1) + of_nat k"
      using Cons.prems(2)[rule_format, of 0 "Suc k"] by (simp add: add.assoc)
  qed
  with nz(3) have "cstr (m(dest + i := x)) (src + (i + 1)) xs" by (rule frame)
  moreover have "\<forall>j k. j \<le> length xs \<longrightarrow> k \<le> length xs \<longrightarrow>
      dest + (i + 1) + of_nat j \<noteq> src + (i + 1) + of_nat k"
  proof (intro allI impI)
    fix j k assume "j \<le> length xs" "k \<le> length xs"
    then show "dest + (i + 1) + of_nat j \<noteq> src + (i + 1) + of_nat k"
      using Cons.prems(2)[rule_format, of "Suc j" "Suc k"] by (simp add: add.assoc add.left_commute)
  qed
  ultimately have "strcpy_loop (m(dest + i := x)) dest src (i + 1)
      = Some (store_bytes (m(dest + i := x)) (dest + (i + 1)) (xs @ [0]))"
    by (rule Cons.IH)
  with nz show ?case
    by (subst strcpy_loop.simps) (simp add: add.assoc)
qed

section \<open>Searching, reversing, and numbers in memory\<close>

lemma strchr_loop_cstr:
  "cstr m p xs \<Longrightarrow> c \<noteq> 0 \<Longrightarrow>
   strchr_loop m p c = Some (if c \<in> set xs then p + of_nat (length (takeWhile (\<lambda>x. x \<noteq> c) xs)) else 0)"
proof (induction xs arbitrary: p)
  case Nil
  then show ?case by (subst strchr_loop.simps) simp
next
  case (Cons x xs)
  then show ?case by (subst strchr_loop.simps) (auto simp: add.assoc)
qed

lemma cstr_iff:
  "cstr m p xs \<longleftrightarrow> (\<forall>k<length xs. m (p + of_nat k) = xs ! k \<and> xs ! k \<noteq> 0) \<and> m (p + of_nat (length xs)) = 0"
proof (induction xs arbitrary: p)
  case Nil
  then show ?case by simp
next
  case (Cons x xs)
  show ?case
    by (simp only: length_Cons All_less_Suc2, simp add: Cons.IH add.assoc)
qed

lemma store_bytes_outside:
  "\<forall>k<length xs. x \<noteq> p + of_nat k \<Longrightarrow> store_bytes m p xs x = m x"
proof (induction xs arbitrary: p m)
  case Nil
  then show ?case by simp
next
  case (Cons y ys)
  have 1: "x \<noteq> p" using Cons.prems[rule_format, of 0] by simp
  have "\<forall>k<length ys. x \<noteq> p + 1 + of_nat k"
  proof (intro allI impI)
    fix k assume "k < length ys"
    then show "x \<noteq> p + 1 + of_nat k"
      using Cons.prems[rule_format, of "Suc k"] by (simp add: add.assoc)
  qed
  from Cons.IH [OF this] 1 show ?case by simp
qed

lemma store_bytes_nth:
  "k < length xs \<Longrightarrow> length xs < 2 ^ 64 \<Longrightarrow> store_bytes m p xs (p + of_nat k) = xs ! k"
proof (induction xs arbitrary: p m k)
  case Nil
  then show ?case by simp
next
  case (Cons y ys)
  show ?case
  proof (cases k)
    case 0
    have "\<forall>j<length ys. p \<noteq> p + 1 + of_nat j"
    proof (intro allI impI)
      fix j assume "j < length ys"
      with Cons.prems(2) offset_inj [of 0 "Suc j" p] show "p \<noteq> p + 1 + of_nat j"
        by (simp add: add.assoc)
    qed
    from store_bytes_outside [OF this, of "m(p := y)"] 0 show ?thesis by simp
  next
    case (Suc j)
    have "store_bytes (m(p := y)) (p + 1) ys (p + 1 + of_nat j) = ys ! j"
      using Suc Cons.prems by (intro Cons.IH) simp_all
    with Suc show ?thesis by (simp add: add.assoc)
  qed
qed

lemma store_bytes_snoc: "store_bytes m p (xs @ [y]) = (store_bytes m p xs)(p + of_nat (length xs) := y)"
  by (induction xs arbitrary: m p) (auto simp: add.assoc)

lemma cstr_store_bytes:
  assumes "0 \<notin> set xs" "length xs < 2 ^ 63"
  shows "cstr (store_bytes m p (xs @ [0])) p xs"
proof -
  have "store_bytes m p (xs @ [0]) (p + of_nat k) = (xs @ [0]) ! k" if "k < Suc (length xs)" for k
    using that assms(2) by (intro store_bytes_nth) simp_all
  then show ?thesis
    using assms(1) by (auto simp: cstr_iff nth_append in_set_conv_nth)
qed

lemma sint_of_nat_cint: "a < 2 ^ 31 \<Longrightarrow> sint (of_nat a :: cint) = int a"
  by (simp add: signed_of_nat signed_take_bit_int_eq_self)

lemma scast_of_nat_cint: "a < 2 ^ 31 \<Longrightarrow> (scast (of_nat a :: cint) :: u64) = of_nat a"
  by (simp add: scast_eq sint_of_nat_cint)

text \<open>Memory with the bytes from \<open>a\<close> to \<open>b\<close> above \<open>s\<close> in reverse order; exchanging the two outer bytes and reversing those between
  them reverses all.\<close>

definition mirrored :: "mem \<Rightarrow> u64 \<Rightarrow> nat \<Rightarrow> nat \<Rightarrow> mem" where
  "mirrored m s a b =
     (\<lambda>x. if a \<le> unat (x - s) \<and> unat (x - s) \<le> b then m (s + of_nat (a + b - unat (x - s))) else m x)"

lemma mirrored_offset:
  assumes "k < 2 ^ 64"
  shows "mirrored m s a b (s + of_nat k) = (if a \<le> k \<and> k \<le> b then m (s + of_nat (a + b - k)) else m (s + of_nat k))"
  using assms by (simp add: mirrored_def unat_of_nat del: of_nat_diff of_nat_add)

lemma mirrored_trivial:
  assumes "b \<le> a"
  shows "mirrored m s a b = m"
proof
  fix x
  have "a + b - unat (x - s) = unat (x - s)" if "a \<le> unat (x - s)" "unat (x - s) \<le> b" using that assms by simp
  then show "mirrored m s a b x = m x" by (auto simp add: mirrored_def simp del: of_nat_diff of_nat_add)
qed

lemma mirrored_swap:
  assumes "a < b" "b < 2 ^ 31"
  shows "mirrored (m(s + of_nat a := m (s + of_nat b), s + of_nat b := m (s + of_nat a))) s (Suc a) (b - 1) = mirrored m s a b"
    (is "mirrored ?m1 s _ _ = _")
proof
  fix x
  define k where "k = unat (x - s)"
  have x: "x = s + of_nat k" by (simp add: k_def)
  have k: "k < 2 ^ 64" using unat_u64_less [of "x - s"] by (simp add: k_def)
  have other: "?m1 (s + of_nat j) = m (s + of_nat j)" if "j < 2 ^ 64" "j \<noteq> a" "j \<noteq> b" for j
    using that assms by (simp add: of_nat_u64_inj)
  consider "k = a" | "k = b" | "a < k" "k < b" | "k < a \<or> b < k" by linarith
  then show "mirrored ?m1 s (Suc a) (b - 1) x = mirrored m s a b x"
    unfolding x mirrored_offset [OF k]
  proof cases
    case 3
    then have "k \<le> b - 1" "Suc a + (b - 1) - k = a + b - k" "?m1 (s + of_nat (a + b - k)) = m (s + of_nat (a + b - k))"
      using other [of "a + b - k"] assms by (simp_all del: of_nat_diff of_nat_add fun_upd_apply)
    then show "(if Suc a \<le> k \<and> k \<le> b - 1 then ?m1 (s + of_nat (Suc a + (b - 1) - k)) else ?m1 (s + of_nat k)) =
        (if a \<le> k \<and> k \<le> b then m (s + of_nat (a + b - k)) else m (s + of_nat k))"
      using 3 by (simp del: of_nat_diff of_nat_add fun_upd_apply)
  qed (use assms other [OF k] in auto)
qed

lemma reverse_loop_mirrored:
  "b < 2 ^ 31 \<Longrightarrow> a < 2 ^ 31 \<Longrightarrow> reverse_loop m s (of_nat a) (of_nat b) = mirrored m s a b"
proof (induction "b - a" arbitrary: a b m rule: less_induct)
  case less
  have lt: "(of_nat a :: cint) <s of_nat b \<longleftrightarrow> a < b"
    using less.prems by (simp add: word_sless_alt sint_of_nat_cint)
  show ?case
  proof (cases "a < b")
    case False
    then show ?thesis using lt by (subst reverse_loop.simps) (simp add: mirrored_trivial)
  next
    case True
    let ?m1 = "m(s + of_nat a := m (s + of_nat b), s + of_nat b := m (s + of_nat a))"
    have "reverse_loop m s (of_nat a) (of_nat b) = reverse_loop ?m1 s (of_nat a + 1) (of_nat b - 1)"
      using less.prems True lt by (subst reverse_loop.simps) (simp add: scast_of_nat_cint)
    also have "\<dots> = reverse_loop ?m1 s (of_nat (Suc a)) (of_nat (b - 1))" using True by (simp add: add.commute)
    also have "\<dots> = mirrored ?m1 s (Suc a) (b - 1)" using True less.prems by (intro less.hyps) simp_all
    finally show ?thesis using mirrored_swap [OF True less.prems(1)] by simp
  qed
qed

lemmas reverse_loop_eq = reverse_loop_mirrored [unfolded mirrored_def]

lemma reverse_cstr:
  assumes "cstr m s xs" "xs \<noteq> []" "length xs < 2 ^ 31"
  shows "\<exists>m'. reverse m s = Some m' \<and> cstr m' s (rev xs)"
proof -
  define n where "n = length xs - 1"
  have len: "length xs = Suc n" using assms(2) by (cases xs) (simp_all add: n_def)
  have ucast: "(ucast (of_nat (length xs) - 1 :: u64) :: cint) = of_nat n"
    by (simp add: len unsigned_of_nat word_of_nat_eq_iff)
  define m' where "m' = reverse_loop m s (of_nat 0) (of_nat n)"
  have "reverse m s = Some m'"
    by (simp add: reverse_def strlen_cstr [OF assms(1)] ucast m'_def)
  moreover have eq: "m' = (\<lambda>x. if unat (x - s) \<le> n then m (s + of_nat (n - unat (x - s))) else m x)"
    using reverse_loop_eq [of n 0 m s] assms(3) by (simp add: m'_def len cong: if_cong)
  have "cstr m' s (rev xs)"
    using assms(1,3)
    by (auto simp: cstr_iff eq unat_of_nat len rev_nth simp del: of_nat_Suc of_nat_diff)
  ultimately show ?thesis by blast
qed


lemma ndigits_less: "0 < b \<Longrightarrow> d \<in> set (ndigits b n) \<Longrightarrow> d < b"
proof (induction b n rule: ndigits.induct)
  case (1 b n)
  then show ?case by (subst (asm) (2) ndigits.simps) (auto split: if_splits)
qed

lemma ndigits_nonempty: "ndigits b n \<noteq> []"
  by (subst ndigits.simps) simp

lemma ndigits_value: "2 \<le> b \<Longrightarrow> foldr (\<lambda>d r. r * b + d) (ndigits b n) 0 = n"
proof (induction b n rule: ndigits.induct)
  case (1 b n)
  then show ?case
    by (subst ndigits.simps) (auto simp: div_greater_zero_iff)
qed

lemma ndigits_length: "2 \<le> b \<Longrightarrow> n < 2 ^ k \<Longrightarrow> length (ndigits b n) \<le> Suc k"
proof (induction b n arbitrary: k rule: ndigits.induct)
  case (1 b n)
  show ?case
  proof (cases "n div b > 0")
    case True
    then have "n \<noteq> 0" by (cases n) auto
    then obtain k' where k: "k = Suc k'" using 1(3) by (cases k) auto
    have "n div b \<le> n div 2" using 1(2) by (simp add: div_le_mono2)
    also have "n div 2 < 2 ^ k'" using 1(3) k by simp
    finally have "length (ndigits b (n div b)) \<le> Suc k'"
      using 1 True by simp
    with True 1(2) k show ?thesis by (subst ndigits.simps) simp
  next
    case False
    then show ?thesis by (subst ndigits.simps) simp
  qed
qed


lemma itoa_loop_eq:
  assumes "2 \<le> unat base" "unat base \<le> 16"
  shows "itoa_loop m s i n base = Some (Inr (store_bytes m (s + i) (digit_bytes (unat base) (unat n)),
     i + of_nat (length (digit_bytes (unat base) (unat n)))))"
proof (induction "unat n" arbitrary: m i n rule: less_induct)
  case less
  have b0: "base \<noteq> 0" using assms(1) by auto
  have "unat (n mod base) < unat base" using assms(1) by (simp add: unat_mod)
  with assms(2) have in_lit: "unat (n mod base) < length digits_upper" by (simp add: digits_upper_def)
  let ?m = "m(s + i := digits_upper ! unat (n mod base))"
  show ?case
  proof (cases "n div base > 0")
    case True
    then have pos: "0 < unat n div unat base" by (simp add: word_less_nat_alt unat_div)
    have "unat (n div base) < unat n"
      using pos assms(1) by (simp add: unat_div div_greater_zero_iff)
    from less [OF this, of ?m "i + 1"]
    have "itoa_loop ?m s (i + 1) (n div base) base = Some (Inr
       (store_bytes ?m (s + (i + 1)) (digit_bytes (unat base) (unat (n div base))),
        i + 1 + of_nat (length (digit_bytes (unat base) (unat (n div base))))))" .
    moreover have "digit_bytes (unat base) (unat n) =
        digits_upper ! unat (n mod base) # digit_bytes (unat base) (unat (n div base))"
      unfolding digit_bytes_def
      using pos assms(1) by (subst ndigits.simps) (simp add: unat_mod unat_div)
    ultimately show ?thesis
      using True b0 in_lit by (subst itoa_loop.simps) (simp add: Let_def add.assoc)
  next
    case False
    then have "\<not> 0 < unat n div unat base" by (simp add: word_less_nat_alt unat_div)
    then have "digit_bytes (unat base) (unat n) = [digits_upper ! unat (n mod base)]"
      unfolding digit_bytes_def
      by (subst ndigits.simps) (simp add: unat_mod)
    with False b0 in_lit show ?thesis
      by (subst itoa_loop.simps) (simp add: Let_def)
  qed
qed

lemma digits_upper_nonzero: "d < 16 \<Longrightarrow> digits_upper ! d \<noteq> 0"
proof -
  assume "d < 16"
  then have "take 16 digits_upper ! d \<in> set (take 16 digits_upper)"
    by (intro nth_mem) (simp add: digits_upper_def)
  moreover have "0 \<notin> set (take 16 digits_upper)" by (simp add: digits_upper_def)
  ultimately show ?thesis using \<open>d < 16\<close> by (metis nth_take)
qed

lemma digit_bytes_nonzero: "2 \<le> b \<Longrightarrow> b \<le> 16 \<Longrightarrow> 0 \<notin> set (digit_bytes b n)"
  using ndigits_less [of b _ n] digits_upper_nonzero
  by (fastforce simp: digit_bytes_def)

lemma itoa_cstr:
  assumes "2 \<le> unat base" "unat base \<le> 16"
  shows "\<exists>m'. itoa n m s base = Some (Inr m') \<and> cstr m' s (rev (digit_bytes (unat base) (unat n)))"
proof -
  let ?ds = "digit_bytes (unat base) (unat n)"
  have "unat n < 2 ^ 32" using unsigned_less [of n, where 'a = nat] by simp
  with ndigits_length [OF assms(1), of "unat n" 32]
  have len: "length ?ds \<le> 33" by (simp add: digit_bytes_def)
  have "cstr (store_bytes m s (?ds @ [0])) s ?ds"
    using digit_bytes_nonzero [OF assms] len by (intro cstr_store_bytes) simp_all
  then have "cstr ((store_bytes m s ?ds)(s + of_nat (length ?ds) := 0)) s ?ds"
    by (simp add: store_bytes_snoc)
  from reverse_cstr [OF this] len ndigits_nonempty
  obtain m' where "reverse ((store_bytes m s ?ds)(s + of_nat (length ?ds) := 0)) s = Some m'"
    "cstr m' s (rev ?ds)"
    by (auto simp: digit_bytes_def)
  then show ?thesis
    by (simp add: itoa_def itoa_loop_eq [OF assms])
qed

lemma digit_char:
  assumes "d < 10"
  shows "isdigit (promote_char (digits_upper ! d))" "\<not> isspace (promote_char (digits_upper ! d))"
    "digits_upper ! d \<noteq> 0x2D" "digits_upper ! d \<noteq> 0x2B" "digits_upper ! d \<noteq> 0"
    "promote_char (digits_upper ! d) - 0x30 = of_nat d"
proof -
  consider "d = 0" | "d = 1" | "d = 2" | "d = 3" | "d = 4" | "d = 5" | "d = 6" | "d = 7" | "d = 8" | "d = 9"
    using assms by (auto simp: less_Suc_eq numeral_eq_Suc)
  then show "isdigit (promote_char (digits_upper ! d))" "\<not> isspace (promote_char (digits_upper ! d))"
    "digits_upper ! d \<noteq> 0x2D" "digits_upper ! d \<noteq> 0x2B" "digits_upper ! d \<noteq> 0"
    "promote_char (digits_upper ! d) - 0x30 = of_nat d"
    by (cases; simp add: digits_upper_def isdigit_def isspace_def promote_char_def word_sle_eq)+
qed

lemma ato_loop_digits:
  "\<forall>d\<in>set ds. d < 10 \<Longrightarrow> cstr m p (map (\<lambda>d. digits_upper ! d) ds) \<Longrightarrow>
   ato_loop m p (sign :: cint) res = Some (sign * foldl (\<lambda>r d. r * 10 + of_nat d) res ds)"
proof (induction ds arbitrary: p res)
  case Nil
  then show ?case by (subst ato_loop.simps) simp
next
  case (Cons d ds)
  then have d: "d < 10" and m: "m p = digits_upper ! d" by simp_all
  from Cons show ?case
    by (subst ato_loop.simps) (simp add: m digit_char [OF d])
qed

lemma foldl_of_nat:
  "foldl (\<lambda>r d. r * 10 + of_nat d) (of_nat a) ds = (of_nat (foldl (\<lambda>r d. r * 10 + d) a ds) :: 'a::len word)"
proof (induction ds arbitrary: a)
  case Nil
  then show ?case by simp
next
  case (Cons d ds)
  have "of_nat a * 10 + of_nat d = (of_nat (a * 10 + d) :: 'a word)" by simp
  then show ?case using Cons.IH [of "a * 10 + d"] by simp
qed

lemma atoi_digits:
  assumes "cstr m p (rev (digit_bytes 10 n))"
  shows "atoi m p = Some (of_nat n)"
proof -
  let ?ds = "rev (ndigits 10 n)"
  have c: "cstr m p (map (\<lambda>d. digits_upper ! d) ?ds)"
    using assms by (simp add: digit_bytes_def rev_map)
  have lt: "\<forall>d\<in>set ?ds. d < 10" by (auto intro: ndigits_less)
  obtain d ds where ds: "?ds = d # ds" using ndigits_nonempty [of 10 n] by (cases ?ds) auto
  then have d: "d < 10" and m: "m p = digits_upper ! d" using c lt by auto
  have "ato_loop m p (1 :: cint) 0 = Some (foldl (\<lambda>r d. r * 10 + of_nat d) 0 ?ds)"
    using ato_loop_digits [OF lt c, of 1 0] by simp
  also have "foldl (\<lambda>r d. r * 10 + of_nat d) (0 :: cint) ?ds = of_nat n"
    using foldl_of_nat [of 0 ?ds, where 'a = 32] ndigits_value [of 10 n]
    by (simp add: foldl_conv_foldr)
  finally have loop: "ato_loop m p (1 :: cint) 0 = Some (of_nat n)" .
  have "skip_spaces m p = Some p"
    by (subst skip_spaces.simps) (simp add: m digit_char [OF d])
  with loop show ?thesis
    by (simp add: atoi_def ato_def m digit_char [OF d])
qed

end
