(* ===== verification/Machine.thy ===== *)
theory Machine
  imports CLib
begin

text \<open>
  The state of the machine that the memory management code works on: physical memory, the
  static variables of \<open>arch/x86_64/mm/pmm.cpp\<close> and \<open>arch/x86_64/mm/vmm.cpp\<close>, the control
  register \<open>cr3\<close> and the per-CPU saved context. Physical memory is reached by the kernel
  through the direct map at \<open>VIRT_PHYS_BASE\<close>, so an access to \<open>p + VIRT_PHYS_BASE\<close> is an
  access to physical address \<open>p\<close>.
\<close>

section \<open>Constants of the memory layout\<close>

definition PAGE_SIZE :: u64 where
  "PAGE_SIZE = 4096"

definition VIRT_PHYS_BASE :: u64 where
  "VIRT_PHYS_BASE = 0xFFFF800000000000"

definition PMM_MEMORY_BASE :: u64 where
  "PMM_MEMORY_BASE = 0x2000000"

definition vm_page_size :: u64 where
  "vm_page_size = 0x1000"

definition vm_user_base :: u64 where
  "vm_user_base = 0x1000"

definition vm_heap_base :: u64 where
  "vm_heap_base = 0x200000000"

definition vm_user_end :: u64 where
  "vm_user_end = 0x800000000000"

section \<open>State\<close>

text \<open>\<open>pmm_bitmap\<close> is the array of 64-bit words behind the pointer of the same name,
  as a function of the index: an index past the end of the bitmap reads the memory that
  follows it.\<close>

record machine =
  phys_mem :: mem
  pmm_bitmap :: "u64 \<Rightarrow> u64"
  pmm_bitmap_len :: u64
  pmm_free_pages :: u64
  pmm_total_pages :: u64
  kernel_pml4 :: u64
  cr3 :: u64
  cur_cpu :: nat
  saved_vmm_ctx :: "nat \<Rightarrow> u64"

end
