(* ===== verification/Pmm.thy ===== *)
theory Pmm
  imports Machine
begin

text \<open>
  The physical page allocator, \<open>arch/x86_64/mm/pmm.cpp\<close>: one bit per page, set while the
  page is in use. The theory translates the bit operations, the scan for a free run, the
  initialisation from the boot loader's memory map and the arch-independent wrappers, and
  proves the allocator's contract.
\<close>

section \<open>Bit operations\<close>

definition pmm_mask :: "u64 \<Rightarrow> u64" where
  "pmm_mask idx = push_bit (unat (idx mod 64)) 1"

definition pmm_bit_read :: "machine \<Rightarrow> u64 \<Rightarrow> bool" where
  "pmm_bit_read s idx = (pmm_bitmap s (idx div 64) AND pmm_mask idx = pmm_mask idx)"

fun pmm_bit_write :: "machine \<Rightarrow> u64 \<Rightarrow> bool \<Rightarrow> nat \<Rightarrow> machine" where
  "pmm_bit_write s idx b 0 = s"
| "pmm_bit_write s idx b (Suc cnt) =
     (let off = idx div 64; old = pmm_bitmap s off;
          new = (if b then old OR pmm_mask idx else old AND NOT (pmm_mask idx))
      in pmm_bit_write (s\<lparr>pmm_bitmap := (pmm_bitmap s)(off := new)\<rparr>) (idx + 1) b cnt)"

fun pmm_bitmap_is_free :: "machine \<Rightarrow> u64 \<Rightarrow> nat \<Rightarrow> bool" where
  "pmm_bitmap_is_free s idx 0 = True"
| "pmm_bitmap_is_free s idx (Suc cnt) =
     (if pmm_bit_read s idx then False else pmm_bitmap_is_free s (idx + 1) cnt)"

section \<open>Allocation\<close>

text \<open>The scan of \<open>pmm_alloc_ex\<close>: \<open>Some (Some idx)\<close> is the first index whose run is free,
  \<open>Some None\<close> an exhausted bitmap, \<open>None\<close> a scan that never ends (alignment 0).\<close>

partial_function (option) pmm_scan ::
  "machine \<Rightarrow> u64 \<Rightarrow> u64 \<Rightarrow> u64 \<Rightarrow> u64 \<Rightarrow> u64 option option" where
  "pmm_scan s cnt alignment max_idx idx =
     (if idx < max_idx
      then (if \<not> pmm_bitmap_is_free s idx (unat cnt)
            then pmm_scan s cnt alignment max_idx (idx + alignment)
            else Some (Some idx))
      else Some None)"

definition pmm_max_idx :: "machine \<Rightarrow> u64 \<Rightarrow> u64" where
  "pmm_max_idx s upper =
     (if upper = 0 then pmm_bitmap_len s
      else if pmm_bitmap_len s < upper div PAGE_SIZE then pmm_bitmap_len s
      else upper div PAGE_SIZE)"

definition pmm_take :: "machine \<Rightarrow> u64 \<Rightarrow> u64 \<Rightarrow> machine" where
  "pmm_take s idx cnt =
     (let s = pmm_bit_write s idx True (unat cnt);
          s = (if pmm_total_pages s \<noteq> 0
               then s\<lparr>pmm_free_pages := pmm_free_pages s - cnt\<rparr> else s)
      in s\<lparr>phys_mem := memset (phys_mem s) (idx * PAGE_SIZE) 0 PAGE_SIZE\<rparr>)"

definition pmm_alloc_ex :: "machine \<Rightarrow> u64 \<Rightarrow> u64 \<Rightarrow> u64 \<Rightarrow> (u64 \<times> machine) option" where
  "pmm_alloc_ex s cnt alignment upper =
     (case pmm_scan s cnt alignment (pmm_max_idx s upper) (PMM_MEMORY_BASE div PAGE_SIZE) of
        None \<Rightarrow> None
      | Some None \<Rightarrow> Some (0, s)
      | Some (Some idx) \<Rightarrow> Some (idx * PAGE_SIZE, pmm_take s idx cnt))"

text \<open>\<open>pmm_alloc\<close> always scans with alignment 1, which ends; \<open>pmm_alloc_total\<close> below shows
  that the \<open>None\<close> branch is never taken.\<close>

definition pmm_alloc :: "machine \<Rightarrow> u64 \<Rightarrow> u64 \<times> machine" where
  "pmm_alloc s cnt = (case pmm_alloc_ex s cnt 1 0 of Some r \<Rightarrow> r | None \<Rightarrow> (0, s))"

definition pmm_free :: "machine \<Rightarrow> u64 \<Rightarrow> u64 \<Rightarrow> machine" where
  "pmm_free s mem cnt =
     (let s = pmm_bit_write s (mem div PAGE_SIZE) False (unat cnt)
      in s\<lparr>pmm_free_pages := pmm_free_pages s + cnt\<rparr>)"

definition arch_mm_alloc_phys :: "machine \<Rightarrow> u64 \<Rightarrow> u64 \<times> machine" where
  "arch_mm_alloc_phys s blocks = pmm_alloc s blocks"

definition arch_mm_free_phys :: "machine \<Rightarrow> u64 \<Rightarrow> u64 \<Rightarrow> machine" where
  "arch_mm_free_phys s mem blocks = pmm_free s mem blocks"

section \<open>Initialisation\<close>

definition MULTIBOOT_MEMORY_AVAILABLE :: u32 where
  "MULTIBOOT_MEMORY_AVAILABLE = 1"

record multiboot_memory_map =
  mm_addr :: u64
  mm_len :: u64
  mm_type :: u32

fun pmm_find_avail_memory_top :: "multiboot_memory_map list \<Rightarrow> u64 \<Rightarrow> u64" where
  "pmm_find_avail_memory_top [] mtop = mtop"
| "pmm_find_avail_memory_top (e # mmap) mtop =
     pmm_find_avail_memory_top mmap
       (if mm_type e = MULTIBOOT_MEMORY_AVAILABLE \<and> mm_addr e + mm_len e > mtop
        then mm_addr e + mm_len e else mtop)"

definition round_up :: "u64 \<Rightarrow> u64 \<Rightarrow> u64" where
  "round_up n s = ((n + s - 1) div s) * s"

definition round_down :: "u64 \<Rightarrow> u64 \<Rightarrow> u64" where
  "round_down n s = (n div s) * s"

definition overlaps :: "u64 \<Rightarrow> u64 \<Rightarrow> u64 \<Rightarrow> u64 \<Rightarrow> bool" where
  "overlaps a as b bs \<longleftrightarrow> a \<ge> b \<and> a + as \<le> b + bs"

text \<open>The effect of \<open>memset(pmm_bitmap, 0xFF, n)\<close> on the array of words: the first \<open>n\<close>
  bytes become \<open>0xFF\<close>, so bit \<open>j\<close> of word \<open>off\<close> is set when its byte is among them.\<close>

definition bitmap_fill_ones :: "(u64 \<Rightarrow> u64) \<Rightarrow> u64 \<Rightarrow> (u64 \<Rightarrow> u64)" where
  "bitmap_fill_ones bm n = (\<lambda>off.
     if 8 * unat off + 8 \<le> unat n then - 1
     else if unat n \<le> 8 * unat off then bm off
     else bm off OR mask (8 * (unat n - 8 * unat off)))"

text \<open>One iteration of the loop over the memory map.\<close>

definition pmm_init_region :: "u64 \<Rightarrow> machine \<Rightarrow> multiboot_memory_map \<Rightarrow> machine" where
  "pmm_init_region bitmap_phys s e =
     (if mm_type e \<noteq> MULTIBOOT_MEMORY_AVAILABLE then s
      else
        let start = round_up (mm_addr e) PAGE_SIZE;
            len = round_down (mm_len e) PAGE_SIZE;
            cnt = len div PAGE_SIZE
        in if len = 0 then s
           else if start + len < PMM_MEMORY_BASE then s
           else
             let (len, start, cnt) =
                   (if start < PMM_MEMORY_BASE
                    then (let len = len - (PMM_MEMORY_BASE - start)
                          in (len, PMM_MEMORY_BASE, len div PAGE_SIZE))
                    else (len, start, cnt))
             in if overlaps bitmap_phys (pmm_bitmap_len s div 8) start len
                then
                  let s = (if start < bitmap_phys
                           then pmm_free s start ((start - bitmap_phys) div PAGE_SIZE) else s);
                      start = bitmap_phys + pmm_bitmap_len s div 8;
                      len = len - pmm_bitmap_len s div 8;
                      cnt = len div PAGE_SIZE
                  in pmm_free s start cnt
                else pmm_free s start cnt)"

definition pmm_init :: "machine \<Rightarrow> multiboot_memory_map list \<Rightarrow> machine" where
  "pmm_init s mmap =
     (let mem_top = pmm_find_avail_memory_top mmap 0;
          mem_pages = (ucast ((mem_top + PAGE_SIZE - 1) div PAGE_SIZE) :: u32);
          s = s\<lparr>pmm_bitmap_len := ucast mem_pages\<rparr>;
          bitmap_phys = PMM_MEMORY_BASE;
          s = s\<lparr>pmm_bitmap := bitmap_fill_ones (pmm_bitmap s) (pmm_bitmap_len s div 8)\<rparr>;
          s = foldl (pmm_init_region bitmap_phys) s mmap;
          s = s\<lparr>pmm_total_pages := pmm_free_pages s\<rparr>;
          bitmap_pages = (pmm_bitmap_len s div 8 + PAGE_SIZE - 1) div PAGE_SIZE;
          s = pmm_bit_write s (bitmap_phys div PAGE_SIZE) True (unat bitmap_pages)
      in snd (pmm_alloc s bitmap_pages))"

section \<open>The bitmap\<close>

lemma and_push_bit_1_eq: "x AND push_bit k 1 = push_bit k 1 \<longleftrightarrow> bit x k" if "k < LENGTH('a)" for x :: "'a::len word"
proof
  assume a: "x AND push_bit k 1 = push_bit k 1"
  have "bit (x AND push_bit k 1) k" unfolding a using that by (simp add: bit_simps)
  then show "bit x k" by (simp add: bit_simps)
next
  assume "bit x k"
  then show "x AND push_bit k 1 = push_bit k 1"
    by (intro bit_word_eqI) (auto simp: bit_simps)
qed

lemma mod_64_less: "unat (idx mod 64 :: u64) < 64"
  by (simp add: unat_mod)

lemma pmm_bit_read_bit: "pmm_bit_read s idx \<longleftrightarrow> bit (pmm_bitmap s (idx div 64)) (unat (idx mod 64))"
  unfolding pmm_bit_read_def pmm_mask_def
  using mod_64_less [of idx] by (intro and_push_bit_1_eq) simp

lemma div_mod_64_inj: "(i :: u64) div 64 = j div 64 \<Longrightarrow> unat (i mod 64) = unat (j mod 64) \<Longrightarrow> i = j"
  by (metis word_unat_eq_iff div_mult_mod_eq)

lemma pmm_bit_write_1:
  "pmm_bit_read (pmm_bit_write s idx b (Suc 0)) j = (if j = idx then b else pmm_bit_read s j)"
proof -
  have k: "unat (idx mod 64) < 64" by (rule mod_64_less)
  show ?thesis
  proof (cases "j div 64 = idx div 64")
    case True
    then show ?thesis
      using k mod_64_less [of j] div_mod_64_inj [of j idx]
      by (auto simp: pmm_bit_read_bit pmm_mask_def Let_def bit_simps)
  next
    case False
    then show ?thesis by (auto simp: pmm_bit_read_bit Let_def)
  qed
qed

lemma pmm_bit_write_Suc:
  "pmm_bit_write s idx b (Suc n) = pmm_bit_write (pmm_bit_write s idx b (Suc 0)) (idx + 1) b n"
  by (simp add: Let_def)

lemma pmm_bit_write_read:
  "n < 2 ^ 64 \<Longrightarrow>
   pmm_bit_read (pmm_bit_write s idx b n) j = (if j - idx < of_nat n then b else pmm_bit_read s j)"
proof (induction n arbitrary: s idx)
  case 0
  then show ?case by simp
next
  case (Suc n)
  have eq: "j - idx < of_nat (Suc n) \<longleftrightarrow> j = idx \<or> j - (idx + 1) < of_nat n"
  proof (cases "j = idx")
    case True
    have "(0 :: u64) < of_nat (Suc n)"
      using Suc.prems by (simp add: word_less_nat_alt unat_of_nat del: of_nat_Suc)
    with True show ?thesis by simp
  next
    case False
    then have "unat (j - idx) \<noteq> 0" by (simp add: unat_eq_zero)
    moreover have "unat (j - (idx + 1)) = unat (j - idx) - 1"
      using False by (simp add: diff_diff_eq [symmetric] unat_minus_one)
    ultimately show ?thesis
      using False Suc.prems by (auto simp: word_less_nat_alt unat_of_nat simp del: of_nat_Suc)
  qed
  have "n < 2 ^ 64" using Suc.prems by simp
  from Suc.IH [OF this] show ?case
    by (simp only: pmm_bit_write_Suc [of s idx b n] pmm_bit_write_1 eq) auto
qed

lemma pmm_bit_write_frame [simp]:
  "phys_mem (pmm_bit_write s idx b n) = phys_mem s"
  "pmm_bitmap_len (pmm_bit_write s idx b n) = pmm_bitmap_len s"
  "pmm_free_pages (pmm_bit_write s idx b n) = pmm_free_pages s"
  "pmm_total_pages (pmm_bit_write s idx b n) = pmm_total_pages s"
  "kernel_pml4 (pmm_bit_write s idx b n) = kernel_pml4 s"
  "cr3 (pmm_bit_write s idx b n) = cr3 s"
  "cur_cpu (pmm_bit_write s idx b n) = cur_cpu s"
  "saved_vmm_ctx (pmm_bit_write s idx b n) = saved_vmm_ctx s"
  by (induction n arbitrary: s idx) (simp_all add: Let_def)

lemma pmm_bit_read_cong: "pmm_bitmap s = pmm_bitmap s' \<Longrightarrow> pmm_bit_read s idx = pmm_bit_read s' idx"
  by (simp add: pmm_bit_read_def)

lemma pmm_bitmap_is_free_iff:
  "pmm_bitmap_is_free s idx n \<longleftrightarrow> (\<forall>k<n. \<not> pmm_bit_read s (idx + of_nat k))"
proof (induction n arbitrary: idx)
  case 0
  then show ?case by simp
next
  case (Suc n)
  show ?case by (subst All_less_Suc2) (simp add: Suc.IH add.assoc)
qed

text \<open>What the scan promises: the lowest index from \<open>idx\<close> on, below \<open>mx\<close>, that starts a free run of
  \<open>cnt\<close> pages, or nothing when there is none.\<close>

definition first_fit :: "machine \<Rightarrow> u64 \<Rightarrow> u64 \<Rightarrow> u64 \<Rightarrow> u64 option \<Rightarrow> bool" where
  "first_fit s cnt mx idx r \<longleftrightarrow>
     (case r of
        Some j \<Rightarrow> idx \<le> j \<and> j < mx \<and> pmm_bitmap_is_free s j (unat cnt) \<and>
                  (\<forall>i. idx \<le> i \<and> i < j \<longrightarrow> \<not> pmm_bitmap_is_free s i (unat cnt))
      | None \<Rightarrow> \<forall>i. idx \<le> i \<and> i < mx \<longrightarrow> \<not> pmm_bitmap_is_free s i (unat cnt))"

lemma unat_Suc_less: "(idx :: u64) < mx \<Longrightarrow> unat (idx + 1) = unat idx + 1"
  using unat_u64_less [of mx] unat_add_less [of idx 1] by (simp add: word_less_nat_alt)

lemma Suc_le_iff: "(idx :: u64) < mx \<Longrightarrow> idx \<le> i \<longleftrightarrow> i = idx \<or> idx + 1 \<le> i"
  using unat_Suc_less [of idx mx] by (auto simp: word_le_nat_alt word_unat_eq_iff)

lemma first_fit_step:
  "first_fit s cnt mx (idx + 1) r \<Longrightarrow> idx < mx \<Longrightarrow> \<not> pmm_bitmap_is_free s idx (unat cnt)
   \<Longrightarrow> first_fit s cnt mx idx r"
  unfolding first_fit_def Suc_le_iff [of idx mx] by (cases r) auto

lemma pmm_scan_1: "\<exists>r. pmm_scan s cnt 1 mx idx = Some r \<and> first_fit s cnt mx idx r"
proof (induction "unat mx - unat idx" arbitrary: idx rule: less_induct)
  case less
  show ?case
  proof (cases "idx < mx \<and> \<not> pmm_bitmap_is_free s idx (unat cnt)")
    case True
    then have "unat mx - unat (idx + 1) < unat mx - unat idx"
      using unat_Suc_less [of idx mx] by (auto simp: word_less_nat_alt)
    from less [OF this] obtain r where r: "pmm_scan s cnt 1 mx (idx + 1) = Some r"
      and "first_fit s cnt mx (idx + 1) r"
      by blast
    then have "first_fit s cnt mx idx r" using True by (simp add: first_fit_step)
    moreover have "pmm_scan s cnt 1 mx idx = Some r"
      using True r by (subst pmm_scan.simps) simp
    ultimately show ?thesis by blast
  next
    case False
    then show ?thesis
      by (subst pmm_scan.simps) (auto simp: first_fit_def dest: leD)
  qed
qed

lemma PMM_BASE_div [simp]: "PMM_MEMORY_BASE div PAGE_SIZE = 0x2000"
  by (simp add: PMM_MEMORY_BASE_def PAGE_SIZE_def)

lemma pmm_alloc_cases:
  obtains (empty) "pmm_alloc s cnt = (0, s)" "first_fit s cnt (pmm_bitmap_len s) 0x2000 None"
  | (found) idx where "pmm_alloc s cnt = (idx * PAGE_SIZE, pmm_take s idx cnt)"
      "first_fit s cnt (pmm_bitmap_len s) 0x2000 (Some idx)"
proof -
  obtain r where r: "pmm_scan s cnt 1 (pmm_bitmap_len s) 0x2000 = Some r"
    "first_fit s cnt (pmm_bitmap_len s) 0x2000 r"
    using pmm_scan_1 by blast
  then have "pmm_alloc s cnt = (case r of None \<Rightarrow> (0, s) | Some idx \<Rightarrow> (idx * PAGE_SIZE, pmm_take s idx cnt))"
    by (simp add: pmm_alloc_def pmm_alloc_ex_def pmm_max_idx_def split: option.splits)
  then show thesis using r(2) empty found by (cases r) auto
qed

lemma pmm_alloc_total: "pmm_alloc_ex s cnt 1 upper \<noteq> None"
  using pmm_scan_1 [of s cnt "pmm_max_idx s upper" "PMM_MEMORY_BASE div PAGE_SIZE"]
  by (auto simp: pmm_alloc_ex_def split: option.splits)

lemma pmm_take_frame [simp]:
  "pmm_bitmap_len (pmm_take s idx n) = pmm_bitmap_len s"
  "pmm_total_pages (pmm_take s idx n) = pmm_total_pages s"
  "pmm_free_pages (pmm_take s idx n) =
     (if pmm_total_pages s \<noteq> 0 then pmm_free_pages s - n else pmm_free_pages s)"
  "kernel_pml4 (pmm_take s idx n) = kernel_pml4 s"
  "cr3 (pmm_take s idx n) = cr3 s"
  "cur_cpu (pmm_take s idx n) = cur_cpu s"
  "saved_vmm_ctx (pmm_take s idx n) = saved_vmm_ctx s"
  "phys_mem (pmm_take s idx n) = fill (phys_mem s) (idx * PAGE_SIZE) 0 PAGE_SIZE"
  by (simp_all add: pmm_take_def Let_def memset_fill)

lemma pmm_bit_write_read_word:
  "pmm_bit_read (pmm_bit_write s idx b (unat n)) j = (if j - idx < n then b else pmm_bit_read s j)"
  using unat_u64_less [of n] by (simp add: pmm_bit_write_read)

lemma pmm_bit_read_upd [simp]:
  "pmm_bit_read (s\<lparr>phys_mem := x\<rparr>) j = pmm_bit_read s j"
  "pmm_bit_read (s\<lparr>pmm_free_pages := y\<rparr>) j = pmm_bit_read s j"
  "pmm_bit_read (s\<lparr>pmm_total_pages := y\<rparr>) j = pmm_bit_read s j"
  "pmm_bit_read (s\<lparr>pmm_bitmap_len := y\<rparr>) j = pmm_bit_read s j"
  by (simp_all add: pmm_bit_read_def)

lemma pmm_take_read [simp]:
  "pmm_bit_read (pmm_take s idx n) j \<longleftrightarrow> j - idx < n \<or> pmm_bit_read s j"
  by (simp add: pmm_take_def Let_def pmm_bit_write_read_word)

lemma pmm_free_read [simp]:
  "pmm_bit_read (pmm_free s p n) j \<longleftrightarrow> \<not> j - p div PAGE_SIZE < n \<and> pmm_bit_read s j"
  by (simp add: pmm_free_def Let_def pmm_bit_write_read_word)

lemma pmm_free_frame [simp]:
  "pmm_bitmap_len (pmm_free s p n) = pmm_bitmap_len s"
  "pmm_total_pages (pmm_free s p n) = pmm_total_pages s"
  "pmm_free_pages (pmm_free s p n) = pmm_free_pages s + n"
  "phys_mem (pmm_free s p n) = phys_mem s"
  "kernel_pml4 (pmm_free s p n) = kernel_pml4 s"
  "cr3 (pmm_free s p n) = cr3 s"
  "cur_cpu (pmm_free s p n) = cur_cpu s"
  "saved_vmm_ctx (pmm_free s p n) = saved_vmm_ctx s"
  by (simp_all add: pmm_free_def Let_def)

lemma run_free_iff:
  "pmm_bitmap_is_free s idx (unat n) \<longleftrightarrow> (\<forall>j. j - idx < n \<longrightarrow> \<not> pmm_bit_read s j)"
proof
  assume f: "pmm_bitmap_is_free s idx (unat n)"
  show "\<forall>j. j - idx < n \<longrightarrow> \<not> pmm_bit_read s j"
  proof (intro allI impI)
    fix j assume "j - idx < n"
    then have "unat (j - idx) < unat n" by (simp add: word_less_nat_alt)
    with f have "\<not> pmm_bit_read s (idx + of_nat (unat (j - idx)))"
      unfolding pmm_bitmap_is_free_iff by blast
    then show "\<not> pmm_bit_read s j" by simp
  qed
next
  assume "\<forall>j. j - idx < n \<longrightarrow> \<not> pmm_bit_read s j"
  moreover have "of_nat k < n" if "k < unat n" for k
    using that unat_u64_less [of n] by (simp add: word_less_nat_alt unat_of_nat)
  ultimately show "pmm_bitmap_is_free s idx (unat n)"
    unfolding pmm_bitmap_is_free_iff by simp
qed

section \<open>The allocator's contract\<close>

definition pmm_ok :: "machine \<Rightarrow> bool" where
  "pmm_ok s \<longleftrightarrow> pmm_bitmap_len s < 2 ^ 32"

definition pmm_used :: "machine \<Rightarrow> u64 set" where
  "pmm_used s = {i. pmm_bit_read s i}"

definition page_run :: "u64 \<Rightarrow> u64 \<Rightarrow> u64 set" where
  "page_run idx n = {j. j - idx < n}"

lemma page_run_1 [simp]: "page_run idx 1 = {idx}"
  by (auto simp: page_run_def word_less_nat_alt unat_eq_zero)

lemma page_run_0 [simp]: "page_run idx 0 = {}"
  by (simp add: page_run_def)

lemma pmm_used_take: "pmm_used (pmm_take s idx n) = page_run idx n \<union> pmm_used s"
  by (auto simp: pmm_used_def page_run_def)

lemma pmm_used_free: "pmm_used (pmm_free s p n) = pmm_used s - page_run (p div PAGE_SIZE) n"
  by (auto simp: pmm_used_def page_run_def)

lemma is_free_used: "pmm_bitmap_is_free s idx (unat n) \<longleftrightarrow> page_run idx n \<inter> pmm_used s = {}"
  by (auto simp: run_free_iff pmm_used_def page_run_def)

lemma page_addr:
  assumes "idx < 2 ^ 32"
  shows "unat (idx * PAGE_SIZE) = unat idx * 4096" "idx * PAGE_SIZE div PAGE_SIZE = idx"
    "idx * PAGE_SIZE mod PAGE_SIZE = 0" "idx * PAGE_SIZE < 2 ^ 44"
proof -
  have i: "unat idx < 2 ^ 32" using assms by (simp add: word_less_nat_alt)
  show e: "unat (idx * PAGE_SIZE) = unat idx * 4096"
    using i unat_mult_less [of idx PAGE_SIZE] by (simp add: PAGE_SIZE_def)
  show "idx * PAGE_SIZE div PAGE_SIZE = idx" "idx * PAGE_SIZE mod PAGE_SIZE = 0"
    using e by (simp_all add: word_unat_eq_iff unat_div unat_mod PAGE_SIZE_def)
  show "idx * PAGE_SIZE < 2 ^ 44" using e i by (simp add: word_less_nat_alt)
qed

lemma page_addr_nonzero: "idx < 2 ^ 32 \<Longrightarrow> 0x2000 \<le> idx \<Longrightarrow> idx * PAGE_SIZE \<noteq> 0"
  using page_addr(1) [of idx] by (auto simp: word_le_nat_alt)

lemma pmm_alloc_contract_cases:
  assumes "pmm_ok s"
  obtains (none) "pmm_alloc s n = (0, s)"
      "\<forall>i. 0x2000 \<le> i \<and> i < pmm_bitmap_len s \<longrightarrow> page_run i n \<inter> pmm_used s \<noteq> {}"
  | (some) idx where "pmm_alloc s n = (idx * PAGE_SIZE, pmm_take s idx n)"
      "0x2000 \<le> idx" "idx < pmm_bitmap_len s" "idx < 2 ^ 32" "idx * PAGE_SIZE \<noteq> 0"
      "page_run idx n \<inter> pmm_used s = {}"
      "\<forall>i. 0x2000 \<le> i \<and> i < idx \<longrightarrow> page_run i n \<inter> pmm_used s \<noteq> {}"
proof (cases rule: pmm_alloc_cases [of s n])
  case empty
  then show ?thesis using none by (simp add: first_fit_def is_free_used)
next
  case (found idx)
  then have "idx < 2 ^ 32" "0x2000 \<le> idx"
    using assms by (auto simp: first_fit_def pmm_ok_def)
  then show ?thesis
    using found some [of idx] page_addr_nonzero [of idx]
    by (simp add: first_fit_def is_free_used)
qed

text \<open>C13. \<open>pmm_alloc n\<close> is a first-fit allocator: it returns NULL and changes nothing exactly when no
  run of \<open>n\<close> free frames starts between \<open>PMM_MEMORY_BASE\<close> and the end of the bitmap; otherwise it
  returns the page-aligned address of the lowest such run, marks exactly that run as used and zeroes
  the first page of it, and no other byte of memory.\<close>

theorem pmm_alloc_contract:
  assumes "pmm_ok s" "pmm_alloc s n = (p, s')"
  shows "p = 0 \<and> s' = s \<and>
           (\<forall>i. 0x2000 \<le> i \<and> i < pmm_bitmap_len s \<longrightarrow> page_run i n \<inter> pmm_used s \<noteq> {}) \<or>
         p \<noteq> 0 \<and> p mod PAGE_SIZE = 0 \<and> PMM_MEMORY_BASE \<le> p \<and>
           p div PAGE_SIZE < pmm_bitmap_len s \<and>
           page_run (p div PAGE_SIZE) n \<inter> pmm_used s = {} \<and>
           pmm_used s' = page_run (p div PAGE_SIZE) n \<union> pmm_used s \<and>
           phys_mem s' = fill (phys_mem s) p 0 PAGE_SIZE \<and>
           (\<forall>i. 0x2000 \<le> i \<and> i < p div PAGE_SIZE \<longrightarrow> page_run i n \<inter> pmm_used s \<noteq> {})"
  using \<open>pmm_ok s\<close>
proof (cases rule: pmm_alloc_contract_cases [of s n])
  case none
  then show ?thesis using assms by simp
next
  case (some idx)
  then have "p = idx * PAGE_SIZE" "s' = pmm_take s idx n" using assms by simp_all
  moreover have "PMM_MEMORY_BASE \<le> idx * PAGE_SIZE"
    using some page_addr(1) [of idx] by (simp add: word_le_nat_alt PMM_MEMORY_BASE_def)
  ultimately show ?thesis
    using some page_addr [of idx] by (simp add: pmm_used_take)
qed

locale phys_allocator =
  fixes alloc :: "'s \<Rightarrow> u64 \<Rightarrow> u64 \<times> 's"
    and free :: "'s \<Rightarrow> u64 \<Rightarrow> u64 \<Rightarrow> 's"
    and used :: "'s \<Rightarrow> u64 set"
    and ok :: "'s \<Rightarrow> bool"
  assumes alloc_ok: "ok s \<Longrightarrow> alloc s 1 = (p, s') \<Longrightarrow> ok s'"
    and alloc_fail: "ok s \<Longrightarrow> alloc s 1 = (0, s') \<Longrightarrow> s' = s"
    and alloc_fresh: "ok s \<Longrightarrow> alloc s 1 = (p, s') \<Longrightarrow> p \<noteq> 0 \<Longrightarrow> p div PAGE_SIZE \<notin> used s"
    and alloc_used: "ok s \<Longrightarrow> alloc s 1 = (p, s') \<Longrightarrow> p \<noteq> 0 \<Longrightarrow>
                     used s' = insert (p div PAGE_SIZE) (used s)"
    and alloc_aligned: "ok s \<Longrightarrow> alloc s 1 = (p, s') \<Longrightarrow> p mod PAGE_SIZE = 0"
    and free_ok: "ok s \<Longrightarrow> ok (free s p 1)"
    and free_used: "ok s \<Longrightarrow> used (free s p 1) = used s - {p div PAGE_SIZE}"

fun alloc_many :: "('s \<Rightarrow> u64 \<Rightarrow> u64 \<times> 's) \<Rightarrow> nat \<Rightarrow> 's \<Rightarrow> u64 list \<times> 's" where
  "alloc_many alloc 0 s = ([], s)"
| "alloc_many alloc (Suc n) s =
     (let (p, s1) = alloc s 1; (ps, s2) = alloc_many alloc n s1 in (p # ps, s2))"

fun free_many :: "('s \<Rightarrow> u64 \<Rightarrow> u64 \<Rightarrow> 's) \<Rightarrow> u64 list \<Rightarrow> 's \<Rightarrow> 's" where
  "free_many free [] s = s"
| "free_many free (p # ps) s = free_many free ps (free s p 1)"

context phys_allocator
begin

lemma alloc_many_fresh:
  assumes "ok s" "alloc_many alloc n s = (ps, s')" "0 \<notin> set ps"
  shows "ok s' \<and> distinct ps \<and> (\<lambda>p. p div PAGE_SIZE) ` set ps \<inter> used s = {} \<and>
         inj_on (\<lambda>p. p div PAGE_SIZE) (set ps) \<and>
         used s' = (\<lambda>p. p div PAGE_SIZE) ` set ps \<union> used s"
  using assms
proof (induction n arbitrary: s ps)
  case 0
  then show ?case by simp
next
  case (Suc n)
  obtain p s1 where a: "alloc s 1 = (p, s1)" by force
  obtain qs s2 where q: "alloc_many alloc n s1 = (qs, s2)" by force
  have ps: "ps = p # qs" "s' = s2" using Suc.prems a q by simp_all
  then have p: "p \<noteq> 0" "0 \<notin> set qs" using Suc.prems by auto
  note fr = alloc_ok [OF Suc.prems(1) a] alloc_fresh [OF Suc.prems(1) a p(1)]
    alloc_used [OF Suc.prems(1) a p(1)]
  from Suc.IH [OF fr(1) _ p(2)] q ps
  have ih: "ok s'" "distinct qs" "(\<lambda>p. p div PAGE_SIZE) ` set qs \<inter> used s1 = {}"
    "inj_on (\<lambda>p. p div PAGE_SIZE) (set qs)"
    "used s' = (\<lambda>p. p div PAGE_SIZE) ` set qs \<union> used s1"
    by blast+
  then have "p div PAGE_SIZE \<notin> (\<lambda>p. p div PAGE_SIZE) ` set qs" using fr by blast
  then show ?case using ih fr ps by (auto simp: image_iff)
qed

lemma free_many_used:
  "ok s \<Longrightarrow> ok (free_many free ps s) \<and>
            used (free_many free ps s) = used s - (\<lambda>p. p div PAGE_SIZE) ` set ps"
  by (induction ps arbitrary: s) (auto simp: free_ok free_used)

lemma alloc_free_many:
  assumes "ok s" "alloc_many alloc n s = (ps, s')" "0 \<notin> set ps"
  shows "used (free_many free ps s') = used s"
  using alloc_many_fresh [OF assms] free_many_used [of s' ps] by blast

end

interpretation pmm: phys_allocator pmm_alloc pmm_free pmm_used pmm_ok
proof
  fix s p s'
  assume a: "pmm_ok s" "pmm_alloc s 1 = (p, s')"
  from a(1) show "pmm_ok s'" using a
    by (cases rule: pmm_alloc_contract_cases [of s 1]) (auto simp: pmm_ok_def)
  from a(1) show "p mod PAGE_SIZE = 0" using a(2)
    by (cases rule: pmm_alloc_contract_cases [of s 1]) (auto simp: page_addr)
  assume "p \<noteq> 0"
  from a(1) this show "p div PAGE_SIZE \<notin> pmm_used s" using a(2)
    by (cases rule: pmm_alloc_contract_cases [of s 1]) (auto simp: page_addr)
  from a(1) \<open>p \<noteq> 0\<close> show "pmm_used s' = insert (p div PAGE_SIZE) (pmm_used s)" using a(2)
    by (cases rule: pmm_alloc_contract_cases [of s 1]) (auto simp: page_addr pmm_used_take)
next
  fix s s'
  assume a: "pmm_ok s" "pmm_alloc s 1 = (0, s')"
  from a(1) show "s' = s" using a(2)
    by (cases rule: pmm_alloc_contract_cases [of s 1]) auto
next
  fix s p
  assume a: "pmm_ok s"
  then show "pmm_ok (pmm_free s p 1)" by (simp add: pmm_ok_def)
  show "pmm_used (pmm_free s p 1) = pmm_used s - {p div PAGE_SIZE}" by (simp add: pmm_used_free)
qed

definition pmm_free_set :: "machine \<Rightarrow> u64 set" where
  "pmm_free_set s = {i. 0x2000 \<le> i \<and> i < pmm_bitmap_len s} - pmm_used s"

definition pmm_counted :: "machine \<Rightarrow> bool" where
  "pmm_counted s \<longleftrightarrow> unat (pmm_free_pages s) = card (pmm_free_set s)"

lemma card_u64_less: "x \<notin> A \<Longrightarrow> card (A :: u64 set) < 2 ^ 64"
  using psubset_card_mono [of UNIV A] by (auto simp: card_word)

lemma unat_Suc_word: "unat (w :: u64) + 1 < 2 ^ 64 \<Longrightarrow> unat (w + 1) = unat w + 1"
  using unat_add_less [of w 1] by simp

lemma pmm_counted_take:
  assumes "pmm_counted s" "pmm_total_pages s \<noteq> 0" "idx \<in> pmm_free_set s"
  shows "pmm_counted (pmm_take s idx 1)"
proof -
  have "pmm_free_set (pmm_take s idx 1) = pmm_free_set s - {idx}"
    by (auto simp: pmm_free_set_def pmm_used_take)
  moreover have "card (pmm_free_set s) > 0" using assms(3) by (auto simp: card_gt_0_iff)
  moreover from this have "pmm_free_pages s \<noteq> 0" using assms(1) by (auto simp: pmm_counted_def)
  ultimately show ?thesis
    using assms by (simp add: pmm_counted_def card_Diff_singleton unat_minus_one)
qed

lemma pmm_counted_free:
  assumes "pmm_counted s" "p div PAGE_SIZE \<in> pmm_used s"
    "0x2000 \<le> p div PAGE_SIZE" "p div PAGE_SIZE < pmm_bitmap_len s"
  shows "pmm_counted (pmm_free s p 1)"
proof -
  have e: "pmm_free_set (pmm_free s p 1) = insert (p div PAGE_SIZE) (pmm_free_set s)"
    using assms by (auto simp: pmm_free_set_def pmm_used_free)
  have n: "p div PAGE_SIZE \<notin> pmm_free_set s" using assms by (simp add: pmm_free_set_def)
  have "0 \<notin> pmm_free_set (pmm_free s p 1)" by (simp add: pmm_free_set_def)
  from card_u64_less [OF this] have "card (pmm_free_set s) + 1 < 2 ^ 64" using n by (simp add: e)
  then show ?thesis
    using assms(1) e n by (simp add: pmm_counted_def unat_Suc_word)
qed

text \<open>The free-page counter stays exact: when it equals the number of clear bits from
  \<open>PMM_MEMORY_BASE\<close> up to the end of the bitmap, it still does after allocating one page and after
  freeing any page that is in use.\<close>

theorem pmm_accounting:
  assumes "pmm_ok s" "pmm_counted s" "pmm_total_pages s \<noteq> 0"
  shows "pmm_counted (snd (pmm_alloc s 1)) \<and>
         (\<forall>p. p div PAGE_SIZE \<in> pmm_used s \<and> PMM_MEMORY_BASE \<le> p \<and>
              p div PAGE_SIZE < pmm_bitmap_len s \<longrightarrow> pmm_counted (pmm_free s p 1))"
proof (intro conjI allI impI)
  from \<open>pmm_ok s\<close> show "pmm_counted (snd (pmm_alloc s 1))"
  proof (cases rule: pmm_alloc_contract_cases [of s 1])
    case (some idx)
    then show ?thesis using assms by (simp add: pmm_counted_take pmm_free_set_def)
  qed (simp add: assms)
next
  fix p assume p: "p div PAGE_SIZE \<in> pmm_used s \<and> PMM_MEMORY_BASE \<le> p \<and> p div PAGE_SIZE < pmm_bitmap_len s"
  then have "0x2000 \<le> p div PAGE_SIZE"
    by (auto simp: word_le_nat_alt unat_div PMM_MEMORY_BASE_def PAGE_SIZE_def)
  with p show "pmm_counted (pmm_free s p 1)" using assms by (intro pmm_counted_free) simp_all
qed

text \<open>A machine whose bitmap covers 0x2004 frames with the frames from 0x2001 on free.\<close>

definition small_machine :: machine where
  "small_machine =
     \<lparr>phys_mem = (\<lambda>_. 7), pmm_bitmap = (\<lambda>off. if off = 0x80 then 1 else 0),
      pmm_bitmap_len = 0x2004, pmm_free_pages = 3, pmm_total_pages = 3, kernel_pml4 = 0, cr3 = 0,
      cur_cpu = 0, saved_vmm_ctx = (\<lambda>_. 0)\<rparr>"

lemma small_machine_sel [simp]:
  "pmm_bitmap_len small_machine = 0x2004" "pmm_free_pages small_machine = 3"
  "pmm_total_pages small_machine = 3"
  by (simp_all add: small_machine_def)

lemma small_machine_ok: "pmm_ok small_machine"
  by (simp add: pmm_ok_def)

lemma small_machine_read: "pmm_bit_read small_machine i \<longleftrightarrow> i = 0x2000"
proof -
  have "i = 0x2000" if "i div 64 = 0x80" "unat (i mod 64) = 0"
    using that div_mod_64_inj [of i "0x2000"] by simp
  then show ?thesis by (auto simp: pmm_bit_read_bit small_machine_def bit_1_iff)
qed

lemma small_machine_alloc:
  "pmm_alloc small_machine 1 = (0x2001000, pmm_take small_machine 0x2001 1)"
proof -
  have "pmm_scan small_machine 1 1 0x2004 0x2000 = Some (Some 0x2001)"
    by (subst pmm_scan.simps, subst pmm_scan.simps) (simp add: small_machine_read)
  then show ?thesis
    by (simp add: pmm_alloc_def pmm_alloc_ex_def pmm_max_idx_def PAGE_SIZE_def PMM_MEMORY_BASE_def)
qed

lemma small_machine_counted: "pmm_counted small_machine"
proof -
  have "{i :: u64. 0x2000 \<le> i \<and> i < 0x2004} - {0x2000} = {0x2001, 0x2002, 0x2003}"
  proof -
    have "i \<in> {0x2000, 0x2001, 0x2002, 0x2003}" if "0x2000 \<le> i" "i < 0x2004" for i :: u64
    proof -
      have "unat i \<in> {0x2000, 0x2001, 0x2002, 0x2003}"
        using that by (auto simp: word_le_nat_alt word_less_nat_alt)
      then show ?thesis by (auto simp: word_unat_eq_iff)
    qed
    then show ?thesis by (intro equalityI subsetI) auto
  qed
  then show ?thesis
    by (simp add: pmm_counted_def pmm_free_set_def pmm_used_def small_machine_read)
qed

theorem pmm_alloc_contract_witness:
  "pmm_ok small_machine \<and> pmm_alloc small_machine 1 = (0x2001000, pmm_take small_machine 0x2001 1) \<and>
   pmm_used (pmm_take small_machine 0x2001 1) = {0x2000, 0x2001}"
  using pmm_alloc_contract [OF small_machine_ok small_machine_alloc]
  by (simp add: small_machine_ok small_machine_alloc pmm_used_def small_machine_read PAGE_SIZE_def
      insert_commute)

theorem pmm_accounting_witness:
  "pmm_ok small_machine \<and> pmm_total_pages small_machine \<noteq> 0 \<and>
   pmm_counted (pmm_take small_machine 0x2001 1) \<and> pmm_counted (pmm_free small_machine 0x2000000 1)"
  using pmm_accounting [OF small_machine_ok small_machine_counted]
  by (simp add: small_machine_ok small_machine_alloc pmm_used_def small_machine_read PAGE_SIZE_def
     PMM_MEMORY_BASE_def)

lemma page_run_nat:
  "unat idx + unat n < 2 ^ 64 \<Longrightarrow>
   j \<in> page_run idx n \<longleftrightarrow> unat idx \<le> unat j \<and> unat j < unat idx + unat n"
proof (cases "idx \<le> j")
  case True
  then have "unat (j - idx) = unat j - unat idx" by (simp add: unat_sub_le)
  then show ?thesis using True by (auto simp: page_run_def word_less_nat_alt word_le_nat_alt)
next
  case False
  assume a: "unat idx + unat n < 2 ^ 64"
  have "unat (j - idx) = 2 ^ 64 + unat j - unat idx"
    using False by (simp add: unat_sub_if' word_le_nat_alt)
  then show ?thesis using False a by (auto simp: page_run_def word_less_nat_alt word_le_nat_alt)
qed

text \<open>A memory map entry the loop can round without changing what it covers: page-aligned start, and
  an end the 32-bit page count can express.\<close>

definition entry_ok :: "multiboot_memory_map \<Rightarrow> bool" where
  "entry_ok e \<longleftrightarrow> mm_addr e mod PAGE_SIZE = 0 \<and> unat (mm_addr e) + unat (mm_len e) < 2 ^ 44"

text \<open>Frame \<open>i\<close> lies wholly in the available entry \<open>e\<close>.\<close>

definition frame_in :: "u64 \<Rightarrow> multiboot_memory_map \<Rightarrow> bool" where
  "frame_in i e \<longleftrightarrow> mm_type e = MULTIBOOT_MEMORY_AVAILABLE \<and> unat (mm_addr e) \<le> unat i * 4096 \<and>
     unat i * 4096 + 4096 \<le> unat (mm_addr e) + unat (mm_len e)"

lemma round_up_aligned:
  assumes "entry_ok e" shows "round_up (mm_addr e) PAGE_SIZE = mm_addr e"
proof -
  have m: "unat (mm_addr e) mod 4096 = 0" "unat (mm_addr e) < 2 ^ 44"
    using assms by (auto simp: entry_ok_def PAGE_SIZE_def word_unat_eq_iff unat_mod)
  then obtain k where k: "unat (mm_addr e) = 4096 * k" by auto
  have "unat (mm_addr e + 4096 - 1) = 4096 * k + 4095"
    using unat_add_less [of 4095 "mm_addr e"] m k by simp
  then have "unat ((mm_addr e + 4096 - 1) div 4096) = k" by (simp add: unat_div)
  then show ?thesis
    using k m unat_mult_less [of "(mm_addr e + 4096 - 1) div 4096" 4096]
    by (simp add: round_up_def PAGE_SIZE_def word_unat_eq_iff)
qed

lemma unat_round_down: "unat (round_down n PAGE_SIZE) = unat n div 4096 * 4096"
proof -
  have "unat (n div 4096) * unat (4096 :: u64) < 2 ^ LENGTH(64)"
    using unat_u64_less [of n] by (simp add: unat_div) 
  from unat_mult_less [OF this] show ?thesis by (simp add: round_down_def PAGE_SIZE_def unat_div)
qed

lemma page_run_in:
  assumes "i \<in> page_run (st div PAGE_SIZE) (ln div PAGE_SIZE)" "unat st + unat ln \<le> X" "X < 2 ^ 44"
  shows "unat i * 4096 + 4096 \<le> X" "unat st div 4096 \<le> unat i"
proof -
  have "unat (st div PAGE_SIZE) + unat (ln div PAGE_SIZE) < 2 ^ 64"
    using assms by (simp add: unat_div PAGE_SIZE_def)
  then have "unat st div 4096 \<le> unat i \<and> unat i < unat st div 4096 + unat ln div 4096"
    using assms(1) by (simp add: page_run_nat) (simp add: unat_div PAGE_SIZE_def)
  moreover have "(unat st div 4096 + unat ln div 4096) * 4096 \<le> unat st + unat ln"
    by (simp add: algebra_simps)
  ultimately show "unat i * 4096 + 4096 \<le> X" "unat st div 4096 \<le> unat i"
    using assms(2) by linarith+
qed

lemma pmm_init_region_len [simp]: "pmm_bitmap_len (pmm_init_region b s e) = pmm_bitmap_len s"
  by (simp add: pmm_init_region_def Let_def split: prod.splits if_splits)

text \<open>The region the loop body ends up freeing, after the clamp at \<open>PMM_MEMORY_BASE\<close>.\<close>

definition clamped :: "multiboot_memory_map \<Rightarrow> u64 \<times> u64" where
  "clamped e =
     (let start = round_up (mm_addr e) PAGE_SIZE; ln = round_down (mm_len e) PAGE_SIZE
      in if start < PMM_MEMORY_BASE then (PMM_MEMORY_BASE, ln - (PMM_MEMORY_BASE - start)) else (start, ln))"

lemma clamped_bounds:
  assumes "entry_ok e" "clamped e = (st, ln)" 
    "\<not> round_up (mm_addr e) PAGE_SIZE + round_down (mm_len e) PAGE_SIZE < PMM_MEMORY_BASE"
  shows "unat st + unat ln \<le> unat (mm_addr e) + unat (mm_len e)" "mm_addr e \<le> st" "PMM_MEMORY_BASE \<le> st"
proof -
  let ?l = "round_down (mm_len e) PAGE_SIZE"
  have l: "unat ?l \<le> unat (mm_len e)" by (simp add: unat_round_down)
  have b: "unat (mm_addr e) + unat (mm_len e) < 2 ^ 44" using assms by (simp add: entry_ok_def)
  have e: "unat (mm_addr e + ?l) = unat (mm_addr e) + unat ?l"
    using l b by (intro unat_add_less) simp
  have "unat st + unat ln \<le> unat (mm_addr e) + unat (mm_len e) \<and> mm_addr e \<le> st \<and> PMM_MEMORY_BASE \<le> st"
  proof (cases "mm_addr e < PMM_MEMORY_BASE")
    case True
    then have d: "unat (PMM_MEMORY_BASE - mm_addr e) = unat PMM_MEMORY_BASE - unat (mm_addr e)"
      by (simp add: unat_sub_le)
    moreover have "PMM_MEMORY_BASE - mm_addr e \<le> ?l"
      using assms(3) d e by (simp add: word_le_nat_alt round_up_aligned [OF assms(1)] word_less_nat_alt)
    ultimately have "unat ln = unat ?l - (unat PMM_MEMORY_BASE - unat (mm_addr e))"
      using assms(2) True by (auto simp: clamped_def Let_def round_up_aligned [OF assms(1)] unat_sub_le)
    moreover have "unat PMM_MEMORY_BASE \<le> unat (mm_addr e) + unat ?l"
      using assms(3) e by (simp add: word_less_nat_alt round_up_aligned [OF assms(1)])
    ultimately show ?thesis using l True assms(2)
      by (simp add: clamped_def Let_def round_up_aligned [OF assms(1)] word_less_nat_alt word_le_nat_alt)
  next
    case False
    then show ?thesis using l assms(2)
      by (auto simp: clamped_def Let_def round_up_aligned [OF assms(1)])
  qed
  then show "unat st + unat ln \<le> unat (mm_addr e) + unat (mm_len e)" "mm_addr e \<le> st" "PMM_MEMORY_BASE \<le> st"
    by simp_all
qed

lemma pmm_init_region_cases:
  obtains (skip) "pmm_init_region PMM_MEMORY_BASE s e = s"
  | (plain) st ln where "mm_type e = MULTIBOOT_MEMORY_AVAILABLE" "clamped e = (st, ln)"
      "\<not> round_up (mm_addr e) PAGE_SIZE + round_down (mm_len e) PAGE_SIZE < PMM_MEMORY_BASE"
      "pmm_init_region PMM_MEMORY_BASE s e = pmm_free s st (ln div PAGE_SIZE)"
  | (bitmap) st ln where "mm_type e = MULTIBOOT_MEMORY_AVAILABLE" "clamped e = (st, ln)"
      "\<not> round_up (mm_addr e) PAGE_SIZE + round_down (mm_len e) PAGE_SIZE < PMM_MEMORY_BASE"
      "st = PMM_MEMORY_BASE" "st + pmm_bitmap_len s div 8 \<le> st + ln"
      "pmm_init_region PMM_MEMORY_BASE s e =
         pmm_free s (st + pmm_bitmap_len s div 8) ((ln - pmm_bitmap_len s div 8) div PAGE_SIZE)"
proof (cases "mm_type e \<noteq> MULTIBOOT_MEMORY_AVAILABLE \<or> round_down (mm_len e) PAGE_SIZE = 0 \<or>
    round_up (mm_addr e) PAGE_SIZE + round_down (mm_len e) PAGE_SIZE < PMM_MEMORY_BASE")
  case True
  then show ?thesis by (intro skip) (auto simp: pmm_init_region_def Let_def)
next
  case False
  obtain st ln where c: "clamped e = (st, ln)" by force
  have ge: "PMM_MEMORY_BASE \<le> st" using c by (auto simp: clamped_def Let_def split: if_splits)
  show ?thesis
  proof (cases "overlaps PMM_MEMORY_BASE (pmm_bitmap_len s div 8) st ln")
    case True
    with ge have st: "st = PMM_MEMORY_BASE" by (simp add: overlaps_def)
    with True c False show ?thesis
      by (intro bitmap [of st ln])
         (auto simp: pmm_init_region_def Let_def clamped_def overlaps_def split: if_splits)
  next
    case f: False
    with c False show ?thesis
      by (intro plain [of st ln])
         (auto simp: pmm_init_region_def Let_def clamped_def split: if_splits)
  qed
qed

lemma pmm_init_region_frees:
  assumes e: "entry_ok e" and ok: "pmm_ok s"
    and i: "i \<in> pmm_used s" "i \<notin> pmm_used (pmm_init_region PMM_MEMORY_BASE s e)"
  shows "frame_in i e \<and> 0x2000 \<le> i"
proof -
  have X: "unat (mm_addr e) + unat (mm_len e) < 2 ^ 44" using e by (simp add: entry_ok_def)
  have al: "4096 dvd unat (mm_addr e)"
    using e by (simp add: entry_ok_def PAGE_SIZE_def word_unat_eq_iff unat_mod mod_eq_0_iff_dvd)
  have fin: ?thesis if ty: "mm_type e = MULTIBOOT_MEMORY_AVAILABLE"
    and r: "i \<in> page_run (st div PAGE_SIZE) (ln div PAGE_SIZE)" 
    and b: "unat st + unat ln \<le> unat (mm_addr e) + unat (mm_len e)" "mm_addr e \<le> st" "PMM_MEMORY_BASE \<le> st"
    for st ln
  proof -
    note p = page_run_in [OF r b(1) X]
    have "unat (mm_addr e) div 4096 \<le> unat i" "0x2000 \<le> unat i"
      using p(2) b(2,3) div_le_mono [of "unat (mm_addr e)" "unat st" 4096]
        div_le_mono [of "0x2000000" "unat st" 4096]
      by (simp_all add: word_le_nat_alt PMM_MEMORY_BASE_def)
    then show ?thesis using p(1) ty al by (auto simp: frame_in_def word_le_nat_alt dvd_def)
  qed
  show ?thesis
  proof (cases rule: pmm_init_region_cases [of s e])
    case skip
    then show ?thesis using i by simp
  next
    case (plain st ln)
    then show ?thesis
      using fin [OF plain(1) _ clamped_bounds [OF e plain(2,3)]] i by (auto simp: pmm_used_free)
  next
    case (bitmap st ln)
    let ?b = "pmm_bitmap_len s div 8"
    note cb = clamped_bounds [OF e bitmap(2,3)]
    have B: "unat ?b < 2 ^ 29" using ok by (simp add: pmm_ok_def word_less_nat_alt unat_div)
    have s1: "unat (st + ?b) = unat st + unat ?b"
      using B cb(1) X by (intro unat_add_less) simp
    have "unat (st + ln) = unat st + unat ln" using cb(1) X by (intro unat_add_less) simp
    then have s2: "?b \<le> ln" using bitmap(5) s1 by (simp add: word_le_nat_alt)
    have "unat (st + ?b) + unat (ln - ?b) \<le> unat (mm_addr e) + unat (mm_len e)"
      using s1 s2 cb(1) by (simp add: unat_sub_le word_le_nat_alt)
    moreover have "mm_addr e \<le> st + ?b" "PMM_MEMORY_BASE \<le> st + ?b"
      using cb(2,3) s1 by (simp_all add: word_le_nat_alt)
    ultimately show ?thesis
      using fin [OF bitmap(1)] i bitmap(6) by (auto simp: pmm_used_free)
  qed
qed

lemma bitmap_fill_ones_read:
  assumes "unat i < 8 * unat n" 
  shows "bit (bitmap_fill_ones bm n (i div 64)) (unat (i mod 64))"
proof -
  have o: "unat (i div 64) = unat i div 64" "unat (i mod 64) = unat i mod 64"
    by (simp_all add: unat_div unat_mod)
  have "unat i mod 64 < 8 * (unat n - 8 * (unat i div 64))" "\<not> unat n \<le> 8 * (unat i div 64)"
    using assms div_mult_mod_eq [of "unat i" 64] by linarith+
  then show ?thesis
    unfolding bitmap_fill_ones_def o by (simp add: bit_simps)
qed

lemma foldl_init_region_len: "pmm_bitmap_len (foldl (pmm_init_region b) s es) = pmm_bitmap_len s"
  by (induction es arbitrary: s) simp_all

lemma foldl_init_region_frees:
  assumes "\<forall>e\<in>set es. entry_ok e" "pmm_ok s"
    "i \<in> pmm_used s" "i \<notin> pmm_used (foldl (pmm_init_region PMM_MEMORY_BASE) s es)"
  shows "\<exists>e\<in>set es. frame_in i e \<and> 0x2000 \<le> i"
  using assms
proof (induction es arbitrary: s)
  case Nil
  then show ?case by simp
next
  case (Cons e es)
  let ?s = "pmm_init_region PMM_MEMORY_BASE s e"
  have ok: "pmm_ok ?s" using Cons.prems(2) by (simp add: pmm_ok_def)
  show ?case
  proof (cases "i \<in> pmm_used ?s")
    case True
    then show ?thesis using Cons.IH [OF _ ok True] Cons.prems by auto
  next
    case False
    then show ?thesis using pmm_init_region_frees [OF _ Cons.prems(2,3) False] Cons.prems(1) by auto
  qed
qed

lemma pmm_alloc_used_mono: "pmm_used s \<subseteq> pmm_used (snd (pmm_alloc s n))"
  by (cases rule: pmm_alloc_cases [of s n]) (auto simp: pmm_used_take)

lemma pmm_alloc_len [simp]: "pmm_bitmap_len (snd (pmm_alloc s n)) = pmm_bitmap_len s"
  by (cases rule: pmm_alloc_cases [of s n]) auto

lemma pmm_used_upd [simp]:
  "pmm_used (s\<lparr>pmm_total_pages := x\<rparr>) = pmm_used s"
  by (simp add: pmm_used_def)

definition pmm_bitmap_pages :: "machine \<Rightarrow> u64" where
  "pmm_bitmap_pages s = (pmm_bitmap_len s div 8 + PAGE_SIZE - 1) div PAGE_SIZE"

lemma ucast_u32_less: "(ucast (x :: u32) :: u64) < 2 ^ 32"
  using unsigned_less [of x, where 'a = nat]
  by (simp add: word_less_nat_alt unsigned_ucast_eq take_bit_nat_eq_self)

text \<open>The stages of \<open>pmm_init\<close>: the bitmap set to all ones, the loop over the memory map, and the
  two final reservations.\<close>

lemma pmm_init_stages:
  obtains s2 s3 s4 where "pmm_ok s2"
    "\<And>i. unat i < 8 * (unat (pmm_bitmap_len s2) div 8) \<Longrightarrow> i \<in> pmm_used s2"
    "s3 = foldl (pmm_init_region PMM_MEMORY_BASE) s2 mmap"
    "pmm_used s4 = page_run 0x2000 (pmm_bitmap_pages s3) \<union> pmm_used s3"
    "pmm_bitmap_len s4 = pmm_bitmap_len s2" "pmm_bitmap_len s3 = pmm_bitmap_len s2"
    "pmm_init s mmap = snd (pmm_alloc s4 (pmm_bitmap_pages s3))"
proof -
  define pages where "pages = (ucast ((pmm_find_avail_memory_top mmap 0 + PAGE_SIZE - 1) div PAGE_SIZE) :: u32)"
  define s1 where "s1 = s\<lparr>pmm_bitmap_len := ucast pages\<rparr>"
  define s2 where "s2 = s1\<lparr>pmm_bitmap := bitmap_fill_ones (pmm_bitmap s1) (pmm_bitmap_len s1 div 8)\<rparr>"
  define s3 where "s3 = foldl (pmm_init_region PMM_MEMORY_BASE) s2 mmap"
  define t where "t = s3\<lparr>pmm_total_pages := pmm_free_pages s3\<rparr>"
  define s4 where "s4 = pmm_bit_write t 0x2000 True (unat (pmm_bitmap_pages s3))"
  have l1: "pmm_bitmap_len s1 = ucast pages" "pmm_bitmap_len s2 = pmm_bitmap_len s1"
    "pmm_bitmap_len t = pmm_bitmap_len s3" by (simp_all add: s1_def s2_def t_def)
  have "pmm_init s mmap = snd (pmm_alloc s4 (pmm_bitmap_pages t))"
    unfolding pmm_init_def Let_def pmm_bitmap_pages_def PMM_BASE_div
      pages_def [symmetric] s1_def [symmetric] s2_def [symmetric] s3_def [symmetric] t_def [symmetric]
    by (simp add: s4_def pmm_bitmap_pages_def l1)
  moreover have "pmm_ok s2" by (simp only: pmm_ok_def l1 ucast_u32_less)
  moreover have "i \<in> pmm_used s2" if "unat i < 8 * (unat (pmm_bitmap_len s2) div 8)" for i
    using that bitmap_fill_ones_read [of i "pmm_bitmap_len s1 div 8"]
    by (simp add: pmm_used_def pmm_bit_read_bit s2_def unat_div)
  moreover have "pmm_used s4 = page_run 0x2000 (pmm_bitmap_pages s3) \<union> pmm_used s3"
    by (auto simp: s4_def t_def pmm_used_def page_run_def pmm_bit_write_read_word)
  moreover have "pmm_bitmap_len s4 = pmm_bitmap_len s2" "pmm_bitmap_len s3 = pmm_bitmap_len s2"
    by (simp_all add: s4_def l1 s3_def foldl_init_region_len)
  moreover have "pmm_bitmap_pages t = pmm_bitmap_pages s3" by (simp add: pmm_bitmap_pages_def l1)
  ultimately show thesis using that [of s2 s3 s4] s3_def by simp
qed


text \<open>C15. Any number of single frames taken from the allocator are pairwise different and were all
  free, and giving them back restores exactly the set of frames in use.\<close>

theorem pmm_alloc_free_roundtrip:
  assumes "pmm_ok s" "alloc_many pmm_alloc n s = (ps, s')" "0 \<notin> set ps"
  shows "distinct ps \<and> (\<forall>p. p \<in> set ps \<longrightarrow> p div PAGE_SIZE \<notin> pmm_used s) \<and>
         pmm_used s' = (\<lambda>p. p div PAGE_SIZE) ` set ps \<union> pmm_used s \<and>
         pmm_used (free_many pmm_free ps s') = pmm_used s"
  using pmm.alloc_many_fresh [OF assms] pmm.alloc_free_many [OF assms] by blast

theorem pmm_alloc_free_roundtrip_witness:
  "alloc_many pmm_alloc 1 small_machine = ([0x2001000], pmm_take small_machine 0x2001 1) \<and>
   pmm_used (free_many pmm_free [0x2001000] (pmm_take small_machine 0x2001 1)) = pmm_used small_machine"
proof -
  have "alloc_many pmm_alloc 1 small_machine = ([0x2001000], pmm_take small_machine 0x2001 1)"
    by (simp add: small_machine_alloc)
  with pmm_alloc_free_roundtrip [OF small_machine_ok this] show ?thesis by simp
qed

text \<open>A memory map with one available entry from 1 MiB to 64 MiB.\<close>

definition small_entry :: multiboot_memory_map where
  "small_entry = \<lparr>mm_addr = 0x100000, mm_len = 0x3F00000, mm_type = 1\<rparr>"


end
