(* ===== verification/Vm.thy ===== *)
theory Vm
  imports Frg Pmm
begin

text \<open>
  The architecture-independent address spaces of \<open>mm/vm.h\<close> and \<open>mm/vm.cpp\<close>: memory mappings with
  lazily allocated backing pages, and the two lists of an address space, the holes and the mapped
  regions. The functions of \<open>arch/mm.h\<close> the code calls are a record of operations over the machine
  state, instantiated for x86_64 by the theory of its page tables; the frigg containers are a
  record of operations too. A pointer to a hole or a region is its position in its list.
  Objects made with \<open>new\<close> are assumed to be allocated.
\<close>

section \<open>Data\<close>

record backing_page =
  bp_ptr :: u64
  bp_exists :: bool
  bp_allocated :: bool

datatype vm_fault_result = invalid | remap_valid | ignore | invalid_access | not_mapped

record memory_mapping =
  m_base :: u64
  m_size :: u64
  m_pages :: "backing_page list"
  m_perms :: cint
  m_cache_mode :: cint
  m_mapped :: bool

record memory_hole =
  h_base :: u64
  h_size :: u64

record address_space =
  mapped_regions :: "memory_mapping list"
  memory_holes :: "memory_hole list"
  vmm_ctx :: u64

text \<open>The containers: the two intrusive lists and the vector of backing pages.\<close>

record vm_frg =
  region_list :: "memory_mapping frg_list_ops"
  hole_list :: "memory_hole frg_list_ops"
  page_vector :: "backing_page frg_vector_ops"

text \<open>The functions of \<open>arch/mm.h\<close> that \<open>vm.cpp\<close> calls, on a machine state \<open>'s\<close>.\<close>

record 's arch_mm_ops =
  am_alloc_phys :: "'s \<Rightarrow> u64 \<Rightarrow> u64 \<times> 's"
  am_free_phys :: "'s \<Rightarrow> u64 \<Rightarrow> u64 \<Rightarrow> 's"
  am_map :: "'s \<Rightarrow> u64 \<Rightarrow> u64 \<Rightarrow> u64 \<Rightarrow> u64 \<Rightarrow> cint \<Rightarrow> cint \<Rightarrow> 's result"
  am_unmap :: "'s \<Rightarrow> u64 \<Rightarrow> u64 \<Rightarrow> u64 \<Rightarrow> 's result"
  am_create_context :: "'s \<Rightarrow> (u64 \<times> 's) result"
  am_destroy_context :: "'s \<Rightarrow> u64 \<Rightarrow> 's result"
  am_mapping_load :: "'s \<Rightarrow> memory_mapping \<Rightarrow> u64 \<Rightarrow> u64 \<Rightarrow> u64 \<Rightarrow> 's result"
  am_mapping_store :: "'s \<Rightarrow> memory_mapping \<Rightarrow> u64 \<Rightarrow> u64 \<Rightarrow> u64 \<Rightarrow> 's result"

section \<open>Memory mappings\<close>

definition no_page :: backing_page where
  "no_page = \<lparr>bp_ptr = 0, bp_exists = False, bp_allocated = False\<rparr>"

definition new_mapping :: "vm_frg \<Rightarrow> u64 \<Rightarrow> u64 \<Rightarrow> memory_mapping" where
  "new_mapping F base sz =
     \<lparr>m_base = base, m_size = sz, m_pages = fv_resize (page_vector F) [] (unat sz),
      m_perms = 0, m_cache_mode = 0, m_mapped = False\<rparr>"

text \<open>The destructor.\<close>

fun free_pages :: "'s arch_mm_ops \<Rightarrow> 's \<Rightarrow> backing_page list \<Rightarrow> 's" where
  "free_pages A s [] = s"
| "free_pages A s (page # pages) =
     free_pages A (if bp_exists page \<and> bp_allocated page \<and> bp_ptr page \<noteq> 0
                   then am_free_phys A s (bp_ptr page) 1 else s) pages"

definition delete_mapping :: "'s arch_mm_ops \<Rightarrow> 's \<Rightarrow> memory_mapping \<Rightarrow> 's" where
  "delete_mapping A s m = free_pages A s (m_pages m)"

fun allocate_pages :: "backing_page list \<Rightarrow> backing_page list result" where
  "allocate_pages [] = Inr []"
| "allocate_pages (page # pages) =
     kassert (\<not> bp_exists page \<and> \<not> bp_allocated page)
     (and_then (allocate_pages pages) (\<lambda>ps. Inr (page\<lparr>bp_allocated := True\<rparr> # ps)))"

definition mapping_allocate :: "memory_mapping \<Rightarrow> cint \<Rightarrow> cint \<Rightarrow> memory_mapping result" where
  "mapping_allocate m perms cache =
     and_then (allocate_pages (m_pages m)) (\<lambda>ps.
       Inr (m\<lparr>m_perms := perms, m_cache_mode := cache, m_pages := ps\<rparr>))"

fun map_to_pages :: "u64 \<Rightarrow> backing_page list \<Rightarrow> backing_page list result" where
  "map_to_pages address [] = Inr []"
| "map_to_pages address (page # pages) =
     kassert (\<not> bp_exists page \<and> \<not> bp_allocated page)
     (and_then (map_to_pages (address + vm_page_size) pages) (\<lambda>ps.
       Inr (page\<lparr>bp_exists := True, bp_allocated := False, bp_ptr := address\<rparr> # ps)))"

definition mapping_map_to :: "memory_mapping \<Rightarrow> u64 \<Rightarrow> cint \<Rightarrow> cint \<Rightarrow> memory_mapping result" where
  "mapping_map_to m address perms cache =
     and_then (map_to_pages address (m_pages m)) (\<lambda>ps.
       Inr (m\<lparr>m_perms := perms, m_cache_mode := cache, m_pages := ps\<rparr>))"

fun deallocate_pages :: "'s arch_mm_ops \<Rightarrow> 's \<Rightarrow> backing_page list \<Rightarrow> 's \<times> backing_page list" where
  "deallocate_pages A s [] = (s, [])"
| "deallocate_pages A s (page # pages) =
     (let s1 = (if bp_exists page \<and> bp_allocated page then am_free_phys A s (bp_ptr page) 1 else s);
          (s2, ps) = deallocate_pages A s1 pages
      in (s2, \<lparr>bp_ptr = 0, bp_exists = False, bp_allocated = False\<rparr> # ps))"

definition mapping_deallocate ::
  "'s arch_mm_ops \<Rightarrow> 's \<Rightarrow> memory_mapping \<Rightarrow> ('s \<times> memory_mapping) result" where
  "mapping_deallocate A s m =
     kassert (\<not> m_mapped m)
       (case deallocate_pages A s (m_pages m) of (s', ps) \<Rightarrow> Inr (s', m\<lparr>m_pages := ps\<rparr>))"

definition mapping_touch ::
  "'s arch_mm_ops \<Rightarrow> 's \<Rightarrow> memory_mapping \<Rightarrow> u64 \<Rightarrow> (bool \<times> 's \<times> memory_mapping) result" where
  "mapping_touch A s m idx =
     (if length (m_pages m) \<le> unat idx then Inl OutOfBounds
      else
        let page = m_pages m ! unat idx
        in if \<not> bp_exists page
           then kassert (bp_allocated page)
                  (let (ptr, s1) = am_alloc_phys A s 1
                  in if ptr = 0 then Inr (False, s1, m)
                     else Inr (True, s1, m\<lparr>m_pages :=
                            (m_pages m)[unat idx := page\<lparr>bp_exists := True, bp_ptr := ptr\<rparr>]\<rparr>))
           else Inr (False, s, m))"

text \<open>\<open>touch\<close> on the \<open>n\<close> pages from \<open>idx\<close>, the loop of \<open>touch_all\<close> and of \<open>ensure_load_store\<close>.\<close>

fun touch_range ::
  "'s arch_mm_ops \<Rightarrow> 's \<Rightarrow> memory_mapping \<Rightarrow> u64 \<Rightarrow> nat \<Rightarrow> bool \<Rightarrow> (bool \<times> 's \<times> memory_mapping) result" where
  "touch_range A s m idx 0 touched = Inr (touched, s, m)"
| "touch_range A s m idx (Suc n) touched =
     and_then (mapping_touch A s m idx) (\<lambda>(t, s1, m1). touch_range A s1 m1 (idx + 1) n (touched \<or> t))"

definition mapping_touch_all ::
  "'s arch_mm_ops \<Rightarrow> 's \<Rightarrow> memory_mapping \<Rightarrow> (bool \<times> 's \<times> memory_mapping) result" where
  "mapping_touch_all A s m = touch_range A s m 0 (unat (m_size m)) False"

definition mapping_fault_hit ::
  "'s arch_mm_ops \<Rightarrow> 's \<Rightarrow> memory_mapping \<Rightarrow> u64 \<Rightarrow> (vm_fault_result \<times> 's \<times> memory_mapping) result" where
  "mapping_fault_hit A s m address =
     (if address < m_base m \<or> address \<ge> m_base m + m_size m * vm_page_size then Inl Panic
      else
        let idx = (address - m_base m) div vm_page_size
        in if length (m_pages m) \<le> unat idx then Inl OutOfBounds
           else
             let page = m_pages m ! unat idx
             in if bp_allocated page \<and> \<not> bp_exists page
                then and_then (mapping_touch A s m idx) (\<lambda>(t, s1, m1).
                       Inr (if t then remap_valid else ignore, s1, m1))
                else if bp_exists page then Inr (invalid_access, s, m)
                else if \<not> bp_allocated page \<and> \<not> bp_exists page then Inr (not_mapped, s, m)
                else Inr (invalid, s, m))"

definition ensure_load_store ::
  "'s arch_mm_ops \<Rightarrow> 's \<Rightarrow> memory_mapping \<Rightarrow> u64 \<Rightarrow> u64 \<Rightarrow> (bool \<times> 's \<times> memory_mapping) result" where
  "ensure_load_store A s m offset sz =
     kassert (0 \<le> sint offset)
       (let pages = (sz + vm_page_size - 1) div vm_page_size; start = offset div vm_page_size
       in if (offset + sz + vm_page_size - 1) div vm_page_size > m_size m then Inr (False, s, m)
          else touch_range A s m start (unat pages) False)"

definition mapping_load ::
  "'s arch_mm_ops \<Rightarrow> 's \<Rightarrow> memory_mapping \<Rightarrow> u64 \<Rightarrow> u64 \<Rightarrow> u64 \<Rightarrow> (bool \<times> 's \<times> memory_mapping) result" where
  "mapping_load A s m offset data sz =
     and_then (ensure_load_store A s m offset sz) (\<lambda>(touched, s1, m1).
     and_then (am_mapping_load A s1 m1 offset data sz) (\<lambda>s2. Inr (touched, s2, m1)))"

definition mapping_store ::
  "'s arch_mm_ops \<Rightarrow> 's \<Rightarrow> memory_mapping \<Rightarrow> u64 \<Rightarrow> u64 \<Rightarrow> u64 \<Rightarrow> (bool \<times> 's \<times> memory_mapping) result" where
  "mapping_store A s m offset data sz =
     and_then (ensure_load_store A s m offset sz) (\<lambda>(touched, s1, m1).
     and_then (am_mapping_store A s1 m1 offset data sz) (\<lambda>s2. Inr (touched, s2, m1)))"

end
