(* ===== verification/ElfTypes.thy ===== *)
theory ElfTypes
  imports Prelude
begin

text \<open>The ELF headers of \<open>loader/elf64.h\<close> and \<open>loader/elf_common.h\<close>, which the page table code reads for
  the kernel's own segments and the program loader for a user program's.\<close>

definition ELF_PHDR_TYPE_LOAD :: u32 where
  "ELF_PHDR_TYPE_LOAD = 1"

definition ELF_PHDR_FLAG_X :: u32 where
  "ELF_PHDR_FLAG_X = 1"

definition ELF_PHDR_FLAG_W :: u32 where
  "ELF_PHDR_FLAG_W = 2"

definition ELF_PHDR_FLAG_R :: u32 where
  "ELF_PHDR_FLAG_R = 4"

record elf64_phdr =
  p_type :: u32
  p_flags :: u32
  p_offset :: u64
  p_vaddr :: u64
  p_paddr :: u64
  p_filesz :: u64
  p_memsz :: u64
  p_align :: u64

record elf64_ehdr =
  e_ident :: "u8 list"
  e_type :: u16
  e_machine :: u16
  e_version :: u32
  e_entry :: u64
  e_phoff :: u64
  e_shoff :: u64
  e_flags :: u32
  e_ehsize :: u16
  e_phentsize :: u16
  e_phnum :: u16
  e_shentsize :: u16
  e_shnum :: u16
  e_shstrndx :: u16

end
