(* ===== verification/Vmm.thy ===== *)
theory Vmm
  imports Vm ElfTypes
begin

text \<open>
  The page tables of x86_64 (\<open>arch/x86_64/mm/vmm.h\<close>, \<open>vmm.cpp\<close>): four levels of tables of 512 entries,
  kept in physical memory. A pointer to a table is the physical address of the table, which the code
  reaches at \<open>VIRT_PHYS_BASE\<close> plus that address, and NULL is \<open>None\<close>. Reading or writing through NULL
  is the fault \<open>NullDeref\<close>. The translation lookaside buffer is not modelled: \<open>invlpg\<close> has no effect,
  and neither has writing the page attribute register; log messages are left out.
\<close>

section \<open>Entries and tables\<close>

definition VMM_FLAG_PRESENT :: u64 where
  "VMM_FLAG_PRESENT = 1"

definition VMM_FLAG_WRITE :: u64 where
  "VMM_FLAG_WRITE = 2"

definition VMM_FLAG_USER :: u64 where
  "VMM_FLAG_USER = 4"

definition VMM_FLAG_PAT0 :: u64 where
  "VMM_FLAG_PAT0 = 0x8"

definition VMM_FLAG_PAT1 :: u64 where
  "VMM_FLAG_PAT1 = 0x10"

definition VMM_FLAG_PAT2 :: u64 where
  "VMM_FLAG_PAT2 = 0x80"

definition VMM_FLAG_LARGE :: u64 where
  "VMM_FLAG_LARGE = 0x80"

definition VMM_FLAG_NX :: u64 where
  "VMM_FLAG_NX = 0x8000000000000000"

definition VMM_FLAG_MASK :: u64 where
  "VMM_FLAG_MASK = 0x8000000000000FFF"

definition VMM_ADDR_MASK :: u64 where
  "VMM_ADDR_MASK = NOT VMM_FLAG_MASK"

definition table_read :: "machine \<Rightarrow> u64 \<Rightarrow> u64 \<Rightarrow> u64" where
  "table_read s tab off = read64 (phys_mem s) (tab + off * 8)"

definition table_write :: "machine \<Rightarrow> u64 \<Rightarrow> u64 \<Rightarrow> u64 \<Rightarrow> machine" where
  "table_write s tab off v = s\<lparr>phys_mem := write64 (phys_mem s) (tab + off * 8) v\<rparr>"

record pt_off_t =
  pml4_off :: u64
  pdp_off :: u64
  pd_off :: u64
  pt_off :: u64

definition vmm_virt_to_offs :: "u64 \<Rightarrow> pt_off_t" where
  "vmm_virt_to_offs addr =
     \<lparr>pml4_off = drop_bit 39 (addr AND push_bit 39 0x1FF),
      pdp_off = drop_bit 30 (addr AND push_bit 30 0x1FF),
      pd_off = drop_bit 21 (addr AND push_bit 21 0x1FF),
      pt_off = drop_bit 12 (addr AND push_bit 12 0x1FF)\<rparr>"

definition vmm_offs_to_virt :: "pt_off_t \<Rightarrow> u64" where
  "vmm_offs_to_virt offs =
     0 OR push_bit 39 (pml4_off offs) OR push_bit 30 (pdp_off offs) OR
     push_bit 21 (pd_off offs) OR push_bit 12 (pt_off offs)"

section \<open>Walking and changing tables\<close>

definition vmm_get_or_alloc_ent ::
  "machine \<Rightarrow> u64 option \<Rightarrow> u64 \<Rightarrow> u64 \<Rightarrow> (u64 option \<times> machine) result" where
  "vmm_get_or_alloc_ent s tab off flags =
     (case tab of
        None \<Rightarrow> Inl NullDeref
      | Some tab \<Rightarrow>
          let ent_addr = table_read s tab off
          in if ent_addr AND VMM_FLAG_PRESENT = 0
             then
               let (p, s1) = pmm_alloc s 1;
                   s2 = table_write s1 tab off p
               in if p = 0 then Inr (None, s2)
                  else
                    let s3 = table_write s2 tab off (table_read s2 tab off OR flags OR VMM_FLAG_PRESENT);
                        s4 = s3\<lparr>phys_mem := memset (phys_mem s3) p 0 4096\<rparr>
                    in Inr (Some (p AND VMM_ADDR_MASK), s4)
             else Inr (Some (ent_addr AND VMM_ADDR_MASK), s))"

definition vmm_get_or_null_ent :: "machine \<Rightarrow> u64 option \<Rightarrow> u64 \<Rightarrow> u64 option result" where
  "vmm_get_or_null_ent s tab off =
     (case tab of
        None \<Rightarrow> Inl NullDeref
      | Some tab \<Rightarrow>
          let ent_addr = table_read s tab off
          in if ent_addr AND VMM_FLAG_PRESENT = 0 then Inr None else Inr (Some (ent_addr AND VMM_ADDR_MASK)))"

text \<open>Writing an entry of a table that may be NULL.\<close>

definition set_ent :: "machine \<Rightarrow> u64 option \<Rightarrow> u64 \<Rightarrow> u64 \<Rightarrow> machine result" where
  "set_ent s tab off v = (case tab of None \<Rightarrow> Inl NullDeref | Some t \<Rightarrow> Inr (table_write s t off v))"

definition higher_perms :: u64 where
  "higher_perms = VMM_FLAG_WRITE OR VMM_FLAG_USER"

text \<open>One iteration of the loop of \<open>vmm_map_pages\<close>.\<close>

definition vmm_map_page :: "machine \<Rightarrow> u64 \<Rightarrow> u64 \<Rightarrow> u64 \<Rightarrow> u64 \<Rightarrow> machine result" where
  "vmm_map_page s pml4 virt phys perms =
     (let offs = vmm_virt_to_offs virt
      in and_then (vmm_get_or_alloc_ent s (Some pml4) (pml4_off offs) higher_perms) (\<lambda>(pdp, s).
         and_then (vmm_get_or_alloc_ent s pdp (pdp_off offs) higher_perms) (\<lambda>(pd, s).
         and_then (vmm_get_or_alloc_ent s pd (pd_off offs) higher_perms) (\<lambda>(pt, s).
           set_ent s pt (pt_off offs) (phys OR perms OR VMM_FLAG_PRESENT)))))"

fun vmm_map_pages :: "machine \<Rightarrow> u64 \<Rightarrow> u64 \<Rightarrow> u64 \<Rightarrow> nat \<Rightarrow> u64 \<Rightarrow> machine result" where
  "vmm_map_pages s pml4 virt phys 0 perms = Inr s"
| "vmm_map_pages s pml4 virt phys (Suc cnt) perms =
     and_then (vmm_map_page s pml4 virt phys perms) (\<lambda>s1.
       vmm_map_pages s1 pml4 (virt + 0x1000) (phys + 0x1000) cnt perms)"

text \<open>The walk that \<open>vmm_unmap_pages\<close>, \<open>vmm_update_perms\<close> and \<open>vmm_get_entry\<close> make: the last table, or
  NULL as soon as a level is missing.\<close>

definition vmm_walk :: "machine \<Rightarrow> u64 \<Rightarrow> pt_off_t \<Rightarrow> u64 option result" where
  "vmm_walk s pml4 offs =
     and_then (vmm_get_or_null_ent s (Some pml4) (pml4_off offs)) (\<lambda>pdp.
       if pdp = None then Inr None
       else and_then (vmm_get_or_null_ent s pdp (pdp_off offs)) (\<lambda>pd.
         if pd = None then Inr None
         else vmm_get_or_null_ent s pd (pd_off offs)))"

fun vmm_unmap_pages :: "machine \<Rightarrow> u64 \<Rightarrow> u64 \<Rightarrow> nat \<Rightarrow> (bool \<times> machine) result" where
  "vmm_unmap_pages s pml4 virt 0 = Inr (True, s)"
| "vmm_unmap_pages s pml4 virt (Suc cnt) =
     (let offs = vmm_virt_to_offs virt
      in and_then (vmm_walk s pml4 offs) (\<lambda>pt.
           if pt = None then Inr (False, s)
           else and_then (set_ent s pt (pt_off offs) 0) (\<lambda>s1.
             vmm_unmap_pages s1 pml4 (virt + 0x1000) cnt)))"

text \<open>The result is the value the function returns: false also when every page was updated.\<close>

fun vmm_update_perms :: "machine \<Rightarrow> u64 \<Rightarrow> u64 \<Rightarrow> nat \<Rightarrow> u64 \<Rightarrow> (bool \<times> machine) result" where
  "vmm_update_perms s pml4 virt 0 perms = Inr (False, s)"
| "vmm_update_perms s pml4 virt (Suc cnt) perms =
     (let offs = vmm_virt_to_offs virt
      in and_then (vmm_walk s pml4 offs) (\<lambda>pt.
           (case pt of
              None \<Rightarrow> Inr (False, s)
            | Some t \<Rightarrow>
                vmm_update_perms
                  (table_write s t (pt_off offs)
                     ((table_read s t (pt_off offs) AND VMM_ADDR_MASK) OR perms OR VMM_FLAG_PRESENT))
                  pml4 (virt + 0x1000) cnt perms)))"

fun vmm_map_huge_pages :: "machine \<Rightarrow> u64 \<Rightarrow> u64 \<Rightarrow> u64 \<Rightarrow> nat \<Rightarrow> u64 \<Rightarrow> machine result" where
  "vmm_map_huge_pages s pml4 virt phys 0 perms = Inr s"
| "vmm_map_huge_pages s pml4 virt phys (Suc cnt) perms =
     (let offs = vmm_virt_to_offs virt
      in and_then (vmm_get_or_alloc_ent s (Some pml4) (pml4_off offs) higher_perms) (\<lambda>(pdp, s).
         and_then (vmm_get_or_alloc_ent s pdp (pdp_off offs) higher_perms) (\<lambda>(pd, s).
         and_then (set_ent s pd (pd_off offs) (phys OR perms OR VMM_FLAG_PRESENT OR VMM_FLAG_LARGE)) (\<lambda>s1.
           vmm_map_huge_pages s1 pml4 (virt + 0x200000) (phys + 0x200000) cnt perms))))"

fun vmm_unmap_huge_pages :: "machine \<Rightarrow> u64 \<Rightarrow> u64 \<Rightarrow> nat \<Rightarrow> (bool \<times> machine) result" where
  "vmm_unmap_huge_pages s pml4 virt 0 = Inr (True, s)"
| "vmm_unmap_huge_pages s pml4 virt (Suc cnt) =
     (let offs = vmm_virt_to_offs virt
      in and_then (vmm_get_or_null_ent s (Some pml4) (pml4_off offs)) (\<lambda>pdp.
           if pdp = None then Inr (False, s)
           else and_then (vmm_get_or_null_ent s pdp (pdp_off offs)) (\<lambda>pd.
             and_then (set_ent s pd (pd_off offs) 0) (\<lambda>s1.
               vmm_unmap_huge_pages s1 pml4 (virt + 0x200000) cnt))))"

fun vmm_update_huge_perms :: "machine \<Rightarrow> u64 \<Rightarrow> u64 \<Rightarrow> nat \<Rightarrow> u64 \<Rightarrow> (bool \<times> machine) result" where
  "vmm_update_huge_perms s pml4 virt 0 perms = Inr (False, s)"
| "vmm_update_huge_perms s pml4 virt (Suc cnt) perms =
     (let offs = vmm_virt_to_offs virt
      in and_then (vmm_get_or_null_ent s (Some pml4) (pml4_off offs)) (\<lambda>pdp.
           if pdp = None then Inr (False, s)
           else and_then (vmm_get_or_null_ent s pdp (pdp_off offs)) (\<lambda>pd.
             (case pd of
                None \<Rightarrow> Inl NullDeref
              | Some t \<Rightarrow>
                  vmm_update_huge_perms
                    (table_write s t (pd_off offs)
                       ((table_read s t (pd_off offs) AND VMM_ADDR_MASK) OR perms OR VMM_FLAG_PRESENT OR
                        VMM_FLAG_LARGE))
                    pml4 (virt + 0x200000) cnt perms))))"

definition vmm_get_entry :: "machine \<Rightarrow> u64 \<Rightarrow> u64 \<Rightarrow> u64 result" where
  "vmm_get_entry s pml4 virt =
     (if virt \<ge> 0xFFFFFFFF80000000 then Inr (virt - 0xFFFFFFFF80000000)
      else if virt \<ge> 0xFFFF800000000000 then Inr (virt - 0xFFFF800000000000)
      else
        let offs = vmm_virt_to_offs virt
        in and_then (vmm_walk s pml4 offs) (\<lambda>pt.
             (case pt of None \<Rightarrow> Inr 0 | Some t \<Rightarrow> Inr (table_read s t (pt_off offs)))))"

section \<open>Address spaces and contexts\<close>

text \<open>The loop over the kernel's program headers in \<open>vmm_new_address_space\<close>.\<close>

fun map_kernel_segments :: "machine \<Rightarrow> u64 \<Rightarrow> elf64_phdr list \<Rightarrow> machine result" where
  "map_kernel_segments s pml4 [] = Inr s"
| "map_kernel_segments s pml4 (ph # phs) =
     (if p_type ph \<noteq> ELF_PHDR_TYPE_LOAD \<or> p_vaddr ph < 0xFFFFFFFF80000000
      then map_kernel_segments s pml4 phs
      else
        let flags = VMM_FLAG_NX OR VMM_FLAG_PRESENT;
            flags = (if p_flags ph AND ELF_PHDR_FLAG_X \<noteq> 0 then flags AND NOT VMM_FLAG_NX else flags);
            flags = (if p_flags ph AND ELF_PHDR_FLAG_W \<noteq> 0 then flags OR VMM_FLAG_WRITE else flags);
            n_pages = (p_memsz ph + 0xFFF) div 0x1000
        in and_then (vmm_map_pages s pml4 (p_vaddr ph) (p_paddr ph) (unat n_pages) flags) (\<lambda>s1.
             map_kernel_segments s1 pml4 phs))"

text \<open>The program headers of the running kernel, which the linker provides at \<open>__ehdr_start\<close>, are an
  argument; \<open>None\<close> is a null \<open>__ehdr_start\<close>.\<close>

definition vmm_new_address_space ::
  "elf64_phdr list option \<Rightarrow> machine \<Rightarrow> (u64 \<times> machine) result" where
  "vmm_new_address_space ehdr s =
     (let (new_pml4, s1) = pmm_alloc s 1;
          s2 = s1\<lparr>phys_mem := memset (phys_mem s1) new_pml4 0 4096\<rparr>
      in if kernel_pml4 s2 \<noteq> 0
         then Inr (new_pml4, s2\<lparr>phys_mem :=
                memcpy (phys_mem s2) (new_pml4 + 2048) (kernel_pml4 s2 + 2048) 2048\<rparr>)
         else and_then (vmm_map_huge_pages s2 new_pml4 0xFFFF800000000000 0 (512 * 4) 3) (\<lambda>s3.
           (case ehdr of
              None \<Rightarrow> and_then (vmm_map_huge_pages s3 new_pml4 0xFFFFFFFF80000000 0 64 3) (\<lambda>s4. Inr (new_pml4, s4))
            | Some phdrs \<Rightarrow> and_then (map_kernel_segments s3 new_pml4 phdrs) (\<lambda>s4. Inr (new_pml4, s4)))))"

definition vmm_set_context :: "machine \<Rightarrow> u64 \<Rightarrow> machine" where
  "vmm_set_context s ctx = s\<lparr>cr3 := ctx\<rparr>"

definition vmm_get_current_context :: "machine \<Rightarrow> u64" where
  "vmm_get_current_context s = cr3 s"

definition vmm_init :: "elf64_phdr list option \<Rightarrow> machine \<Rightarrow> machine result" where
  "vmm_init ehdr s =
     and_then (vmm_new_address_space ehdr s) (\<lambda>(p, s1).
       Inr (vmm_set_context (s1\<lparr>kernel_pml4 := p\<rparr>) p))"

definition get_ctx :: "machine \<Rightarrow> u64" where
  "get_ctx s = saved_vmm_ctx s (cur_cpu s)"

definition set_ctx :: "machine \<Rightarrow> u64 \<Rightarrow> machine" where
  "set_ctx s c = s\<lparr>saved_vmm_ctx := (saved_vmm_ctx s)(cur_cpu s := c)\<rparr>"

definition vmm_save_context :: "machine \<Rightarrow> machine" where
  "vmm_save_context s = set_ctx s (vmm_get_current_context s)"

definition vmm_get_saved_context :: "machine \<Rightarrow> u64" where
  "vmm_get_saved_context s = get_ctx s"

definition vmm_restore_context :: "machine \<Rightarrow> machine" where
  "vmm_restore_context s = set_ctx (vmm_set_context s (get_ctx s)) 0"

definition vmm_drop_context :: "machine \<Rightarrow> machine" where
  "vmm_drop_context s = set_ctx s 0"

section \<open>Copying through virtual addresses\<close>

text \<open>The translation the processor makes with the tables at \<open>cr3\<close>: 1 GiB and 2 MiB pages where the
  \<open>LARGE\<close> bit is set, 4 KiB pages otherwise, \<open>None\<close> when an entry is not present. The physical
  address is bits 12 to 51 of the last entry.\<close>

definition PHYS_MASK :: u64 where
  "PHYS_MASK = 0x000FFFFFFFFFF000"

definition translate :: "machine \<Rightarrow> u64 \<Rightarrow> u64 option" where
  "translate s va =
     (let offs = vmm_virt_to_offs va; e4 = table_read s (cr3 s AND PHYS_MASK) (pml4_off offs)
      in if e4 AND VMM_FLAG_PRESENT = 0 then None
         else
           let e3 = table_read s (e4 AND PHYS_MASK) (pdp_off offs)
           in if e3 AND VMM_FLAG_PRESENT = 0 then None
              else if e3 AND VMM_FLAG_LARGE \<noteq> 0
              then Some ((e3 AND PHYS_MASK AND NOT 0x3FFFFFFF) OR (va AND 0x3FFFFFFF))
              else
                let e2 = table_read s (e3 AND PHYS_MASK) (pd_off offs)
                in if e2 AND VMM_FLAG_PRESENT = 0 then None
                   else if e2 AND VMM_FLAG_LARGE \<noteq> 0
                   then Some ((e2 AND PHYS_MASK AND NOT 0x1FFFFF) OR (va AND 0x1FFFFF))
                   else
                     let e1 = table_read s (e2 AND PHYS_MASK) (pt_off offs)
                     in if e1 AND VMM_FLAG_PRESENT = 0 then None
                        else Some ((e1 AND PHYS_MASK) OR (va AND 0xFFF)))"

text \<open>\<open>memcpy\<close> on virtual addresses: byte by byte, a page fault when a byte of either block is not
  mapped.\<close>

fun virt_memcpy :: "machine \<Rightarrow> u64 \<Rightarrow> u64 \<Rightarrow> nat \<Rightarrow> machine result" where
  "virt_memcpy s dest src 0 = Inr s"
| "virt_memcpy s dest src (Suc len) =
     (case (translate s dest, translate s src) of
        (Some d, Some x) \<Rightarrow>
          virt_memcpy (s\<lparr>phys_mem := (phys_mem s)(d := phys_mem s x)\<rparr>) (dest + 1) (src + 1) len
      | _ \<Rightarrow> Inl PageFault)"

definition copy_dst :: u64 where
  "copy_dst = 0x700000000000"

definition copy_src :: u64 where
  "copy_src = 0x780000000000"

text \<open>\<open>vmm_ctx_memcpy\<close>. The number of iterations of its two loops is the number of pages that \<open>map_size\<close>
  bytes take. The lock \<open>copy_lock\<close> is left out: it excludes other processors only.\<close>

fun ctx_map_loop :: "machine \<Rightarrow> u64 \<Rightarrow> u64 \<Rightarrow> u64 \<Rightarrow> u64 \<Rightarrow> u64 \<Rightarrow> u64 \<Rightarrow> nat \<Rightarrow> machine result" where
  "ctx_map_loop s dst_ctx dst src_ctx src dst_virt src_virt 0 = Inr s"
| "ctx_map_loop s dst_ctx dst src_ctx src dst_virt src_virt (Suc n) =
     and_then (vmm_get_entry s dst_ctx dst) (\<lambda>de.
     and_then (vmm_get_entry s src_ctx src) (\<lambda>se.
     and_then (vmm_map_pages s (kernel_pml4 s) dst_virt (de AND VMM_ADDR_MASK) 1 VMM_FLAG_WRITE) (\<lambda>s1.
     and_then (vmm_map_pages s1 (kernel_pml4 s1) src_virt (se AND VMM_ADDR_MASK) 1 VMM_FLAG_WRITE) (\<lambda>s2.
       ctx_map_loop s2 dst_ctx (dst + 0x1000) src_ctx (src + 0x1000) (dst_virt + 0x1000) (src_virt + 0x1000) n))))"

fun ctx_unmap_loop :: "machine \<Rightarrow> u64 \<Rightarrow> u64 \<Rightarrow> nat \<Rightarrow> machine result" where
  "ctx_unmap_loop s dst_virt src_virt 0 = Inr s"
| "ctx_unmap_loop s dst_virt src_virt (Suc n) =
     and_then (vmm_unmap_pages s (kernel_pml4 s) dst_virt 1) (\<lambda>(_, s1).
     and_then (vmm_unmap_pages s1 (kernel_pml4 s1) src_virt 1) (\<lambda>(_, s2).
       ctx_unmap_loop s2 (dst_virt + 0x1000) (src_virt + 0x1000) n))"

definition vmm_ctx_memcpy :: "machine \<Rightarrow> u64 \<Rightarrow> u64 \<Rightarrow> u64 \<Rightarrow> u64 \<Rightarrow> u64 \<Rightarrow> machine result" where
  "vmm_ctx_memcpy s dst_ctx dst_addr src_ctx src_addr sz =
     (let dst = dst_addr AND NOT 0xFFF; src = src_addr AND NOT 0xFFF;
          map_size = sz + max (dst_addr AND 0xFFF) (src_addr AND 0xFFF);
          n = (unat map_size + 0xFFF) div 0x1000
      in and_then (ctx_map_loop s dst_ctx dst src_ctx src copy_dst copy_src n) (\<lambda>s1.
         and_then (virt_memcpy s1 (copy_dst + (dst_addr AND 0xFFF)) (copy_src + (src_addr AND 0xFFF)) (unat sz)) (\<lambda>s2.
           ctx_unmap_loop s2 copy_dst copy_src n)))"

section \<open>The architecture interface\<close>

text \<open>The flags are computed in an \<open>int\<close>, so the \<open>NX\<close> bit, bit 63, is lost.\<close>

definition vmm_arch_to_vmm_flags :: "cint \<Rightarrow> cint \<Rightarrow> cint" where
  "vmm_arch_to_vmm_flags flags cache =
     (let f = 0 :: cint;
          f = (if flags AND 2 \<noteq> 0 then ucast (scast f OR VMM_FLAG_WRITE) else f);
          f = (if flags AND 8 \<noteq> 0 then ucast (scast f OR VMM_FLAG_USER) else f);
          f = (if flags AND 4 = 0 then ucast (scast f OR VMM_FLAG_NX) else f);
          f = (if cache AND 1 \<noteq> 0 then ucast (scast f OR VMM_FLAG_PAT0) else f);
          f = (if cache AND 2 \<noteq> 0 then ucast (scast f OR VMM_FLAG_PAT1) else f);
          f = (if cache AND 4 \<noteq> 0 then ucast (scast f OR VMM_FLAG_PAT2) else f)
      in f)"

definition arch_mm_map :: "machine \<Rightarrow> u64 \<Rightarrow> u64 \<Rightarrow> u64 \<Rightarrow> u64 \<Rightarrow> cint \<Rightarrow> cint \<Rightarrow> machine result" where
  "arch_mm_map s ctx dst src sz flags cache =
     vmm_map_pages s ctx dst src (unat sz) (scast (vmm_arch_to_vmm_flags flags cache))"

definition arch_mm_unmap :: "machine \<Rightarrow> u64 \<Rightarrow> u64 \<Rightarrow> u64 \<Rightarrow> machine result" where
  "arch_mm_unmap s ctx dst sz =
     and_then (vmm_unmap_pages s ctx dst (unat sz)) (\<lambda>(_, s1). Inr s1)"

definition arch_mm_map_kernel :: "machine \<Rightarrow> u64 \<Rightarrow> u64 \<Rightarrow> u64 \<Rightarrow> cint \<Rightarrow> cint \<Rightarrow> machine result" where
  "arch_mm_map_kernel s dst src sz flags cache =
     vmm_map_pages s (kernel_pml4 s) dst src (unat sz) (scast (vmm_arch_to_vmm_flags flags cache))"

definition arch_mm_unmap_kernel :: "machine \<Rightarrow> u64 \<Rightarrow> u64 \<Rightarrow> machine result" where
  "arch_mm_unmap_kernel s dst sz =
     and_then (vmm_unmap_pages s (kernel_pml4 s) dst (unat sz)) (\<lambda>(_, s1). Inr s1)"

definition arch_mm_get_phys_kernel :: "machine \<Rightarrow> u64 \<Rightarrow> u64 result" where
  "arch_mm_get_phys_kernel s dst =
     and_then (vmm_get_entry s (kernel_pml4 s) dst) (\<lambda>e. Inr (e AND VMM_ADDR_MASK))"

definition arch_mm_get_flags_kernel :: "machine \<Rightarrow> u64 \<Rightarrow> cint result" where
  "arch_mm_get_flags_kernel s dst =
     and_then (vmm_get_entry s (kernel_pml4 s) dst) (\<lambda>e.
       let arch_flags = (ucast (e AND VMM_FLAG_MASK) :: cint);
           wide = (scast arch_flags :: u64);
           flags = (if arch_flags \<noteq> 0 then 1 else 0 :: cint);
           flags = (if wide AND VMM_FLAG_WRITE \<noteq> 0 then flags OR 2 else flags);
           flags = (if wide AND VMM_FLAG_USER \<noteq> 0 then flags OR 8 else flags);
           flags = (if wide AND VMM_FLAG_NX = 0 then flags OR 4 else flags)
       in Inr flags)"

definition arch_mm_get_cache_kernel :: "machine \<Rightarrow> u64 \<Rightarrow> cint result" where
  "arch_mm_get_cache_kernel s dst =
     and_then (vmm_get_entry s (kernel_pml4 s) dst) (\<lambda>e.
       let arch_flags = (ucast (e AND VMM_FLAG_MASK) :: cint);
           wide = (scast arch_flags :: u64);
           flags = (if wide AND VMM_FLAG_PAT0 \<noteq> 0 then 1 else 0 :: cint);
           flags = (if wide AND VMM_FLAG_PAT1 \<noteq> 0 then flags OR 2 else flags);
           flags = (if wide AND VMM_FLAG_PAT2 \<noteq> 0 then flags OR 4 else flags)
       in Inr flags)"

definition arch_mm_get_ctx_kernel :: "machine \<Rightarrow> u64" where
  "arch_mm_get_ctx_kernel s = kernel_pml4 s"

definition arch_mm_store_context :: "machine \<Rightarrow> machine" where
  "arch_mm_store_context s = vmm_save_context s"

definition arch_mm_switch_context :: "machine \<Rightarrow> u64 \<Rightarrow> machine" where
  "arch_mm_switch_context s ctx = vmm_set_context s ctx"

definition arch_mm_restore_context :: "machine \<Rightarrow> machine" where
  "arch_mm_restore_context s = vmm_restore_context s"

definition arch_mm_drop_context :: "machine \<Rightarrow> machine" where
  "arch_mm_drop_context s = vmm_drop_context s"

definition arch_mm_update_context_all :: "machine \<Rightarrow> machine" where
  "arch_mm_update_context_all s = vmm_set_context s (vmm_get_current_context s)"

definition arch_mm_create_context :: "elf64_phdr list option \<Rightarrow> machine \<Rightarrow> (u64 \<times> machine) result" where
  "arch_mm_create_context ehdr s = vmm_new_address_space ehdr s"

text \<open>\<open>arch_mm_destroy_context\<close>: the three nested loops.\<close>

definition destroy_pd_entry :: "u64 \<Rightarrow> machine \<Rightarrow> u64 \<Rightarrow> machine" where
  "destroy_pd_entry pd s k =
     (if table_read s pd k AND VMM_FLAG_LARGE \<noteq> 0 then s
      else if table_read s pd k AND VMM_FLAG_PRESENT \<noteq> 0 then s
      else pmm_free s (table_read s pd k AND VMM_ADDR_MASK) 1)"

definition destroy_pdp_entry :: "u64 \<Rightarrow> machine \<Rightarrow> u64 \<Rightarrow> machine" where
  "destroy_pdp_entry pdp s j =
     (if table_read s pdp j AND VMM_FLAG_PRESENT = 0 then s
      else
        let pd = table_read s pdp j AND VMM_ADDR_MASK;
            s = foldl (destroy_pd_entry pd) s (map of_nat [0..<512])
        in pmm_free s (table_read s pdp j AND VMM_ADDR_MASK) 1)"

definition destroy_pml4_entry :: "u64 \<Rightarrow> machine \<Rightarrow> u64 \<Rightarrow> machine" where
  "destroy_pml4_entry pml4 s i =
     (if table_read s pml4 i AND VMM_FLAG_PRESENT = 0 then s
      else
        let pdp = table_read s pml4 i AND VMM_ADDR_MASK;
            s = foldl (destroy_pdp_entry pdp) s (map of_nat [0..<512])
        in pmm_free s (table_read s pml4 i AND VMM_ADDR_MASK) 1)"

definition arch_mm_destroy_context :: "machine \<Rightarrow> u64 \<Rightarrow> machine" where
  "arch_mm_destroy_context s ctx =
     pmm_free (foldl (destroy_pml4_entry ctx) s (map of_nat [0..<256])) ctx 1"

text \<open>Mapping the pages of a region at \<open>copy_dst\<close> for \<open>arch_mm_mapping_load\<close> and
  \<open>arch_mm_mapping_store\<close>, and unmapping them again.\<close>

fun window_map :: "machine \<Rightarrow> memory_mapping \<Rightarrow> u64 \<Rightarrow> u64 \<Rightarrow> nat \<Rightarrow> machine result" where
  "window_map s m i virt 0 = Inr s"
| "window_map s m i virt (Suc n) =
     (if length (m_pages m) \<le> unat i then Inl OutOfBounds
      else and_then (vmm_map_pages s (kernel_pml4 s) virt (bp_ptr (m_pages m ! unat i)) 1 VMM_FLAG_WRITE) (\<lambda>s1.
        window_map s1 m (i + 1) (virt + 0x1000) n))"

fun window_unmap :: "machine \<Rightarrow> u64 \<Rightarrow> nat \<Rightarrow> machine result" where
  "window_unmap s virt 0 = Inr s"
| "window_unmap s virt (Suc n) =
     and_then (vmm_unmap_pages s (kernel_pml4 s) virt 1) (\<lambda>(_, s1). window_unmap s1 (virt + 0x1000) n)"

definition arch_mm_mapping_load :: "machine \<Rightarrow> memory_mapping \<Rightarrow> u64 \<Rightarrow> u64 \<Rightarrow> u64 \<Rightarrow> machine result" where
  "arch_mm_mapping_load s m offset data sz =
     and_then (window_map s m 0 copy_dst (unat (m_size m))) (\<lambda>s1.
     and_then (virt_memcpy s1 (copy_dst + offset) data (unat sz)) (\<lambda>s2.
       window_unmap s2 copy_dst (unat (m_size m))))"

definition arch_mm_mapping_store :: "machine \<Rightarrow> memory_mapping \<Rightarrow> u64 \<Rightarrow> u64 \<Rightarrow> u64 \<Rightarrow> machine result" where
  "arch_mm_mapping_store s m offset data sz =
     and_then (window_map s m 0 copy_dst (unat (m_size m))) (\<lambda>s1.
     and_then (virt_memcpy s1 data (copy_dst + offset) (unat sz)) (\<lambda>s2.
       window_unmap s2 copy_dst (unat (m_size m))))"

definition x86_64_mm :: "elf64_phdr list option \<Rightarrow> machine arch_mm_ops" where
  "x86_64_mm ehdr =
     \<lparr>am_alloc_phys = arch_mm_alloc_phys, am_free_phys = arch_mm_free_phys,
      am_map = arch_mm_map, am_unmap = arch_mm_unmap,
      am_create_context = arch_mm_create_context ehdr,
      am_destroy_context = (\<lambda>s ctx. Inr (arch_mm_destroy_context s ctx)),
      am_mapping_load = arch_mm_mapping_load, am_mapping_store = arch_mm_mapping_store\<rparr>"

end
