(* ===== verification/Spinlock.thy ===== *)
theory Spinlock
  imports Prelude
begin

text \<open>
  The spinlock of \<open>util/spinlock.cpp\<close>. The lock is one atomic boolean; \<open>lock()\<close> and \<open>try_lock()\<close> load it and,
  when it is clear, store true in a second access. Two models: the operations as one CPU sees them when
  nothing else runs (used by the components that take locks), and the interleaving of the loads and
  stores of several CPUs.
\<close>

section \<open>One CPU\<close>

text \<open>A lock that is set is only ever cleared by its holder. When the caller is the only code that runs, the loop
  in \<open>lock()\<close> does not end.\<close>

definition spin_lock :: "bool \<Rightarrow> bool result" where
  "spin_lock locked = (if locked then Inl Deadlock else Inr True)"

definition spin_try_lock :: "bool \<Rightarrow> bool \<times> bool" where
  "spin_try_lock locked = (if locked then (False, locked) else (True, True))"

definition spin_unlock :: "bool \<Rightarrow> bool" where
  "spin_unlock locked = False"

definition spin_swap :: "bool \<Rightarrow> bool \<Rightarrow> bool \<times> bool" where
  "spin_swap a b = (let old = b; b = a; a = old in (a, b))"

lemma spin_lock_Inr_iff [result_simps]: "spin_lock l = Inr l' \<longleftrightarrow> \<not> l \<and> l'"
  by (auto simp: spin_lock_def)

section \<open>Several CPUs\<close>

text \<open>Where a CPU is: outside, about to load or to store in \<open>lock()\<close> or in \<open>try_lock()\<close>, or past it, holding the
  lock.\<close>

datatype lock_pc = Outside | LockLoad | LockStore | TryLoad | TryStore | Holding

record lock_state =
  locked :: bool
  cpu_pc :: "nat \<Rightarrow> lock_pc"

definition at_pc :: "lock_state \<Rightarrow> nat \<Rightarrow> lock_pc \<Rightarrow> lock_state" where
  "at_pc s c p = s\<lparr>cpu_pc := (cpu_pc s)(c := p)\<rparr>"

lemma at_pc_simps [simp]:
  "locked (at_pc s c p) = locked s" "cpu_pc (at_pc s c p) = (cpu_pc s)(c := p)"
  by (simp_all add: at_pc_def)

text \<open>One atomic access of CPU \<open>c\<close>.\<close>

inductive lock_step :: "nat \<Rightarrow> lock_state \<Rightarrow> lock_state \<Rightarrow> bool" for c where
  call_lock: "cpu_pc s c = Outside \<Longrightarrow> lock_step c s (at_pc s c LockLoad)"
| lock_busy: "cpu_pc s c = LockLoad \<Longrightarrow> locked s \<Longrightarrow> lock_step c s s"
| lock_free: "cpu_pc s c = LockLoad \<Longrightarrow> \<not> locked s \<Longrightarrow> lock_step c s (at_pc s c LockStore)"
| lock_store: "cpu_pc s c = LockStore \<Longrightarrow> lock_step c s (at_pc (s\<lparr>locked := True\<rparr>) c Holding)"
| call_try: "cpu_pc s c = Outside \<Longrightarrow> lock_step c s (at_pc s c TryLoad)"
| try_busy: "cpu_pc s c = TryLoad \<Longrightarrow> locked s \<Longrightarrow> lock_step c s (at_pc s c Outside)"
| try_free: "cpu_pc s c = TryLoad \<Longrightarrow> \<not> locked s \<Longrightarrow> lock_step c s (at_pc s c TryStore)"
| try_store: "cpu_pc s c = TryStore \<Longrightarrow> lock_step c s (at_pc (s\<lparr>locked := True\<rparr>) c Holding)"
| unlock: "cpu_pc s c = Holding \<Longrightarrow> lock_step c s (at_pc (s\<lparr>locked := False\<rparr>) c Outside)"

inductive_cases lock_stepE: "lock_step c s s'"

definition new_lock :: lock_state where
  "new_lock = \<lparr>locked = False, cpu_pc = (\<lambda>_. Outside)\<rparr>"

text \<open>The states that \<open>n\<close> CPUs reach.\<close>

inductive lock_reach :: "nat \<Rightarrow> lock_state \<Rightarrow> bool" for n where
  start: "lock_reach n new_lock"
| step: "lock_reach n s \<Longrightarrow> c < n \<Longrightarrow> lock_step c s s' \<Longrightarrow> lock_reach n s'"

text \<open>The window between the load that found the lock free and the store.\<close>

definition in_window :: "lock_pc \<Rightarrow> bool" where
  "in_window p \<longleftrightarrow> p = LockStore \<or> p = TryStore"

text \<open>Runs in which no CPU moves while another one is in its window, as if load and store were one access.\<close>

inductive serial_reach :: "nat \<Rightarrow> lock_state \<Rightarrow> bool" for n where
  start: "serial_reach n new_lock"
| step: "serial_reach n s \<Longrightarrow> c < n \<Longrightarrow> (\<And>d. d \<noteq> c \<Longrightarrow> \<not> in_window (cpu_pc s d)) \<Longrightarrow> lock_step c s s' \<Longrightarrow>
    serial_reach n s'"

definition lock_inv :: "lock_state \<Rightarrow> bool" where
  "lock_inv s \<longleftrightarrow>
     (locked s \<longleftrightarrow> (\<exists>c. cpu_pc s c = Holding)) \<and>
     (\<forall>c d. cpu_pc s c = Holding \<longrightarrow> in_window (cpu_pc s d) \<or> cpu_pc s d = Holding \<longrightarrow> c = d)"

lemma in_window_simps [simp]:
  "in_window LockStore" "in_window TryStore" "\<not> in_window Outside" "\<not> in_window LockLoad" "\<not> in_window TryLoad"
  "\<not> in_window Holding"
  by (simp_all add: in_window_def)

lemma lock_inv_at:
  assumes "lock_inv s" "cpu_pc s c \<noteq> Holding" "p \<noteq> Holding" "in_window p \<longrightarrow> \<not> locked s"
  shows "lock_inv (at_pc s c p)"
  unfolding lock_inv_def
proof (intro conjI allI impI)
  show "locked (at_pc s c p) \<longleftrightarrow> (\<exists>d. cpu_pc (at_pc s c p) d = Holding)"
    using assms(1-3) by (auto simp: lock_inv_def)
next
  fix d e
  assume h: "cpu_pc (at_pc s c p) d = Holding" "in_window (cpu_pc (at_pc s c p) e) \<or> cpu_pc (at_pc s c p) e = Holding"
  then have d: "d \<noteq> c" "cpu_pc s d = Holding" using assms(3) by (auto split: if_splits)
  then have "locked s" using assms(1) by (auto simp: lock_inv_def)
  then have "e \<noteq> c" using h(2) assms(3,4) by auto
  then show "d = e" using h(2) d assms(1) unfolding lock_inv_def by auto
qed

lemma lock_inv_hold:
  assumes "lock_inv s" "in_window (cpu_pc s c)" "\<And>d. d \<noteq> c \<Longrightarrow> \<not> in_window (cpu_pc s d)"
  shows "lock_inv (at_pc (s\<lparr>locked := True\<rparr>) c Holding)"
proof -
  have "cpu_pc s d \<noteq> Holding" if "d \<noteq> c" for d using assms(1,2) that by (auto simp: lock_inv_def)
  then show ?thesis using assms(3) by (auto simp: lock_inv_def)
qed

lemma lock_inv_release:
  assumes "lock_inv s" "cpu_pc s c = Holding"
  shows "lock_inv (at_pc (s\<lparr>locked := False\<rparr>) c Outside)"
proof -
  have "cpu_pc s d \<noteq> Holding" if "d \<noteq> c" for d using assms that by (auto simp: lock_inv_def)
  then show ?thesis by (auto simp: lock_inv_def)
qed

lemma lock_inv_step:
  assumes "lock_inv s" "\<And>d. d \<noteq> c \<Longrightarrow> \<not> in_window (cpu_pc s d)" "lock_step c s s'"
  shows "lock_inv s'"
  using assms(3) assms(1,2)
  by cases (simp_all add: lock_inv_at lock_inv_hold lock_inv_release)

lemma serial_reach_inv: "serial_reach n s \<Longrightarrow> lock_inv s"
proof (induction rule: serial_reach.induct)
  case start
  show ?case by (simp add: lock_inv_def new_lock_def)
next
  case (step s c s')
  then show ?case using lock_inv_step by blast
qed

text \<open>C23. If no CPU moves between another's load and store, the spinlock is exclusive: at most one CPU holds it, and
  the flag is set exactly when one does.\<close>

theorem spinlock_exclusive:
  assumes "serial_reach n s"
  shows "(\<forall>c d. cpu_pc s c = Holding \<and> cpu_pc s d = Holding \<longrightarrow> c = d) \<and>
         (locked s \<longleftrightarrow> (\<exists>c. cpu_pc s c = Holding))"
  using serial_reach_inv [OF assms] by (auto simp: lock_inv_def)

text \<open>The load and the store of \<open>lock()\<close> are two separate accesses, so the lock is not exclusive: two CPUs that call
  \<open>lock()\<close> at the same time can both get it, and the first to leave then clears the flag under the other.\<close>

theorem spinlock_race:
  "\<exists>s s'. lock_reach 2 s \<and> cpu_pc s 0 = Holding \<and> cpu_pc s 1 = Holding \<and>
          lock_step 0 s s' \<and> cpu_pc s' 1 = Holding \<and> \<not> locked s'"
proof -
  let ?s1 = "at_pc new_lock 0 LockLoad" let ?s2 = "at_pc ?s1 1 LockLoad"
  let ?s3 = "at_pc ?s2 0 LockStore" let ?s4 = "at_pc ?s3 1 LockStore"
  let ?s5 = "at_pc (?s4\<lparr>locked := True\<rparr>) 0 Holding" let ?s6 = "at_pc (?s5\<lparr>locked := True\<rparr>) 1 Holding"
  let ?s7 = "at_pc (?s6\<lparr>locked := False\<rparr>) 0 Outside"
  have r1: "lock_reach 2 ?s1"
    by (rule lock_reach.step [OF lock_reach.start, of 0]) (simp_all add: lock_step.call_lock new_lock_def)
  have r2: "lock_reach 2 ?s2"
    by (rule lock_reach.step [OF r1, of 1]) (simp_all add: lock_step.call_lock new_lock_def)
  have r3: "lock_reach 2 ?s3"
    by (rule lock_reach.step [OF r2, of 0]) (simp_all add: lock_step.lock_free new_lock_def)
  have r4: "lock_reach 2 ?s4"
    by (rule lock_reach.step [OF r3, of 1]) (simp_all add: lock_step.lock_free new_lock_def)
  have r5: "lock_reach 2 ?s5"
    by (rule lock_reach.step [OF r4, of 0]) (simp_all add: lock_step.lock_store)
  have r6: "lock_reach 2 ?s6"
    by (rule lock_reach.step [OF r5, of 1]) (simp_all add: lock_step.lock_store)
  have "lock_step 0 ?s6 ?s7" by (rule lock_step.unlock) simp
  then show ?thesis using r6 by (intro exI [of _ ?s6] exI [of _ ?s7]) simp
qed

section \<open>A CPU on its own\<close>

text \<open>Runs of CPU \<open>c\<close> alone.\<close>

inductive alone :: "nat \<Rightarrow> lock_state \<Rightarrow> lock_state \<Rightarrow> bool" for c where
  none: "alone c s s"
| more: "alone c s s' \<Longrightarrow> lock_step c s' s'' \<Longrightarrow> alone c s s''"

lemma alone_stuck:
  assumes "alone c s s'" "cpu_pc s c = LockLoad" "locked s"
  shows "s' = s"
  using assms by (induction rule: alone.induct) (auto elim: lock_stepE)

text \<open>\<open>lock()\<close> on a free lock returns after its load and store, holding the lock; on a lock that is set, a CPU that
  runs alone never gets past the loop. The one-CPU model reports exactly the second case as a deadlock.\<close>

theorem lock_returns_iff_free:
  assumes "cpu_pc s c = LockLoad"
  shows "((\<exists>s'. alone c s s' \<and> cpu_pc s' c = Holding \<and> locked s') \<longleftrightarrow> spin_lock (locked s) = Inr True) \<and>
         (spin_lock (locked s) = Inl Deadlock \<longleftrightarrow> (\<forall>s'. alone c s s' \<longrightarrow> s' = s))"
proof (cases "locked s")
  case True
  then have "s' = s" if "alone c s s'" for s' using alone_stuck [OF that assms] by simp
  moreover have "cpu_pc s c \<noteq> Holding" using assms by simp
  ultimately show ?thesis using True by (auto simp: spin_lock_def dest: sym)
next
  case False
  let ?s1 = "at_pc s c LockStore" and ?s2 = "at_pc (s\<lparr>locked := True\<rparr>) c Holding"
  have "alone c s ?s1"
    using False assms by (intro alone.more [OF alone.none]) (rule lock_step.lock_free)
  moreover have "lock_step c ?s1 (at_pc (?s1\<lparr>locked := True\<rparr>) c Holding)" by (rule lock_step.lock_store) simp
  moreover have "at_pc (?s1\<lparr>locked := True\<rparr>) c Holding = ?s2" by (simp add: at_pc_def)
  ultimately have "alone c s ?s2" using alone.more by metis
  moreover have "locked ?s2" "cpu_pc ?s2 c = Holding" by simp_all
  moreover from this have "?s2 \<noteq> s" using False by metis
  ultimately show ?thesis using False by (auto simp: spin_lock_def)
qed

theorem spinlock_exclusive_witness:
  "\<exists>s. serial_reach 2 s \<and> cpu_pc s 1 = Holding \<and> locked s"
proof -
  let ?s1 = "at_pc new_lock 1 LockLoad" let ?s2 = "at_pc ?s1 1 LockStore"
  let ?s3 = "at_pc (?s2\<lparr>locked := True\<rparr>) 1 Holding"
  have r1: "serial_reach 2 ?s1"
    by (rule serial_reach.step [OF serial_reach.start, of 1])
       (simp_all add: lock_step.call_lock new_lock_def in_window_def)
  have r2: "serial_reach 2 ?s2"
    by (rule serial_reach.step [OF r1, of 1]) (simp_all add: lock_step.lock_free new_lock_def in_window_def)
  have r3: "serial_reach 2 ?s3"
    by (rule serial_reach.step [OF r2, of 1]) (simp_all add: lock_step.lock_store new_lock_def in_window_def)
  show ?thesis using spinlock_exclusive [OF r3] r3 by (intro exI [of _ ?s3]) simp
qed

theorem lock_returns_iff_free_witness:
  "\<exists>s'. alone 0 (at_pc new_lock 0 LockLoad) s' \<and> cpu_pc s' 0 = Holding \<and> locked s'"
  using lock_returns_iff_free [of "at_pc new_lock 0 LockLoad" 0] by (simp add: spin_lock_def new_lock_def)

end
