(* ===== verification/Heap.thy ===== *)
theory Heap
  imports Vmm Spinlock
begin

text \<open>
  The kernel heap of \<open>mm/heap.cpp\<close>: every block gets its own run of pages, followed by an unmapped one, and ends where
  the run ends; its size and its number of pages stand in the sixteen bytes before it. The functions of
  \<open>arch/mm.h\<close> it uses are a record of operations; the memory behind the heap's virtual addresses is a byte memory.
\<close>

section \<open>Data\<close>

record 's heap_ops =
  ho_alloc_phys :: "'s \<Rightarrow> u64 \<Rightarrow> u64 \<times> 's"
  ho_free_phys :: "'s \<Rightarrow> u64 \<Rightarrow> u64 \<Rightarrow> 's"
  ho_map_kernel :: "'s \<Rightarrow> u64 \<Rightarrow> u64 \<Rightarrow> u64 \<Rightarrow> cint \<Rightarrow> cint \<Rightarrow> 's result"
  ho_unmap_kernel :: "'s \<Rightarrow> u64 \<Rightarrow> u64 \<Rightarrow> 's result"
  ho_get_phys_kernel :: "'s \<Rightarrow> u64 \<Rightarrow> u64 result"

record 's kheap =
  h_lock :: bool
  h_top :: u64
  h_mem :: mem
  h_arch :: 's

definition new_heap :: "mem \<Rightarrow> 's \<Rightarrow> 's kheap" where
  "new_heap m s = \<lparr>h_lock = False, h_top = vm_heap_base, h_mem = m, h_arch = s\<rparr>"

definition x86_64_heap :: "machine heap_ops" where
  "x86_64_heap =
     \<lparr>ho_alloc_phys = arch_mm_alloc_phys, ho_free_phys = arch_mm_free_phys, ho_map_kernel = arch_mm_map_kernel,
      ho_unmap_kernel = arch_mm_unmap_kernel, ho_get_phys_kernel = arch_mm_get_phys_kernel\<rparr>"

definition vm_perm_rw :: cint where
  "vm_perm_rw = 1 OR 2"

definition vm_cache_def :: cint where
  "vm_cache_def = 0"

section \<open>Operations\<close>

text \<open>The loop of \<open>kmalloc\<close>; false when a frame is missing.\<close>

fun map_heap_pages :: "'s heap_ops \<Rightarrow> 's kheap \<Rightarrow> nat \<Rightarrow> (bool \<times> 's kheap) result" where
  "map_heap_pages A h 0 = Inr (True, h)"
| "map_heap_pages A h (Suc n) =
     (let (p, s) = ho_alloc_phys A (h_arch h) 1
      in if p = 0 then Inr (False, h\<lparr>h_arch := s\<rparr>)
         else and_then (ho_map_kernel A s (h_top h) p 1 vm_perm_rw vm_cache_def) (\<lambda>s.
           map_heap_pages A (h\<lparr>h_arch := s, h_top := h_top h + vm_page_size\<rparr>) n))"

definition kmalloc :: "'s heap_ops \<Rightarrow> 's kheap \<Rightarrow> u64 \<Rightarrow> (u64 \<times> 's kheap) result" where
  "kmalloc A h bytes =
     and_then (spin_lock (h_lock h)) (\<lambda>_.
       let bytes = (bytes + 7) div 8 * 8;
           bytes = bytes + 16;
           pages = (bytes + vm_page_size - 1) div vm_page_size;
           out = h_top h
       in and_then (map_heap_pages A h (unat pages)) (\<lambda>(b, h).
            if \<not> b then Inr (0, h)
            else
              let h = h\<lparr>h_top := h_top h + vm_page_size\<rparr>;
                  out = out + (pages * vm_page_size - bytes);
                  h = h\<lparr>h_mem := write64 (h_mem h) out (bytes - 16)\<rparr>;
                  h = h\<lparr>h_mem := write64 (h_mem h) (out + 8) pages\<rparr>
              in Inr (out + 16, h)))"

definition heap_memset :: "'s kheap \<Rightarrow> u64 \<Rightarrow> u8 \<Rightarrow> u64 \<Rightarrow> 's kheap result" where
  "heap_memset h p v n =
     (if p = 0 \<and> n \<noteq> 0 then Inl NullDeref else Inr (h\<lparr>h_mem := memset (h_mem h) p v n\<rparr>))"

definition heap_memcpy :: "'s kheap \<Rightarrow> u64 \<Rightarrow> u64 \<Rightarrow> u64 \<Rightarrow> 's kheap result" where
  "heap_memcpy h d s n =
     (if (d = 0 \<or> s = 0) \<and> n \<noteq> 0 then Inl NullDeref else Inr (h\<lparr>h_mem := memcpy (h_mem h) d s n\<rparr>))"

definition kcalloc :: "'s heap_ops \<Rightarrow> 's kheap \<Rightarrow> u64 \<Rightarrow> u64 \<Rightarrow> (u64 \<times> 's kheap) result" where
  "kcalloc A h bytes elem =
     and_then (kmalloc A h (bytes * elem)) (\<lambda>(out, h).
     and_then (heap_memset h out 0 (bytes * elem)) (\<lambda>h. Inr (out, h)))"

fun free_heap_pages :: "'s heap_ops \<Rightarrow> 's kheap \<Rightarrow> u64 \<Rightarrow> nat \<Rightarrow> 's kheap result" where
  "free_heap_pages A h cur 0 = Inr h"
| "free_heap_pages A h cur (Suc n) =
     and_then (ho_get_phys_kernel A (h_arch h) cur) (\<lambda>p.
     and_then (ho_unmap_kernel A (h_arch h) cur 1) (\<lambda>s.
       free_heap_pages A (h\<lparr>h_arch := ho_free_phys A s p 1\<rparr>) (cur + vm_page_size) n))"

definition kfree :: "'s heap_ops \<Rightarrow> 's kheap \<Rightarrow> u64 \<Rightarrow> 's kheap result" where
  "kfree A h ptr =
     and_then (spin_lock (h_lock h)) (\<lambda>_.
       let sz = read64 (h_mem h) (ptr - 16);
           req_pages = read64 (h_mem h) (ptr - 8);
           start = ptr AND NOT (vm_page_size - 1);
           sz = sz + 16;
           pages = (sz + vm_page_size - 1) div vm_page_size
       in kassert (req_pages = pages) (free_heap_pages A h start (unat pages)))"

definition krealloc :: "'s heap_ops \<Rightarrow> 's kheap \<Rightarrow> u64 \<Rightarrow> u64 \<Rightarrow> (u64 \<times> 's kheap) result" where
  "krealloc A h old s =
     and_then (kmalloc A h s) (\<lambda>(newp, h).
       if old \<noteq> 0
       then and_then (spin_lock (h_lock h)) (\<lambda>_.
              let sz = read64 (h_mem h) (old - 16)
              in and_then (heap_memcpy h newp old sz) (\<lambda>h.
                 and_then (kfree A h old) (\<lambda>h. Inr (newp, h))))
       else Inr (newp, h))"

text \<open>The allocator that the containers use, and \<open>new\<close> and \<open>delete\<close>.\<close>

definition frg_allocate :: "'s heap_ops \<Rightarrow> 's kheap \<Rightarrow> u64 \<Rightarrow> (u64 \<times> 's kheap) result" where
  "frg_allocate A h n = kmalloc A h n"

definition frg_deallocate :: "'s heap_ops \<Rightarrow> 's kheap \<Rightarrow> u64 \<Rightarrow> 's kheap result" where
  "frg_deallocate A h p = (if p \<noteq> 0 then kfree A h p else Inr h)"

definition operator_new :: "'s heap_ops \<Rightarrow> 's kheap \<Rightarrow> u64 \<Rightarrow> (u64 \<times> 's kheap) result" where
  "operator_new A h n = kmalloc A h n"

definition operator_delete :: "'s heap_ops \<Rightarrow> 's kheap \<Rightarrow> u64 \<Rightarrow> 's kheap result" where
  "operator_delete A h p = kfree A h p"

section \<open>Where a block lies\<close>

text \<open>The size of a request after rounding, and the pages it gets.\<close>

definition rounded :: "nat \<Rightarrow> nat" where
  "rounded n = (n + 7) div 8 * 8"

definition heap_pages :: "nat \<Rightarrow> nat" where
  "heap_pages n = (rounded n + 16 + 4095) div 4096"

lemma rounded_bounds: "n \<le> rounded n" "rounded n \<le> n + 7" "rounded n mod 8 = 0"
  by (auto simp: rounded_def)

lemma heap_pages_bounds: "rounded n + 16 \<le> heap_pages n * 4096" "heap_pages n * 4096 \<le> rounded n + 16 + 4095"
  using div_mult_mod_eq [of "rounded n + 16 + 4095" 4096] mod_less_divisor [of 4096 "rounded n + 16 + 4095"]
  by (simp_all add: heap_pages_def)

lemma map_heap_pages_top:
  "map_heap_pages A h n = Inr (True, h') \<Longrightarrow>
   h_top h' = h_top h + of_nat n * vm_page_size \<and> h_mem h' = h_mem h \<and> h_lock h' = h_lock h"
proof (induction n arbitrary: h)
  case (Suc n)
  obtain p s where p: "ho_alloc_phys A (h_arch h) 1 = (p, s)" by fastforce
  then have "p \<noteq> 0" using Suc.prems by (auto split: if_splits)
  then obtain s1 where "map_heap_pages A (h\<lparr>h_arch := s1, h_top := h_top h + vm_page_size\<rparr>) n = Inr (True, h')"
    using Suc.prems p by (auto simp: and_then_Inr_iff)
  from Suc.IH [OF this] show ?case by (simp add: algebra_simps)
qed simp

lemma len64: "LENGTH(64) = 64"
  by simp

lemma word_sizes:
  assumes "unat n + 2 ^ 13 < 2 ^ 64"
  shows "(n + 7) div 8 * 8 = (of_nat (rounded (unat n)) :: u64)"
    and "((of_nat (rounded (unat n)) :: u64) + 16 + vm_page_size - 1) div vm_page_size = of_nat (heap_pages (unat n))"
proof -
  have r: "rounded (unat n) + 16 + 4096 < 2 ^ 64" using rounded_bounds [of "unat n"] assms by simp
  have eqI: "w = of_nat k" if "unat w = k" for w :: u64 and k using that by auto
  have 7: "unat (n + 7) = unat n + 7" using assms unat_add_less [of n 7] by simp
  show "(n + 7) div 8 * 8 = (of_nat (rounded (unat n)) :: u64)"
  proof (rule eqI)
    have "unat ((n + 7) div 8) * unat (8 :: u64) < 2 ^ 64" using r by (simp add: unat_div 7 rounded_def)
    from unat_mult_less [OF this [folded len64]] show "unat ((n + 7) div 8 * 8) = rounded (unat n)"
      by (simp add: unat_div 7 rounded_def)
  qed
  let ?w = "(of_nat (rounded (unat n)) :: u64) + 16 + vm_page_size - 1"
  have "?w = of_nat (rounded (unat n) + 16 + 4095)" by (simp add: vm_page_size_def)
  then have "unat ?w = rounded (unat n) + 16 + 4095" using r by (simp only: unat_of_nat) simp
  then show "?w div vm_page_size = of_nat (heap_pages (unat n))"
    by (intro eqI) (simp add: unat_div heap_pages_def vm_page_size_def)
qed

lemma page_start: "unat (w AND NOT (vm_page_size - 1)) = unat w div 4096 * 4096"
proof -
  have "w AND NOT (vm_page_size - 1) = w AND NOT (mask 12)"
    by (simp add: vm_page_size_def mask_eq_exp_minus_1)
  also have "\<dots> = push_bit 12 (drop_bit 12 w)"
    by (rule bit_word_eqI) (auto simp: bit_simps)
  finally have e: "w AND NOT (vm_page_size - 1) = push_bit 12 (drop_bit 12 w)" .
  have "unat (drop_bit 12 w) = unat w div 4096" by (simp add: drop_bit_eq_div unat_div)
  moreover from this have "unat (drop_bit 12 w) * unat (4096 :: u64) < 2 ^ LENGTH(64)"
    using unat_u64_less [of w] div_times_less_eq_dividend [of "unat w" 4096] by (simp add: le_less_trans)
  ultimately show ?thesis unfolding e using unat_mult_less [of "drop_bit 12 w" 4096] by (simp add: push_bit_eq_mult)
qed

text \<open>The block that \<open>kmalloc\<close> returns: it ends with the last of its pages, and its header says so.\<close>

lemma kmalloc_block:
  assumes "kmalloc A h n = Inr (ptr, h')" "ptr \<noteq> 0" "unat (h_top h) + unat n + 2 ^ 14 < 2 ^ 64"
  defines "b \<equiv> rounded (unat n)" and "pg \<equiv> heap_pages (unat n)"
  shows "unat ptr + b = unat (h_top h) + pg * 4096" "unat ptr = unat (h_top h) + (pg * 4096 - (b + 16)) + 16"
    "h_top h' = h_top h + of_nat (Suc pg) * vm_page_size"
    "read64 (h_mem h') (ptr - 16) = of_nat b" "read64 (h_mem h') (ptr - 8) = of_nat pg" "\<not> h_lock h" "\<not> h_lock h'"
proof -
  have w: "(n + 7) div 8 * 8 = (of_nat b :: u64)"
    "((of_nat b :: u64) + 16 + vm_page_size - 1) div vm_page_size = of_nat pg"
    using word_sizes [of n] assms(3) by (simp_all add: b_def pg_def)
  have hb: "b + 16 \<le> pg * 4096" "pg * 4096 \<le> b + 16 + 4095" "b \<le> unat n + 7"
    using heap_pages_bounds [of "unat n"] rounded_bounds [of "unat n"] by (simp_all add: b_def pg_def)
  have pg: "unat (of_nat pg :: u64) = pg" using hb assms(3) by (simp add: unat_of_nat)
  let ?off = "of_nat pg * vm_page_size - (of_nat b + 16) :: u64"
  have off: "?off = of_nat (pg * 4096 - (b + 16))"
    using hb(1) by (simp add: vm_page_size_def of_nat_diff)
  define out where "out = h_top h + ?off"
  have kd: "kmalloc A h n = and_then (spin_lock (h_lock h)) (\<lambda>_. and_then (map_heap_pages A h pg) (\<lambda>(bb, h1).
      if \<not> bb then Inr (0, h1) else
      Inr (out + 16, h1\<lparr>h_top := h_top h1 + vm_page_size,
        h_mem := write64 (write64 (h_mem h1) out (of_nat b)) (out + 8) (of_nat pg)\<rparr>)))"
    unfolding kmalloc_def Let_def w pg out_def by (simp cong: if_cong)
  have lk: "\<not> h_lock h" using assms(1) unfolding kd by (auto simp: and_then_Inr_iff spin_lock_Inr_iff)
  obtain bb h1 where h1: "map_heap_pages A h pg = Inr (bb, h1)"
    using assms(1) unfolding kd by (auto simp: and_then_Inr_iff)
  have k: "kmalloc A h n = (if \<not> bb then Inr (0, h1) else
      Inr (out + 16, h1\<lparr>h_top := h_top h1 + vm_page_size,
        h_mem := write64 (write64 (h_mem h1) out (of_nat b)) (out + 8) (of_nat pg)\<rparr>))"
    unfolding kd using h1 lk by (simp add: spin_lock_def)
  then have bb: "bb" using assms(1,2) by (auto split: if_splits)
  then have p: "ptr = out + 16" and h': "h' = h1\<lparr>h_top := h_top h1 + vm_page_size,
      h_mem := write64 (write64 (h_mem h1) out (of_nat b)) (out + 8) (of_nat pg)\<rparr>"
    using assms(1) k by simp_all
  have t: "h_top h1 = h_top h + of_nat pg * vm_page_size" "h_lock h1 = h_lock h"
    using map_heap_pages_top [of A h pg h1] h1 bb by simp_all
  have uo: "unat ?off = pg * 4096 - (b + 16)" unfolding off using hb assms(3) by (simp only: unat_of_nat) simp
  have "unat out = unat (h_top h) + (pg * 4096 - (b + 16))"
    using uo hb assms(3) unat_add_less [of "h_top h" ?off] by (simp add: out_def)
  then show u: "unat ptr = unat (h_top h) + (pg * 4096 - (b + 16)) + 16"
    using hb assms(3) unat_add_less [of out 16] p by simp
  then show "unat ptr + b = unat (h_top h) + pg * 4096" using hb by simp
  show "h_top h' = h_top h + of_nat (Suc pg) * vm_page_size" using h' t by (simp add: algebra_simps)
  have ap: "apart (out + 8) out" by (simp add: apart_def)
  show "read64 (h_mem h') (ptr - 16) = of_nat b"
    using h' p by (simp add: read64_write64_apart [OF ap])
  show "read64 (h_mem h') (ptr - 8) = of_nat pg"
  proof -
    have e: "ptr - 8 = out + 8" using p by simp
    show ?thesis unfolding e h' by simp
  qed
  show "\<not> h_lock h" "\<not> h_lock h'" using lk h' t by simp_all
qed

lemma block_offset:
  assumes "b + 16 + d = pg * (4096 :: nat)" "b mod 8 = 0" "d \<le> 4095"
  shows "(b mod 4096 = 0 \<or> b mod 4096 = 4088) = (4080 \<le> d)"
proof (cases "d \<le> 4080")
  case True
  from assms(1) obtain k where "pg = Suc k" by (cases pg) auto
  then have "b = 4096 * k + (4080 - d)" using assms(1) True by simp
  then have "b mod 4096 = 4080 - d" by simp
  then show ?thesis using True by auto
next
  case False
  from assms(2) obtain c where c: "b = 8 * c" by (metis mod_eq_0_iff_dvd dvd_def)
  then have "d = 8 * (pg * 512 - c - 2)" using assms(1) by linarith
  then obtain f where f: "d = 8 * f" by blast
  then have "f = 511" using False assms(3) by arith
  then have d: "d = 4088" using f by simp
  have "2 \<le> pg" using assms(1) d by (cases pg rule: nat.exhaust; cases "pg - 1") auto
  then obtain k where "pg = k + 2" using le_Suc_ex by (metis add.commute)
  then have "b = 4096 * k + 4088" using assms(1) d by simp
  then show ?thesis using d by simp
qed



text \<open>A machine in which every page gets the same frame, for computing where blocks lie.\<close>

definition one_frame :: "unit heap_ops" where
  "one_frame =
     \<lparr>ho_alloc_phys = (\<lambda>s n. (0x2000000, s)), ho_free_phys = (\<lambda>s p n. s), ho_map_kernel = (\<lambda>s d p n fl c. Inr s),
      ho_unmap_kernel = (\<lambda>s d n. Inr s), ho_get_phys_kernel = (\<lambda>s d. Inr 0x2000000)\<rparr>"


end
