(* ===== verification/Printf.thy ===== *)
theory Printf
  imports CLib
begin

text \<open>
  Formatted output: \<open>lib/vsnprintf.cpp\<close> and \<open>lib/kmesg.cpp\<close>. The format and the output are lists of characters
  without the terminator, the variable arguments are the list of their 64-bit slots, and the string at an address is
  given by a function. A write outside the buffer for numbers and a read past the end of the format are faults.
\<close>

section \<open>Numbers\<close>

definition digits_up :: string where
  "digits_up = ''0123456789ABCDEF''"

definition digits_low :: string where
  "digits_low = ''0123456789abcdef''"

definition NUM_BUF_LEN :: nat where
  "NUM_BUF_LEN = 48"

text \<open>The first loop, which runs at least once: digits from the right, \<open>b\<close> bytes of the buffer left. It returns the bytes
  left, the padding left and the characters.\<close>

fun digit_loop :: "string \<Rightarrow> u64 \<Rightarrow> nat \<Rightarrow> u64 \<Rightarrow> cint \<Rightarrow> cint \<Rightarrow> string \<Rightarrow> nat \<times> cint \<times> string" where
  "digit_loop ds base 0 i padding len acc = (0, padding, acc)"
| "digit_loop ds base (Suc b) i padding len acc =
     (let acc = ds ! unat (i mod base) # acc;
          padding = (if padding \<noteq> 0 then padding - 1 else padding);
          len = (if 0 <s len then len - 1 else len);
          i = i div base
      in if i \<noteq> 0 \<and> (len = -1 \<or> len \<noteq> 0) \<and> b \<noteq> 0 then digit_loop ds base b i padding len acc
         else (b, padding, acc))"

fun pad_loop :: "nat \<Rightarrow> cint \<Rightarrow> char \<Rightarrow> string \<Rightarrow> nat \<times> string" where
  "pad_loop 0 padding c acc = (0, acc)"
| "pad_loop (Suc b) padding c acc = (if padding = 0 then (Suc b, acc) else pad_loop b (padding - 1) c (c # acc))"

text \<open>\<open>(signed)i\<close> is a conversion to \<open>int\<close>. The terminator takes the last byte of the buffer, so at most
  \<open>buf_len - 1\<close> characters fit in front of it.\<close>

definition num_fmt ::
  "nat \<Rightarrow> u64 \<Rightarrow> u64 \<Rightarrow> cint \<Rightarrow> char \<Rightarrow> bool \<Rightarrow> bool \<Rightarrow> cint \<Rightarrow> string result" where
  "num_fmt buf_len i base padding pad_with handle_signed upper len =
     (let neg = ((ucast i :: cint) <s 0 \<and> handle_signed);
          i = (if neg then ucast (- (ucast i :: cint)) else i);
          ds = (if upper then digits_up else digits_low);
          (b, padding, acc) = digit_loop ds base buf_len i padding len [];
          (b, acc) = pad_loop b padding pad_with acc;
          acc = (if neg \<and> b \<noteq> 0 then CHR ''-'' # acc else acc)
      in if buf_len \<le> length acc then Inl OutOfBounds else Inr acc)"

section \<open>Formats\<close>

text \<open>\<open>FMT_PUT\<close> for each character: stop at the first one for which no room is left.\<close>

fun put_chars :: "string \<Rightarrow> nat \<Rightarrow> string \<Rightarrow> bool \<times> nat \<times> string" where
  "put_chars [] len out = (True, len, out)"
| "put_chars (c # cs) len out = (if len = 0 then (False, len, out) else put_chars cs (len - 1) (out @ [c]))"

fun read_padding :: "string \<Rightarrow> cint \<Rightarrow> cint \<times> string" where
  "read_padding [] padding = (padding, [])"
| "read_padding (c # cs) padding =
     (if isdigit (of_char c) then read_padding cs (padding * 10 + (of_char c - 0x30)) else (padding, c # cs))"

fun skip_l :: "string \<Rightarrow> bool \<Rightarrow> bool \<times> string" where
  "skip_l [] wide = (wide, [])"
| "skip_l (c # cs) wide = (if c = CHR ''l'' then skip_l cs True else (wide, c # cs))"

lemma read_padding_length: "read_padding cs p = (q, r) \<Longrightarrow> length r \<le> length cs"
  by (induction cs arbitrary: p) (fastforce split: if_splits)+

lemma skip_l_length: "skip_l cs w = (v, r) \<Longrightarrow> length r \<le> length cs"
  by (induction cs arbitrary: w) (fastforce split: if_splits)+

text \<open>A conversion without its percent sign: pad character, padding, width, and the rest from the conversion character
  on.\<close>

definition read_spec :: "string \<Rightarrow> char \<times> cint \<times> bool \<times> string" where
  "read_spec fmt =
     (let (pad_with, fmt) = (case fmt of c # cs \<Rightarrow> if c = CHR ''0'' then (CHR ''0'', cs) else (CHR '' '', fmt)
                             | [] \<Rightarrow> (CHR '' '', fmt));
          (padding, fmt) = read_padding fmt 0;
          (wide, fmt) = skip_l fmt False
      in (pad_with, padding, wide, fmt))"

lemma read_spec_length: "read_spec fmt = (p, q, w, r) \<Longrightarrow> length r \<le> length fmt"
  using read_padding_length skip_l_length
  by (fastforce simp: read_spec_def split: list.splits if_splits prod.splits)

text \<open>The next argument as an \<open>int\<close> converted to \<open>uint64_t\<close>, or as a \<open>long\<close>.\<close>

definition next_arg :: "u64 list \<Rightarrow> bool \<Rightarrow> (u64 \<times> u64 list) result" where
  "next_arg args wide =
     (case args of
        [] \<Rightarrow> Inl OutOfBounds
      | a # as \<Rightarrow> Inr (if wide then a else scast (ucast a :: cint), as))"

text \<open>The characters a conversion produces.\<close>

definition conversion ::
  "(u64 \<Rightarrow> string) \<Rightarrow> char \<Rightarrow> char \<Rightarrow> cint \<Rightarrow> bool \<Rightarrow> u64 list \<Rightarrow> (string \<times> u64 list) result" where
  "conversion strs conv pad_with padding wide args =
     (let upper = (conv = CHR ''X'' \<or> conv = CHR ''P'')
      in if conv = CHR ''c'' then
           and_then (next_arg args False) (\<lambda>(i, args). Inr ([char_of (unat (ucast i :: u8))], args))
         else if conv = CHR ''d'' then
           and_then (next_arg args wide) (\<lambda>(i, args).
           and_then (num_fmt NUM_BUF_LEN i 10 padding pad_with True False (-1)) (\<lambda>cs. Inr (cs, args)))
         else if conv = CHR ''u'' then
           and_then (next_arg args wide) (\<lambda>(i, args).
           and_then (num_fmt NUM_BUF_LEN i 10 padding pad_with False False (-1)) (\<lambda>cs. Inr (cs, args)))
         else if conv = CHR ''o'' then
           and_then (next_arg args wide) (\<lambda>(i, args).
           and_then (num_fmt NUM_BUF_LEN i 8 padding pad_with False False (-1)) (\<lambda>cs. Inr (cs, args)))
         else if conv = CHR ''X'' \<or> conv = CHR ''x'' then
           and_then (next_arg args wide) (\<lambda>(i, args).
           and_then (num_fmt NUM_BUF_LEN i 16 padding pad_with False upper (if wide then 16 else 8)) (\<lambda>cs. Inr (cs, args)))
         else if conv = CHR ''P'' \<or> conv = CHR ''p'' then
           and_then (next_arg args True) (\<lambda>(i, args).
           and_then (num_fmt NUM_BUF_LEN i 16 padding pad_with False upper 16) (\<lambda>cs. Inr (cs, args)))
         else if conv = CHR ''s'' then
           and_then (next_arg args True) (\<lambda>(i, args). Inr (strs i, args))
         else if conv = CHR ''%'' then Inr (''%'', args)
         else Inr ([], args))"

function vsnprintf_loop ::
  "(u64 \<Rightarrow> string) \<Rightarrow> string \<Rightarrow> u64 list \<Rightarrow> nat \<Rightarrow> string \<Rightarrow> (nat \<times> string) result" where
  "vsnprintf_loop strs [] args len out = Inr (len, out)"
| "vsnprintf_loop strs (c # fmt) args len out =
     (if len = 0 then Inr (len, out)
      else if c \<noteq> CHR ''%'' then vsnprintf_loop strs fmt args len (out @ [c])
      else
        (case read_spec fmt of (pad_with, padding, wide, rest) \<Rightarrow>
           (case rest of
              [] \<Rightarrow> Inl OutOfBounds
            | conv # rest' \<Rightarrow>
                (case conversion strs conv pad_with padding wide args of
                   Inl e \<Rightarrow> Inl e
                 | Inr (cs, args) \<Rightarrow>
                     (case put_chars cs len out of (go, len, out) \<Rightarrow>
                        if go then vsnprintf_loop strs rest' args len out else Inr (len, out))))))"
  by pat_completeness auto
termination
  by (relation "measure (\<lambda>(strs, fmt, args, len, out). length fmt)") (auto dest: read_spec_length [OF sym])

definition vsnprintf :: "(u64 \<Rightarrow> string) \<Rightarrow> nat \<Rightarrow> string \<Rightarrow> u64 list \<Rightarrow> string result" where
  "vsnprintf strs len fmt args =
     and_then (vsnprintf_loop strs fmt args len []) (\<lambda>(len, out).
       Inr (if len = 0 then out @ ''...'' else out))"

definition snprintf :: "(u64 \<Rightarrow> string) \<Rightarrow> nat \<Rightarrow> string \<Rightarrow> u64 list \<Rightarrow> string result" where
  "snprintf strs len fmt args = vsnprintf strs len fmt args"

section \<open>Kernel messages\<close>

text \<open>\<open>kmesg\<close>: the message is formatted, prefixed with its source, and written character by character to the debug port.
  The two buffers have 1040 and 1178 bytes. Reading one as a string stops at a null character a \<open>%c\<close> has put there.\<close>

definition before_nul :: "string \<Rightarrow> string" where
  "before_nul = takeWhile (\<lambda>c. c \<noteq> CHR 0x00)"

record kmesg_state =
  km_lock :: bool
  km_out :: string

definition kmesg ::
  "(u64 \<Rightarrow> string) \<Rightarrow> kmesg_state \<Rightarrow> string \<Rightarrow> string \<Rightarrow> u64 list \<Rightarrow> kmesg_state result" where
  "kmesg strs st src fmt args =
     (if km_lock st then Inl Deadlock
      else
        and_then (vsnprintf strs 1024 fmt args) (\<lambda>fmt_buf.
          if 1040 \<le> length fmt_buf then Inl OutOfBounds
          else
            and_then (snprintf (\<lambda>a. if a = 0 then src else before_nul fmt_buf) 1162 (''%s: %s'' @ [CHR 0x0A]) [0, 1]) (\<lambda>out_buf.
              if 1178 \<le> length out_buf then Inl OutOfBounds
              else Inr (st\<lparr>km_out := km_out st @ before_nul out_buf\<rparr>))))"

section \<open>Digits\<close>

lemma ndigits_length_base: "2 \<le> b \<Longrightarrow> 0 < k \<Longrightarrow> n < b ^ k \<Longrightarrow> length (ndigits b n) \<le> k"
proof (induction k arbitrary: n)
  case (Suc k)
  show ?case
  proof (cases "n div b > 0")
    case True
    have "0 < k" using Suc.prems True by (cases k) (auto simp: div_greater_zero_iff)
    moreover have "n div b < b ^ k" using Suc.prems by (simp add: less_mult_imp_div_less mult.commute)
    ultimately have "length (ndigits b (n div b)) \<le> k" using Suc.IH Suc.prems by simp
    then show ?thesis by (subst ndigits.simps) simp
  next
    case False
    then show ?thesis by (subst ndigits.simps) simp
  qed
qed simp

lemma of_nat_cint_eq_0: "p < 2 ^ 31 \<Longrightarrow> (of_nat p :: cint) = 0 \<longleftrightarrow> p = 0"
  by (auto simp: word_of_nat_eq_0_iff dest: dvd_imp_le)

lemma digit_loop_digits:
  assumes "2 \<le> B" "B < 2 ^ 64" "p < 2 ^ 31" "length (ndigits B (unat i)) \<le> b"
  shows "digit_loop ds (of_nat B) b i (of_nat p) (-1) acc =
    (b - length (ndigits B (unat i)), of_nat (p - length (ndigits B (unat i))),
     rev (map (\<lambda>d. ds ! d) (ndigits B (unat i))) @ acc)"
  using assms(3,4)
proof (induction b arbitrary: i p acc)
  case 0
  then show ?case using ndigits_nonempty [of B "unat i"] by simp
next
  case (Suc b)
  have uB: "unat (of_nat B :: u64) = B" using assms(2) by (simp add: unat_of_nat)
  have m: "unat (i mod of_nat B) = unat i mod B" "unat (i div of_nat B) = unat i div B"
    by (simp_all add: unat_mod unat_div uB)
  have p1: "(if (of_nat p :: cint) \<noteq> 0 then of_nat p - 1 else of_nat p :: cint) = of_nat (p - 1)"
    using of_nat_cint_eq_0 [OF Suc.prems(1)] by (cases p) auto
  have z: "i div of_nat B \<noteq> 0 \<longleftrightarrow> unat i div B > 0" using m(2) by (metis neq0_conv unat_0 unat_eq_zero)
  show ?case
  proof (cases "unat i div B > 0")
    case True
    then have d: "ndigits B (unat i) = unat i mod B # ndigits B (unat (i div of_nat B))"
      using assms(1) by (subst ndigits.simps) (simp add: m)
    then have "b \<noteq> 0" using Suc.prems(2) ndigits_nonempty [of B "unat (i div of_nat B)"] by (cases b) auto
    moreover have "digit_loop ds (of_nat B) b (i div of_nat B) (of_nat (p - 1)) (-1) (ds ! (unat i mod B) # acc) =
       (b - length (ndigits B (unat (i div of_nat B))), of_nat (p - 1 - length (ndigits B (unat (i div of_nat B)))),
        rev (map (\<lambda>d. ds ! d) (ndigits B (unat (i div of_nat B)))) @ ds ! (unat i mod B) # acc)"
      using Suc.prems d by (intro Suc.IH) simp_all
    ultimately show ?thesis using True z d p1 m(1) by (simp add: Let_def word_sless_alt)
  next
    case False
    then have d: "ndigits B (unat i) = [unat i mod B]" by (subst ndigits.simps) simp
    show ?thesis using False z d p1 m(1) by (simp add: Let_def word_sless_alt)
  qed
qed

lemma pad_loop_replicate:
  "p \<le> b \<Longrightarrow> p < 2 ^ 31 \<Longrightarrow> pad_loop b (of_nat p) c acc = (b - p, replicate p c @ acc)"
proof (induction b arbitrary: p acc)
  case (Suc b)
  show ?case
  proof (cases p)
    case (Suc q)
    then have "(of_nat p :: cint) \<noteq> 0" using of_nat_cint_eq_0 [OF Suc.prems(2)] by simp
    then show ?thesis using Suc Suc.IH [of q "c # acc"] Suc.prems by (simp add: replicate_app_Cons_same)
  qed simp
qed simp

text \<open>The reference rendering of a number.\<close>

definition render :: "bool \<Rightarrow> nat \<Rightarrow> nat \<Rightarrow> string" where
  "render upper B n = rev (map (\<lambda>d. (if upper then digits_up else digits_low) ! d) (ndigits B n))"

lemma render_length: "8 \<le> B \<Longrightarrow> length (render upper B (unat (i :: u64))) \<le> 22"
proof -
  assume B: "8 \<le> B"
  have "unat i < 8 ^ 22" using unat_u64_less [of i] by simp
  also have "(8 :: nat) ^ 22 \<le> B ^ 22" using B by (rule power_mono) simp
  finally show ?thesis using ndigits_length_base [of B 22 "unat i"] B by (simp add: render_def)
qed

lemma num_fmt_loops:
  assumes "8 \<le> B" "B \<le> 16" "p \<le> 46"
  shows "(case digit_loop (if upper then digits_up else digits_low) (of_nat B) 48 i (of_nat p) (-1) [] of
      (b, padding, acc) \<Rightarrow> pad_loop b padding c acc) =
    (48 - length (render upper B (unat i)) - (p - length (render upper B (unat i))),
     replicate (p - length (render upper B (unat i))) c @ render upper B (unat i))"
proof -
  have l: "length (ndigits B (unat i)) \<le> 22" using render_length [OF assms(1), of upper i] by (simp add: render_def)
  show ?thesis
    using digit_loop_digits [of B p i 48 "if upper then digits_up else digits_low" "[]"] assms l
      pad_loop_replicate [of "p - length (ndigits B (unat i))" "48 - length (ndigits B (unat i))" c]
    by (simp add: render_def)
qed

lemma unat_abs_int: "unat (if sint n < 0 then ucast (- n) else scast n :: u64) = nat \<bar>sint (n :: cint)\<bar>"
proof (cases "sint n < 0")
  case True
  have r: "- sint n < 2 ^ 32" using sint_ge [of n] by simp
  have e: "- n = word_of_int (- sint n)" by simp
  have "uint (- n) = take_bit LENGTH(32) (- sint n)" unfolding e by (rule uint_word_of_int_eq)
  then have "uint (- n) = - sint n" using True r by (simp add: take_bit_int_eq_self)
  moreover have "uint (ucast (- n) :: u64) = uint (- n)" by (rule uint_up_ucast) (simp add: is_up)
  ultimately have "uint (ucast (- n) :: u64) = - sint n" by simp
  then have "nat (uint (ucast (- n) :: u64)) = nat (- sint n)" by (rule arg_cong)
  then show ?thesis using True by (simp only: nat_uint_eq if_True abs_of_neg)
next
  case False
  have r: "sint n < 2 ^ 32" using sint_lt [of n] by simp
  have "uint (scast n :: u64) = take_bit LENGTH(64) (sint n)" unfolding scast_eq by (rule uint_word_of_int_eq)
  then have "uint (scast n :: u64) = sint n" using False r by (simp add: take_bit_int_eq_self)
  then have "nat (uint (scast n :: u64)) = nat (sint n)" by (rule arg_cong)
  moreover have "\<bar>sint n\<bar> = sint n" using False by simp
  ultimately show ?thesis using False by (simp only: nat_uint_eq if_False)
qed

lemma num_fmt_alt:
  "num_fmt buf_len i base padding c hs upper len =
     (let neg = (ucast i :: cint) <s 0 \<and> hs; w = (if neg then ucast (- (ucast i :: cint)) else i)
      in case (case digit_loop (if upper then digits_up else digits_low) base buf_len w padding len [] of
                 (b, padding, acc) \<Rightarrow> pad_loop b padding c acc) of
           (b, acc) \<Rightarrow>
             let acc = (if neg \<and> b \<noteq> 0 then CHR ''-'' # acc else acc)
             in if buf_len \<le> length acc then Inl OutOfBounds else Inr acc)"
  by (simp add: num_fmt_def Let_def split: prod.split)


section \<open>How much is written\<close>

lemma put_chars_eq: "put_chars cs len out = (length cs \<le> len, len - length cs, out @ take len cs)"
proof (induction cs arbitrary: len out)
  case (Cons c cs)
  then show ?case by (cases len) auto
qed simp

lemma vsnprintf_loop_bound:
  "vsnprintf_loop strs fmt args len out = Inr (len', out') \<Longrightarrow> length out' + len' \<le> length out + len + length fmt"
proof (induction strs fmt args len out rule: vsnprintf_loop.induct)
  case (2 strs c fmt args len out)
  show ?case
  proof (cases "len = 0 \<or> c \<noteq> CHR ''%''")
    case True
    then show ?thesis using 2 by (auto split: if_splits)
  next
    case False
    obtain pw pd w rest where sp: "read_spec fmt = (pw, pd, w, rest)" by (cases "read_spec fmt") auto
    then obtain conv rest' where r: "rest = conv # rest'" using False 2(3) by (cases rest) auto
    obtain cs as where cv: "conversion strs conv pw pd w args = Inr (cs, as)"
      using False 2(3) sp r by (cases "conversion strs conv pw pd w args") auto
    have l: "Suc (length rest') \<le> length fmt" using read_spec_length [OF sp] r by simp
    show ?thesis
    proof (cases "length cs \<le> len")
      case True
      have "vsnprintf_loop strs rest' as (len - length cs) (out @ cs) = Inr (len', out')"
        using False 2(3) sp r cv True by (simp add: put_chars_eq)
      then have "length out' + len' \<le> length (out @ cs) + (len - length cs) + length rest'"
        using 2(2) False sp r cv True by (simp add: put_chars_eq)
      then show ?thesis using l True by simp
    next
      case none: False
      then show ?thesis using False 2(3) sp r cv by (auto simp: put_chars_eq)
    qed
  qed
qed simp


lemma vsnprintf_loop_literal:
  "CHR ''%'' \<notin> set fmt \<Longrightarrow> len \<noteq> 0 \<Longrightarrow> vsnprintf_loop strs fmt args len out = Inr (len, out @ fmt)"
  by (induction fmt arbitrary: out) auto

text \<open>The size is not respected for ordinary text: a format without conversions is copied whole, whatever its length,
  into a buffer of any non-zero size.\<close>

theorem vsnprintf_literal_overflow:
  assumes "CHR ''%'' \<notin> set fmt" "len \<noteq> 0"
  shows "vsnprintf strs len fmt args = Inr fmt"
  using vsnprintf_loop_literal [OF assms] assms(2) by (simp add: vsnprintf_def)



theorem vsnprintf_literal_overflow_witness: "vsnprintf (\<lambda>_. []) 1 ''way too long'' [] = Inr ''way too long''"
  by (rule vsnprintf_literal_overflow) simp_all

end
