(* ===== verification/Ports.thy ===== *)
theory Ports
  imports Prelude
begin

text \<open>
  Port input and output (\<open>arch/x86_64/io/port.cpp\<close>) and the interrupt controllers that are driven by it alone. What the
  kernel does to the ports is a list of accesses in order; what a read returns depends on the accesses before it and is
  given by the devices, an argument.
\<close>

datatype io_event = OutB u16 u8 | OutW u16 u16 | OutD u16 u32 | InB u16 | InW u16 | InD u16

record devices =
  dev_inb :: "io_event list \<Rightarrow> u16 \<Rightarrow> u8"
  dev_inw :: "io_event list \<Rightarrow> u16 \<Rightarrow> u16"
  dev_ind :: "io_event list \<Rightarrow> u16 \<Rightarrow> u32"

definition outb :: "io_event list \<Rightarrow> u16 \<Rightarrow> u8 \<Rightarrow> io_event list" where
  "outb io port v = io @ [OutB port v]"

definition outw :: "io_event list \<Rightarrow> u16 \<Rightarrow> u16 \<Rightarrow> io_event list" where
  "outw io port v = io @ [OutW port v]"

definition outd :: "io_event list \<Rightarrow> u16 \<Rightarrow> u32 \<Rightarrow> io_event list" where
  "outd io port v = io @ [OutD port v]"

definition inb :: "devices \<Rightarrow> io_event list \<Rightarrow> u16 \<Rightarrow> u8 \<times> io_event list" where
  "inb D io port = (dev_inb D io port, io @ [InB port])"

definition inw :: "devices \<Rightarrow> io_event list \<Rightarrow> u16 \<Rightarrow> u16 \<times> io_event list" where
  "inw D io port = (dev_inw D io port, io @ [InW port])"

definition ind :: "devices \<Rightarrow> io_event list \<Rightarrow> u16 \<Rightarrow> u32 \<times> io_event list" where
  "ind D io port = (dev_ind D io port, io @ [InD port])"

definition io_wait :: "io_event list \<Rightarrow> io_event list" where
  "io_wait io = outb io 0x80 0"

section \<open>The legacy interrupt controller\<close>

definition PIC1_COMMAND :: u16 where
  "PIC1_COMMAND = 0x20"

definition PIC1_DATA :: u16 where
  "PIC1_DATA = PIC1_COMMAND + 1"

definition PIC2_COMMAND :: u16 where
  "PIC2_COMMAND = 0xA0"

definition PIC2_DATA :: u16 where
  "PIC2_DATA = PIC2_COMMAND + 1"

definition ICW1_ICW4 :: u8 where
  "ICW1_ICW4 = 0x01"

definition ICW1_INIT :: u8 where
  "ICW1_INIT = 0x10"

definition ICW4_8086 :: u8 where
  "ICW4_8086 = 0x01"

definition pic_remap :: "io_event list \<Rightarrow> u8 \<Rightarrow> u8 \<Rightarrow> io_event list" where
  "pic_remap io offset1 offset2 =
     (let io = io_wait (outb io PIC1_COMMAND (ICW1_INIT + ICW1_ICW4));
          io = io_wait (outb io PIC2_COMMAND (ICW1_INIT + ICW1_ICW4));
          io = io_wait (outb io PIC1_DATA offset1);
          io = io_wait (outb io PIC2_DATA offset2);
          io = io_wait (outb io PIC1_DATA 4);
          io = io_wait (outb io PIC2_DATA 2);
          io = io_wait (outb io PIC1_DATA ICW4_8086);
          io = io_wait (outb io PIC2_DATA ICW4_8086);
          io = outb io PIC1_DATA 0xFF
      in outb io PIC2_DATA 0xFF)"

end
