(* ===== verification/Font.thy ===== *)
theory Font
  imports Prelude
begin

text \<open>The glyphs of \<open>genfb/font.h\<close>: sixteen bytes for each character code, one byte for each row of pixels, the leftmost pixel in
  the highest bit.\<close>

definition font_low :: "u8 list list" where
  "font_low =
    [[0, 0, 0, 0, 0, 0, 0, 0, 0, 0, 0, 0, 0, 0, 0, 0],
     [0, 0, 0, 0, 0, 0, 0, 0, 0, 0, 0, 0, 0, 0, 0, 0],
     [0, 0, 0, 0, 0, 0, 0, 0, 0, 0, 0, 0, 0, 0, 0, 0],
     [0, 0, 0, 0, 0, 0, 0, 0, 0, 0, 0, 0, 0, 0, 0, 0],
     [0, 0, 0, 0, 0, 0, 0, 0, 0, 0, 0, 0, 0, 0, 0, 0],
     [0, 0, 0, 0, 0, 0, 0, 0, 0, 0, 0, 0, 0, 0, 0, 0],
     [0, 0, 0, 0, 0, 0, 0, 0, 0, 0, 0, 0, 0, 0, 0, 0],
     [0, 0, 0, 0, 0, 0, 0, 0, 0, 0, 0, 0, 0, 0, 0, 0],
     [0, 0, 0, 0, 0, 0, 0, 0, 0, 0, 0, 0, 0, 0, 0, 0],
     [0, 0, 0, 0, 0, 0, 0, 0, 0, 0, 0, 0, 0, 0, 0, 0],
     [0, 0, 0, 0, 0, 0, 0, 0, 0, 0, 0, 0, 0, 0, 0, 0],
     [0, 0, 0, 0, 0, 0, 0, 0, 0, 0, 0, 0, 0, 0, 0, 0],
     [0, 0, 0, 0, 0, 0, 0, 0, 0, 0, 0, 0, 0, 0, 0, 0],
     [0, 0, 0, 0, 0, 0, 0, 0, 0, 0, 0, 0, 0, 0, 0, 0],
     [0, 0, 0, 0, 0, 0, 0, 0, 0, 0, 0, 0, 0, 0, 0, 0],
     [0, 0, 0, 0, 0, 0, 0, 0, 0, 0, 0, 0, 0, 0, 0, 0],
     [0, 0, 0, 0, 0, 0, 0, 0, 0, 0, 0, 0, 0, 0, 0, 0],
     [0, 0, 0, 0, 0, 0, 0, 0, 0, 0, 0, 0, 0, 0, 0, 0],
     [0, 0, 0, 0, 0, 0, 0, 0, 0, 0, 0, 0, 0, 0, 0, 0],
     [0, 0, 0, 0, 0, 0, 0, 0, 0, 0, 0, 0, 0, 0, 0, 0],
     [0, 0, 0, 0, 0, 0, 0, 0, 0, 0, 0, 0, 0, 0, 0, 0],
     [0, 0, 0, 0, 0, 0, 0, 0, 0, 0, 0, 0, 0, 0, 0, 0],
     [0, 0, 0, 0, 0, 0, 0, 0, 0, 0, 0, 0, 0, 0, 0, 0],
     [0, 0, 0, 0, 0, 0, 0, 0, 0, 0, 0, 0, 0, 0, 0, 0],
     [0, 0, 0, 0, 0, 0, 0, 0, 0, 0, 0, 0, 0, 0, 0, 0],
     [0, 0, 0, 0, 0, 0, 0, 0, 0, 0, 0, 0, 0, 0, 0, 0],
     [0, 0, 0, 0, 0, 0, 0, 0, 0, 0, 0, 0, 0, 0, 0, 0],
     [0, 0, 0, 0, 0, 0, 0, 0, 0, 0, 0, 0, 0, 0, 0, 0],
     [0, 0, 0, 0, 0, 0, 0, 0, 0, 0, 0, 0, 0, 0, 0, 0],
     [0, 0, 0, 0, 0, 0, 0, 0, 0, 0, 0, 0, 0, 0, 0, 0],
     [0, 0, 0, 0, 0, 0, 0, 0, 0, 0, 0, 0, 0, 0, 0, 0],
     [0, 0, 0, 0, 0, 0, 0, 0, 0, 0, 0, 0, 0, 0, 0, 0],
     [0, 0, 0, 0, 0, 0, 0, 0, 0, 0, 0, 0, 0, 0, 0, 0],
     [0, 0, 0, 0, 8, 8, 8, 8, 8, 8, 8, 0, 8, 8, 0, 0],
     [0, 0, 0x22, 0x22, 0x22, 0x22, 0, 0, 0, 0, 0, 0, 0, 0, 0, 0],
     [0, 0, 0, 0, 0x12, 0x12, 0x12, 0x7E, 0x24, 0x24, 0x7E, 0x48, 0x48, 0x48, 0, 0],
     [0, 0, 0, 0, 8, 0x3E, 0x49, 0x48, 0x38, 0x0E, 9, 0x49, 0x3E, 8, 0, 0],
     [0, 0, 0, 0, 0x31, 0x4A, 0x4A, 0x34, 8, 8, 0x16, 0x29, 0x29, 0x46, 0, 0],
     [0, 0, 0, 0, 0x1C, 0x22, 0x22, 0x14, 0x18, 0x29, 0x45, 0x42, 0x46, 0x39, 0, 0],
     [0, 0, 8, 8, 8, 8, 0, 0, 0, 0, 0, 0, 0, 0, 0, 0],
     [0, 0, 0, 4, 8, 8, 0x10, 0x10, 0x10, 0x10, 0x10, 0x10, 8, 8, 4, 0],
     [0, 0, 0, 0x20, 0x10, 0x10, 8, 8, 8, 8, 8, 8, 0x10, 0x10, 0x20, 0],
     [0, 0, 0, 0, 0, 0, 8, 0x49, 0x2A, 0x1C, 0x2A, 0x49, 8, 0, 0, 0],
     [0, 0, 0, 0, 0, 0, 8, 8, 8, 0x7F, 8, 8, 8, 0, 0, 0],
     [0, 0, 0, 0, 0, 0, 0, 0, 0, 0, 0, 0, 0x18, 8, 8, 0x10],
     [0, 0, 0, 0, 0, 0, 0, 0, 0, 0x3C, 0, 0, 0, 0, 0, 0],
     [0, 0, 0, 0, 0, 0, 0, 0, 0, 0, 0, 0, 0x18, 0x18, 0, 0],
     [0, 0, 0, 0, 2, 2, 4, 8, 8, 0x10, 0x10, 0x20, 0x40, 0x40, 0, 0],
     [0, 0, 0, 0, 0x18, 0x24, 0x42, 0x46, 0x4A, 0x52, 0x62, 0x42, 0x24, 0x18, 0, 0],
     [0, 0, 0, 0, 8, 0x18, 0x28, 8, 8, 8, 8, 8, 8, 0x3E, 0, 0],
     [0, 0, 0, 0, 0x3C, 0x42, 0x42, 2, 0x0C, 0x10, 0x20, 0x40, 0x40, 0x7E, 0, 0],
     [0, 0, 0, 0, 0x3C, 0x42, 0x42, 2, 0x1C, 2, 2, 0x42, 0x42, 0x3C, 0, 0],
     [0, 0, 0, 0, 4, 0x0C, 0x14, 0x24, 0x44, 0x44, 0x7E, 4, 4, 4, 0, 0],
     [0, 0, 0, 0, 0x7E, 0x40, 0x40, 0x40, 0x7C, 2, 2, 2, 0x42, 0x3C, 0, 0],
     [0, 0, 0, 0, 0x1C, 0x20, 0x40, 0x40, 0x7C, 0x42, 0x42, 0x42, 0x42, 0x3C, 0, 0],
     [0, 0, 0, 0, 0x7E, 2, 2, 4, 4, 4, 8, 8, 8, 8, 0, 0],
     [0, 0, 0, 0, 0x3C, 0x42, 0x42, 0x42, 0x3C, 0x42, 0x42, 0x42, 0x42, 0x3C, 0, 0],
     [0, 0, 0, 0, 0x3C, 0x42, 0x42, 0x42, 0x3E, 2, 2, 2, 4, 0x38, 0, 0],
     [0, 0, 0, 0, 0, 0, 0x18, 0x18, 0, 0, 0, 0x18, 0x18, 0, 0, 0],
     [0, 0, 0, 0, 0, 0, 0x18, 0x18, 0, 0, 0, 0x18, 8, 8, 0x10, 0],
     [0, 0, 0, 0, 0, 2, 4, 8, 0x10, 0x20, 0x10, 8, 4, 2, 0, 0],
     [0, 0, 0, 0, 0, 0, 0, 0x7E, 0, 0, 0, 0x7E, 0, 0, 0, 0],
     [0, 0, 0, 0, 0, 0x40, 0x20, 0x10, 8, 4, 8, 0x10, 0x20, 0x40, 0, 0],
     [0, 0, 0, 0, 0x3C, 0x42, 0x42, 2, 4, 8, 8, 0, 8, 8, 0, 0],
     [0, 0, 0, 0, 0x1C, 0x22, 0x4A, 0x56, 0x52, 0x52, 0x52, 0x4E, 0x20, 0x1E, 0, 0],
     [0, 0, 0, 0, 0x18, 0x24, 0x24, 0x42, 0x42, 0x7E, 0x42, 0x42, 0x42, 0x42, 0, 0],
     [0, 0, 0, 0, 0x7C, 0x42, 0x42, 0x42, 0x7C, 0x42, 0x42, 0x42, 0x42, 0x7C, 0, 0],
     [0, 0, 0, 0, 0x3C, 0x42, 0x42, 0x40, 0x40, 0x40, 0x40, 0x42, 0x42, 0x3C, 0, 0],
     [0, 0, 0, 0, 0x78, 0x44, 0x42, 0x42, 0x42, 0x42, 0x42, 0x42, 0x44, 0x78, 0, 0],
     [0, 0, 0, 0, 0x7E, 0x40, 0x40, 0x40, 0x7C, 0x40, 0x40, 0x40, 0x40, 0x7E, 0, 0],
     [0, 0, 0, 0, 0x7E, 0x40, 0x40, 0x40, 0x7C, 0x40, 0x40, 0x40, 0x40, 0x40, 0, 0],
     [0, 0, 0, 0, 0x3C, 0x42, 0x42, 0x40, 0x40, 0x4E, 0x42, 0x42, 0x46, 0x3A, 0, 0],
     [0, 0, 0, 0, 0x42, 0x42, 0x42, 0x42, 0x7E, 0x42, 0x42, 0x42, 0x42, 0x42, 0, 0],
     [0, 0, 0, 0, 0x3E, 8, 8, 8, 8, 8, 8, 8, 8, 0x3E, 0, 0],
     [0, 0, 0, 0, 0x1F, 4, 4, 4, 4, 4, 4, 0x44, 0x44, 0x38, 0, 0],
     [0, 0, 0, 0, 0x42, 0x44, 0x48, 0x50, 0x60, 0x60, 0x50, 0x48, 0x44, 0x42, 0, 0],
     [0, 0, 0, 0, 0x40, 0x40, 0x40, 0x40, 0x40, 0x40, 0x40, 0x40, 0x40, 0x7E, 0, 0],
     [0, 0, 0, 0, 0x42, 0x42, 0x66, 0x66, 0x5A, 0x5A, 0x42, 0x42, 0x42, 0x42, 0, 0],
     [0, 0, 0, 0, 0x42, 0x62, 0x62, 0x52, 0x52, 0x4A, 0x4A, 0x46, 0x46, 0x42, 0, 0],
     [0, 0, 0, 0, 0x3C, 0x42, 0x42, 0x42, 0x42, 0x42, 0x42, 0x42, 0x42, 0x3C, 0, 0],
     [0, 0, 0, 0, 0x7C, 0x42, 0x42, 0x42, 0x7C, 0x40, 0x40, 0x40, 0x40, 0x40, 0, 0],
     [0, 0, 0, 0, 0x3C, 0x42, 0x42, 0x42, 0x42, 0x42, 0x42, 0x5A, 0x66, 0x3C, 3, 0],
     [0, 0, 0, 0, 0x7C, 0x42, 0x42, 0x42, 0x7C, 0x48, 0x44, 0x44, 0x42, 0x42, 0, 0],
     [0, 0, 0, 0, 0x3C, 0x42, 0x42, 0x40, 0x30, 0x0C, 2, 0x42, 0x42, 0x3C, 0, 0],
     [0, 0, 0, 0, 0x7F, 8, 8, 8, 8, 8, 8, 8, 8, 8, 0, 0],
     [0, 0, 0, 0, 0x42, 0x42, 0x42, 0x42, 0x42, 0x42, 0x42, 0x42, 0x42, 0x3C, 0, 0],
     [0, 0, 0, 0, 0x41, 0x41, 0x41, 0x22, 0x22, 0x22, 0x14, 0x14, 8, 8, 0, 0],
     [0, 0, 0, 0, 0x42, 0x42, 0x42, 0x42, 0x5A, 0x5A, 0x66, 0x66, 0x42, 0x42, 0, 0],
     [0, 0, 0, 0, 0x42, 0x42, 0x24, 0x24, 0x18, 0x18, 0x24, 0x24, 0x42, 0x42, 0, 0],
     [0, 0, 0, 0, 0x41, 0x41, 0x22, 0x22, 0x14, 8, 8, 8, 8, 8, 0, 0],
     [0, 0, 0, 0, 0x7E, 2, 2, 4, 8, 0x10, 0x20, 0x40, 0x40, 0x7E, 0, 0],
     [0, 0, 0, 0x0E, 8, 8, 8, 8, 8, 8, 8, 8, 8, 8, 0x0E, 0],
     [0, 0, 0, 0, 0x40, 0x40, 0x20, 0x10, 0x10, 8, 8, 4, 2, 2, 0, 0],
     [0, 0, 0, 0x70, 0x10, 0x10, 0x10, 0x10, 0x10, 0x10, 0x10, 0x10, 0x10, 0x10, 0x70, 0],
     [0, 0, 0x18, 0x24, 0x42, 0, 0, 0, 0, 0, 0, 0, 0, 0, 0, 0],
     [0, 0, 0, 0, 0, 0, 0, 0, 0, 0, 0, 0, 0, 0, 0x7F, 0],
     [0, 0x20, 0x10, 8, 0, 0, 0, 0, 0, 0, 0, 0, 0, 0, 0, 0],
     [0, 0, 0, 0, 0, 0, 0x3C, 0x42, 2, 0x3E, 0x42, 0x42, 0x46, 0x3A, 0, 0],
     [0, 0, 0, 0x40, 0x40, 0x40, 0x5C, 0x62, 0x42, 0x42, 0x42, 0x42, 0x62, 0x5C, 0, 0],
     [0, 0, 0, 0, 0, 0, 0x3C, 0x42, 0x40, 0x40, 0x40, 0x40, 0x42, 0x3C, 0, 0],
     [0, 0, 0, 2, 2, 2, 0x3A, 0x46, 0x42, 0x42, 0x42, 0x42, 0x46, 0x3A, 0, 0],
     [0, 0, 0, 0, 0, 0, 0x3C, 0x42, 0x42, 0x7E, 0x40, 0x40, 0x42, 0x3C, 0, 0],
     [0, 0, 0, 0x0C, 0x10, 0x10, 0x10, 0x7C, 0x10, 0x10, 0x10, 0x10, 0x10, 0x10, 0, 0],
     [0, 0, 0, 0, 0, 2, 0x3A, 0x44, 0x44, 0x44, 0x38, 0x20, 0x3C, 0x42, 0x42, 0x3C],
     [0, 0, 0, 0x40, 0x40, 0x40, 0x5C, 0x62, 0x42, 0x42, 0x42, 0x42, 0x42, 0x42, 0, 0],
     [0, 0, 0, 8, 8, 0, 0x18, 8, 8, 8, 8, 8, 8, 0x3E, 0, 0],
     [0, 0, 0, 4, 4, 0, 0x0C, 4, 4, 4, 4, 4, 4, 4, 0x48, 0x30],
     [0, 0, 0, 0x40, 0x40, 0x40, 0x44, 0x48, 0x50, 0x60, 0x50, 0x48, 0x44, 0x42, 0, 0],
     [0, 0, 0, 0x18, 8, 8, 8, 8, 8, 8, 8, 8, 8, 0x3E, 0, 0],
     [0, 0, 0, 0, 0, 0, 0x76, 0x49, 0x49, 0x49, 0x49, 0x49, 0x49, 0x49, 0, 0],
     [0, 0, 0, 0, 0, 0, 0x5C, 0x62, 0x42, 0x42, 0x42, 0x42, 0x42, 0x42, 0, 0],
     [0, 0, 0, 0, 0, 0, 0x3C, 0x42, 0x42, 0x42, 0x42, 0x42, 0x42, 0x3C, 0, 0],
     [0, 0, 0, 0, 0, 0, 0x5C, 0x62, 0x42, 0x42, 0x42, 0x42, 0x62, 0x5C, 0x40, 0x40],
     [0, 0, 0, 0, 0, 0, 0x3A, 0x46, 0x42, 0x42, 0x42, 0x42, 0x46, 0x3A, 2, 2],
     [0, 0, 0, 0, 0, 0, 0x5C, 0x62, 0x42, 0x40, 0x40, 0x40, 0x40, 0x40, 0, 0],
     [0, 0, 0, 0, 0, 0, 0x3C, 0x42, 0x40, 0x30, 0x0C, 2, 0x42, 0x3C, 0, 0],
     [0, 0, 0, 0, 0x10, 0x10, 0x10, 0x7C, 0x10, 0x10, 0x10, 0x10, 0x10, 0x0C, 0, 0],
     [0, 0, 0, 0, 0, 0, 0x42, 0x42, 0x42, 0x42, 0x42, 0x42, 0x46, 0x3A, 0, 0],
     [0, 0, 0, 0, 0, 0, 0x42, 0x42, 0x42, 0x24, 0x24, 0x24, 0x18, 0x18, 0, 0],
     [0, 0, 0, 0, 0, 0, 0x41, 0x49, 0x49, 0x49, 0x49, 0x49, 0x49, 0x36, 0, 0],
     [0, 0, 0, 0, 0, 0, 0x42, 0x42, 0x24, 0x18, 0x18, 0x24, 0x42, 0x42, 0, 0],
     [0, 0, 0, 0, 0, 0, 0x42, 0x42, 0x42, 0x42, 0x42, 0x26, 0x1A, 2, 2, 0x3C],
     [0, 0, 0, 0, 0, 0, 0x7E, 2, 4, 8, 0x10, 0x20, 0x40, 0x7E, 0, 0],
     [0, 0, 0, 0x0C, 0x10, 0x10, 8, 8, 0x10, 0x20, 0x10, 8, 8, 0x10, 0x10, 0x0C],
     [0, 0, 8, 8, 8, 8, 8, 8, 8, 8, 8, 8, 8, 8, 8, 8],
     [0, 0, 0, 0x30, 8, 8, 0x10, 0x10, 8, 4, 8, 0x10, 0x10, 8, 8, 0x30],
     [0, 0, 0, 0x31, 0x49, 0x46, 0, 0, 0, 0, 0, 0, 0, 0, 0, 0],
     [0xAA, 0, 0x80, 0, 0x80, 0x73, 0xCA, 0x4B, 0xCA, 0x73, 0x80, 0, 0x80, 0, 0x80, 0x55]]"

definition font_high :: "u8 list list" where
  "font_high =
    [[0xAA, 0, 0x80, 0, 0x80, 0x71, 0xCA, 0x73, 0xC2, 0x42, 0x80, 0, 0x80, 0, 0x80, 0x55],
     [0xAA, 0, 0x80, 0, 0x80, 0x49, 0xCA, 0x7A, 0xCA, 0x49, 0x80, 0, 0x80, 0, 0x80, 0x55],
     [0xAA, 0, 0x80, 0, 0x80, 0x73, 0xCA, 0x73, 0xCA, 0x72, 0x80, 0, 0x80, 0, 0x80, 0x55],
     [0xAA, 0, 0x80, 0, 0x80, 0x4B, 0xEA, 0x5B, 0xCA, 0x4B, 0x80, 0, 0x80, 0, 0x80, 0x55],
     [0xAA, 0, 0x80, 0, 0x80, 0x74, 0xA6, 0x25, 0xA4, 0x74, 0x80, 0, 0x80, 0, 0x80, 0x55],
     [0xAA, 0, 0x80, 0, 0x80, 0x4B, 0xEA, 0x5B, 0xCA, 0x4B, 0x80, 0, 0x80, 0, 0x80, 0x55],
     [0xAA, 0, 0x80, 0, 0x80, 0x39, 0xC2, 0x31, 0x88, 0x73, 0x80, 0, 0x80, 0, 0x80, 0x55],
     [0xAA, 0, 0x80, 0, 0x80, 0x79, 0xC2, 0x79, 0xC0, 0x7B, 0x80, 0, 0x80, 0, 0x80, 0x55],
     [0xAA, 0, 0x80, 0, 0x80, 0x4B, 0xC9, 0x79, 0xC9, 0x49, 0x80, 0, 0x80, 0, 0x80, 0x55],
     [0xAA, 0, 0x80, 0, 0x80, 0x25, 0xA4, 0x3C, 0xA4, 0x24, 0x80, 0, 0x80, 0, 0x80, 0x55],
     [0xAA, 0, 0x80, 0, 0x80, 0x45, 0xC4, 0x44, 0xA8, 0x10, 0x80, 0, 0x80, 0, 0x80, 0x55],
     [0xAA, 0, 0x80, 0, 0x80, 0x72, 0xCA, 0x72, 0xC2, 0x43, 0x80, 0, 0x80, 0, 0x80, 0x55],
     [0xAA, 0, 0x80, 0, 0x80, 0x72, 0xCA, 0x72, 0xC2, 0x43, 0x80, 0, 0x80, 0, 0x80, 0x55],
     [0xAA, 0, 0x80, 0, 0x80, 0x0E, 0x89, 0x0E, 0x8A, 9, 0x80, 0, 0x80, 0, 0x80, 0x55],
     [0xAA, 0, 0x80, 0, 0x80, 0x39, 0xC2, 0x31, 0x88, 0x73, 0x80, 0, 0x80, 0, 0x80, 0x55],
     [0xAA, 0, 0x80, 0, 0x80, 0x39, 0xC2, 0x31, 0x88, 0x73, 0x80, 0, 0x80, 0, 0x80, 0x55],
     [0xAA, 0, 0x80, 0, 0x80, 0x71, 0xCA, 0x4A, 0xCA, 0x71, 0x80, 0, 0x80, 0, 0x80, 0x55],
     [0xAA, 0, 0x80, 0, 0x80, 0x72, 0xCA, 0x72, 0xC2, 0x41, 0x80, 0, 0x80, 0, 0x80, 0x55],
     [0xAA, 0, 0x80, 0, 0x80, 0x72, 0xCA, 0x72, 0xC2, 0x41, 0x80, 0, 0x80, 0, 0x80, 0x55],
     [0xAA, 0, 0x80, 0, 0x80, 0x3B, 0xC1, 0x31, 0x89, 0x71, 0x80, 0, 0x80, 0, 0x80, 0x55],
     [0xAA, 0, 0x80, 0, 0x80, 0x39, 0xC2, 0x42, 0xC2, 0x39, 0x80, 0, 0x80, 0, 0x80, 0x55],
     [0xAA, 0, 0x80, 0, 0x80, 0x22, 0xB6, 0x2A, 0xA2, 0x22, 0x80, 0, 0x80, 0, 0x80, 0x55],
     [0xAA, 0, 0x80, 0, 0x80, 0x3B, 0xC2, 0x33, 0x8A, 0x72, 0x80, 0, 0x80, 0, 0x80, 0x55],
     [0xAA, 0, 0x80, 0, 0x80, 0x7B, 0xC2, 0x7B, 0xC2, 0x7A, 0x80, 0, 0x80, 0, 0x80, 0x55],
     [0xAA, 0, 0x80, 0, 0x80, 0x39, 0xC2, 0x32, 0x8A, 0x71, 0x80, 0, 0x80, 0, 0x80, 0x55],
     [0xAA, 0, 0x80, 0, 0x80, 0x33, 0xC4, 0x25, 0x94, 0x63, 0x80, 0, 0x80, 0, 0x80, 0x55],
     [0xAA, 0, 0x80, 0, 0x80, 0x39, 0xC2, 0x32, 0x8A, 0x71, 0x80, 0, 0x80, 0, 0x80, 0x55],
     [0xAA, 0, 0x80, 0, 0x80, 0x39, 0xC2, 0x41, 0xC0, 0x3B, 0x80, 0, 0x80, 0, 0x80, 0x55],
     [0xAA, 0, 0x80, 0, 0x80, 0x0E, 0x90, 0x0C, 0x82, 0x1C, 0x80, 0, 0x80, 0, 0x80, 0x55],
     [0xAA, 0, 0x80, 0, 0x80, 0x31, 0xCA, 0x49, 0xC8, 0x33, 0x80, 0, 0x80, 0, 0x80, 0x55],
     [0xAA, 0, 0x80, 0, 0x80, 0x1C, 0x92, 0x1C, 0x90, 0x10, 0x80, 0, 0x80, 0, 0x80, 0x55],
     [0xAA, 0, 0x80, 0, 0x80, 0x33, 0xCA, 0x7B, 0xCA, 0x4A, 0x80, 0, 0x80, 0, 0x80, 0x55],
     [0, 0, 0, 0, 0, 0, 0, 0, 0, 0, 0, 0, 0, 0, 0, 0],
     [0, 0, 0, 0, 8, 8, 0, 8, 8, 8, 8, 8, 8, 8, 0, 0],
     [0, 0, 0, 0, 8, 8, 0x3E, 0x49, 0x48, 0x48, 0x49, 0x3E, 8, 8, 0, 0],
     [0, 0, 0, 0, 0x0E, 0x10, 0x10, 0x10, 0x7C, 0x10, 0x10, 0x10, 0x3E, 0x61, 0, 0],
     [0, 0, 0, 0, 0, 0x42, 0x3C, 0x24, 0x42, 0x42, 0x24, 0x3C, 0x42, 0, 0, 0],
     [0, 0, 0, 0, 0x41, 0x22, 0x14, 8, 0x7F, 8, 0x7F, 8, 8, 8, 0, 0],
     [0, 0, 0, 0, 8, 8, 8, 8, 0, 0, 8, 8, 8, 8, 0, 0],
     [0, 0, 0, 0, 0x3C, 0x42, 0x40, 0x3C, 0x42, 0x42, 0x3C, 2, 0x42, 0x3C, 0, 0],
     [0x24, 0x24, 0, 0, 0, 0, 0, 0, 0, 0, 0, 0, 0, 0, 0, 0],
     [0, 0, 0, 0, 0x3C, 0x42, 0x99, 0xA5, 0xA1, 0xA1, 0xA5, 0x99, 0x42, 0x3C, 0, 0],
     [0, 0, 0x1C, 2, 0x1E, 0x22, 0x1E, 0, 0x3E, 0, 0, 0, 0, 0, 0, 0],
     [0, 0, 0, 0, 0, 0x12, 0x12, 0x24, 0x24, 0x48, 0x24, 0x24, 0x12, 0x12, 0, 0],
     [0, 0, 0, 0, 0, 0, 0, 0, 0, 0, 0x7E, 2, 2, 2, 0, 0],
     [0xAA, 0, 0x80, 0x3A, 0xC2, 0x33, 0x8A, 0x72, 0x80, 0, 0x80, 3, 0x80, 0, 0x80, 0x55],
     [0, 0, 0, 0, 0x3C, 0x42, 0xB9, 0xA5, 0xA5, 0xB9, 0xA9, 0xA5, 0x42, 0x3C, 0, 0],
     [0, 0, 0x7E, 0, 0, 0, 0, 0, 0, 0, 0, 0, 0, 0, 0, 0],
     [0, 0, 0, 0, 0x18, 0x24, 0x24, 0x18, 0, 0, 0, 0, 0, 0, 0, 0],
     [0, 0, 0, 0, 8, 8, 8, 0x7F, 8, 8, 8, 0, 0x7F, 0, 0, 0],
     [0, 0, 0, 0x38, 0x44, 4, 0x18, 0x20, 0x40, 0x7C, 0, 0, 0, 0, 0, 0],
     [0, 0, 0, 0x38, 0x44, 4, 0x38, 4, 0x44, 0x38, 0, 0, 0, 0, 0, 0],
     [0, 4, 8, 0x10, 0, 0, 0, 0, 0, 0, 0, 0, 0, 0, 0, 0],
     [0, 0, 0, 0, 0, 0, 0x42, 0x42, 0x42, 0x42, 0x42, 0x42, 0x66, 0x59, 0x40, 0x80],
     [0, 0, 0, 0, 0x3F, 0x7A, 0x7A, 0x7A, 0x3A, 0x0A, 0x0A, 0x0A, 0x0A, 0x0A, 0x0A, 0],
     [0, 0, 0, 0, 0, 0, 0, 0, 0x18, 0x18, 0, 0, 0, 0, 0, 0],
     [0, 0, 0, 0, 0, 0, 0, 0, 0, 0, 0, 0, 0, 0, 8, 0x30],
     [0, 0, 0, 0x10, 0x30, 0x50, 0x10, 0x10, 0x10, 0x7C, 0, 0, 0, 0, 0, 0],
     [0, 0, 0x1C, 0x22, 0x22, 0x22, 0x1C, 0, 0x3E, 0, 0, 0, 0, 0, 0, 0],
     [0, 0, 0, 0, 0, 0x48, 0x48, 0x24, 0x24, 0x12, 0x24, 0x24, 0x48, 0x48, 0, 0],
     [0, 0, 0, 0, 0x22, 0x62, 0x24, 0x28, 0x28, 0x12, 0x16, 0x2A, 0x4E, 0x42, 0, 0],
     [0, 0, 0, 0, 0x22, 0x62, 0x24, 0x28, 0x28, 0x14, 0x1A, 0x22, 0x44, 0x4E, 0, 0],
     [0, 0, 0, 0, 0x62, 0x12, 0x24, 0x18, 0x68, 0x12, 0x16, 0x2A, 0x4E, 0x42, 0, 0],
     [0, 0, 0, 0, 0x10, 0x10, 0, 0x10, 0x10, 0x20, 0x40, 0x42, 0x42, 0x3C, 0, 0],
     [0x30, 0x0C, 0, 0, 0x18, 0x24, 0x24, 0x42, 0x42, 0x7E, 0x42, 0x42, 0x42, 0x42, 0, 0],
     [0x0C, 0x30, 0, 0, 0x18, 0x24, 0x24, 0x42, 0x42, 0x7E, 0x42, 0x42, 0x42, 0x42, 0, 0],
     [0x18, 0x24, 0, 0, 0x18, 0x24, 0x24, 0x42, 0x42, 0x7E, 0x42, 0x42, 0x42, 0x42, 0, 0],
     [0x32, 0x4C, 0, 0, 0x18, 0x24, 0x24, 0x42, 0x42, 0x7E, 0x42, 0x42, 0x42, 0x42, 0, 0],
     [0x24, 0x24, 0, 0, 0x18, 0x24, 0x24, 0x42, 0x42, 0x7E, 0x42, 0x42, 0x42, 0x42, 0, 0],
     [0x18, 0x24, 0x18, 0, 0x18, 0x24, 0x24, 0x42, 0x42, 0x7E, 0x42, 0x42, 0x42, 0x42, 0, 0],
     [0, 0, 0, 0, 0x1F, 0x28, 0x48, 0x48, 0x7F, 0x48, 0x48, 0x48, 0x48, 0x4F, 0, 0],
     [0, 0, 0, 0, 0x3C, 0x42, 0x42, 0x40, 0x40, 0x40, 0x40, 0x42, 0x42, 0x3C, 8, 0x30],
     [0x30, 0x0C, 0, 0, 0x7E, 0x40, 0x40, 0x40, 0x7C, 0x40, 0x40, 0x40, 0x40, 0x7E, 0, 0],
     [0x0C, 0x30, 0, 0, 0x7E, 0x40, 0x40, 0x40, 0x7C, 0x40, 0x40, 0x40, 0x40, 0x7E, 0, 0],
     [0x18, 0x24, 0, 0, 0x7E, 0x40, 0x40, 0x40, 0x7C, 0x40, 0x40, 0x40, 0x40, 0x7E, 0, 0],
     [0x24, 0x24, 0, 0, 0x7E, 0x40, 0x40, 0x40, 0x7C, 0x40, 0x40, 0x40, 0x40, 0x7E, 0, 0],
     [0x18, 6, 0, 0, 0x3E, 8, 8, 8, 8, 8, 8, 8, 8, 0x3E, 0, 0],
     [0x0C, 0x30, 0, 0, 0x3E, 8, 8, 8, 8, 8, 8, 8, 8, 0x3E, 0, 0],
     [0x18, 0x24, 0, 0, 0x3E, 8, 8, 8, 8, 8, 8, 8, 8, 0x3E, 0, 0],
     [0x24, 0x24, 0, 0, 0x3E, 8, 8, 8, 8, 8, 8, 8, 8, 0x3E, 0, 0],
     [0, 0, 0, 0, 0x78, 0x44, 0x42, 0x42, 0xF2, 0x42, 0x42, 0x42, 0x44, 0x78, 0, 0],
     [0x32, 0x4C, 0, 0, 0x42, 0x62, 0x62, 0x52, 0x52, 0x4A, 0x4A, 0x46, 0x46, 0x42, 0, 0],
     [0x30, 0x0C, 0, 0, 0x3C, 0x42, 0x42, 0x42, 0x42, 0x42, 0x42, 0x42, 0x42, 0x3C, 0, 0],
     [0x0C, 0x30, 0, 0, 0x3C, 0x42, 0x42, 0x42, 0x42, 0x42, 0x42, 0x42, 0x42, 0x3C, 0, 0],
     [0x18, 0x24, 0, 0, 0x3C, 0x42, 0x42, 0x42, 0x42, 0x42, 0x42, 0x42, 0x42, 0x3C, 0, 0],
     [0x32, 0x4C, 0, 0, 0x3C, 0x42, 0x42, 0x42, 0x42, 0x42, 0x42, 0x42, 0x42, 0x3C, 0, 0],
     [0x24, 0x24, 0, 0, 0x3C, 0x42, 0x42, 0x42, 0x42, 0x42, 0x42, 0x42, 0x42, 0x3C, 0, 0],
     [0, 0, 0, 0, 0, 0, 0, 0x42, 0x24, 0x18, 0x24, 0x42, 0, 0, 0, 0],
     [0, 0, 0, 2, 0x3A, 0x44, 0x46, 0x4A, 0x4A, 0x52, 0x52, 0x62, 0x22, 0x5C, 0x40, 0],
     [0x30, 0x0C, 0, 0, 0x42, 0x42, 0x42, 0x42, 0x42, 0x42, 0x42, 0x42, 0x42, 0x3C, 0, 0],
     [0x0C, 0x30, 0, 0, 0x42, 0x42, 0x42, 0x42, 0x42, 0x42, 0x42, 0x42, 0x42, 0x3C, 0, 0],
     [0x18, 0x24, 0, 0, 0x42, 0x42, 0x42, 0x42, 0x42, 0x42, 0x42, 0x42, 0x42, 0x3C, 0, 0],
     [0x24, 0x24, 0, 0, 0x42, 0x42, 0x42, 0x42, 0x42, 0x42, 0x42, 0x42, 0x42, 0x3C, 0, 0],
     [0x0C, 0x30, 0, 0, 0x41, 0x41, 0x22, 0x22, 0x14, 8, 8, 8, 8, 8, 0, 0],
     [0, 0, 0, 0x40, 0x40, 0x78, 0x44, 0x42, 0x42, 0x44, 0x78, 0x40, 0x40, 0x40, 0, 0],
     [0, 0, 0, 0, 0x38, 0x44, 0x44, 0x48, 0x58, 0x44, 0x42, 0x42, 0x52, 0x4C, 0, 0],
     [0, 0, 0x30, 0x0C, 0, 0, 0x3C, 0x42, 2, 0x3E, 0x42, 0x42, 0x46, 0x3A, 0, 0],
     [0, 0, 0x0C, 0x30, 0, 0, 0x3C, 0x42, 2, 0x3E, 0x42, 0x42, 0x46, 0x3A, 0, 0],
     [0, 0, 0x18, 0x24, 0, 0, 0x3C, 0x42, 2, 0x3E, 0x42, 0x42, 0x46, 0x3A, 0, 0],
     [0, 0, 0x32, 0x4C, 0, 0, 0x3C, 0x42, 2, 0x3E, 0x42, 0x42, 0x46, 0x3A, 0, 0],
     [0, 0, 0x24, 0x24, 0, 0, 0x3C, 0x42, 2, 0x3E, 0x42, 0x42, 0x46, 0x3A, 0, 0],
     [0, 0x18, 0x24, 0x18, 0, 0, 0x3C, 0x42, 2, 0x3E, 0x42, 0x42, 0x46, 0x3A, 0, 0],
     [0, 0, 0, 0, 0, 0, 0x3E, 0x49, 9, 0x3F, 0x48, 0x48, 0x49, 0x3E, 0, 0],
     [0, 0, 0, 0, 0, 0, 0x3C, 0x42, 0x40, 0x40, 0x40, 0x40, 0x42, 0x3C, 8, 0x30],
     [0, 0, 0x30, 0x0C, 0, 0, 0x3C, 0x42, 0x42, 0x7E, 0x40, 0x40, 0x42, 0x3C, 0, 0],
     [0, 0, 0x0C, 0x30, 0, 0, 0x3C, 0x42, 0x42, 0x7E, 0x40, 0x40, 0x42, 0x3C, 0, 0],
     [0, 0, 0x18, 0x24, 0, 0, 0x3C, 0x42, 0x42, 0x7E, 0x40, 0x40, 0x42, 0x3C, 0, 0],
     [0, 0, 0x24, 0x24, 0, 0, 0x3C, 0x42, 0x42, 0x7E, 0x40, 0x40, 0x42, 0x3C, 0, 0],
     [0, 0, 0x30, 0x0C, 0, 0, 0x18, 8, 8, 8, 8, 8, 8, 0x3E, 0, 0],
     [0, 0, 0x0C, 0x30, 0, 0, 0x18, 8, 8, 8, 8, 8, 8, 0x3E, 0, 0],
     [0, 0, 0x18, 0x24, 0, 0, 0x18, 8, 8, 8, 8, 8, 8, 0x3E, 0, 0],
     [0, 0, 0x24, 0x24, 0, 0, 0x18, 8, 8, 8, 8, 8, 8, 0x3E, 0, 0],
     [0, 0, 0x32, 0x0C, 0x14, 0x22, 2, 0x3E, 0x42, 0x42, 0x42, 0x42, 0x42, 0x3C, 0, 0],
     [0, 0, 0x32, 0x4C, 0, 0, 0x5C, 0x62, 0x42, 0x42, 0x42, 0x42, 0x42, 0x42, 0, 0],
     [0, 0, 0x30, 0x0C, 0, 0, 0x3C, 0x42, 0x42, 0x42, 0x42, 0x42, 0x42, 0x3C, 0, 0],
     [0, 0, 0x0C, 0x30, 0, 0, 0x3C, 0x42, 0x42, 0x42, 0x42, 0x42, 0x42, 0x3C, 0, 0],
     [0, 0, 0x18, 0x24, 0, 0, 0x3C, 0x42, 0x42, 0x42, 0x42, 0x42, 0x42, 0x3C, 0, 0],
     [0, 0, 0x32, 0x4C, 0, 0, 0x3C, 0x42, 0x42, 0x42, 0x42, 0x42, 0x42, 0x3C, 0, 0],
     [0, 0, 0x24, 0x24, 0, 0, 0x3C, 0x42, 0x42, 0x42, 0x42, 0x42, 0x42, 0x3C, 0, 0],
     [0, 0, 0, 0, 0, 0, 0x18, 0, 0, 0x7E, 0, 0, 0x18, 0, 0, 0],
     [0, 0, 0, 0, 0, 2, 0x3C, 0x46, 0x4A, 0x4A, 0x52, 0x52, 0x62, 0x3C, 0x40, 0],
     [0, 0, 0x30, 0x0C, 0, 0, 0x42, 0x42, 0x42, 0x42, 0x42, 0x42, 0x46, 0x3A, 0, 0],
     [0, 0, 0x0C, 0x30, 0, 0, 0x42, 0x42, 0x42, 0x42, 0x42, 0x42, 0x46, 0x3A, 0, 0],
     [0, 0, 0x18, 0x24, 0, 0, 0x42, 0x42, 0x42, 0x42, 0x42, 0x42, 0x46, 0x3A, 0, 0],
     [0, 0, 0x24, 0x24, 0, 0, 0x42, 0x42, 0x42, 0x42, 0x42, 0x42, 0x46, 0x3A, 0, 0],
     [0, 0, 0x0C, 0x30, 0, 0, 0x42, 0x42, 0x42, 0x42, 0x42, 0x26, 0x1A, 2, 2, 0x3C],
     [0, 0, 0, 0x40, 0x40, 0x40, 0x5C, 0x62, 0x42, 0x42, 0x42, 0x42, 0x62, 0x5C, 0x40, 0x40],
     [0, 0, 0x24, 0x24, 0, 0, 0x42, 0x42, 0x42, 0x42, 0x42, 0x26, 0x1A, 2, 2, 0x3C]]"

definition font :: "u8 list" where
  "font = concat (font_low @ font_high)"

definition char_width :: int where
  "char_width = 8"

definition char_height :: int where
  "char_height = 16"

lemma font_length [simp]: "length font = 4096"
proof -
  have "length (concat font_low) = 2048" by (simp add: font_low_def)
  moreover have "length (concat font_high) = 2048" by (simp add: font_high_def)
  ultimately show ?thesis by (simp add: font_def)
qed

end
