(* ===== verification/Cmdline.thy ===== *)
theory Cmdline
  imports Prelude
begin

text \<open>
  The kernel command line, \<open>util/cmdline.cpp\<close>. A C string is the list of its characters without the terminator, and a
  pointer into it is the rest of the string from there; \<open>strchr(p, c) + 1\<close> after a failed search is a pointer that must
  not be used, \<open>None\<close>. The copies that the code makes on the heap are values.
\<close>

section \<open>Data\<close>

record cmd_arg_t =
  arg_key :: "string option"
  arg_values :: "string list option"
  arg_value_count :: nat

record cmdline_state =
  arg_list :: "cmd_arg_t list"
  arg_count :: nat

definition null_arg :: cmd_arg_t where
  "null_arg = \<lparr>arg_key = None, arg_values = None, arg_value_count = 0\<rparr>"

definition boot_cmdline :: cmdline_state where
  "boot_cmdline = \<lparr>arg_list = [], arg_count = 0\<rparr>"

section \<open>Parsing\<close>

fun count_chars :: "string \<Rightarrow> char \<Rightarrow> nat" where
  "count_chars [] c = 0"
| "count_chars (x # xs) c = (if x = c then Suc (count_chars xs c) else count_chars xs c)"

text \<open>\<open>strchr\<close>: the rest of the string from the first occurrence on.\<close>

fun find_char :: "string \<Rightarrow> char \<Rightarrow> string option" where
  "find_char [] c = None"
| "find_char (x # xs) c = (if x = c then Some (x # xs) else find_char xs c)"

text \<open>The loop over the values of an argument.\<close>

fun parse_values :: "nat \<Rightarrow> string option \<Rightarrow> string list result" where
  "parse_values 0 param = Inr []"
| "parse_values (Suc n) None = Inl NullDeref"
| "parse_values (Suc n) (Some param) =
     (let len = (case find_char param (CHR '','') of
                   None \<Rightarrow> length param
                 | Some comma \<Rightarrow> length param - length comma);
          rest = (case find_char param (CHR '','') of None \<Rightarrow> None | Some comma \<Rightarrow> Some (tl comma))
      in and_then (parse_values n rest) (\<lambda>vs. Inr (take len param # vs)))"

definition store_arg :: "cmdline_state \<Rightarrow> cmd_arg_t \<Rightarrow> cmdline_state result" where
  "store_arg st arg =
     (if length (arg_list st) \<le> arg_count st then Inl OutOfBounds
      else Inr \<lparr>arg_list = (arg_list st)[arg_count st := arg], arg_count = Suc (arg_count st)\<rparr>)"

definition parse_arg :: "cmdline_state \<Rightarrow> string \<Rightarrow> cmdline_state result" where
  "parse_arg st str =
     (case find_char str (CHR ''='') of
        None \<Rightarrow> store_arg st \<lparr>arg_key = Some str, arg_values = None, arg_value_count = 0\<rparr>
      | Some p \<Rightarrow>
          let name = take (length str - length p) str;
              params = tl p;
              param_count = count_chars params (CHR '','') + 1
          in if params \<noteq> []
             then and_then (parse_values param_count (Some params)) (\<lambda>vs.
               store_arg st \<lparr>arg_key = Some name, arg_values = Some vs, arg_value_count = param_count\<rparr>)
             else store_arg st \<lparr>arg_key = Some name, arg_values = None, arg_value_count = 0\<rparr>)"

fun init_loop :: "nat \<Rightarrow> string option \<Rightarrow> cmdline_state \<Rightarrow> cmdline_state result" where
  "init_loop 0 c st = Inr st"
| "init_loop (Suc n) None st = Inl NullDeref"
| "init_loop (Suc n) (Some c) st =
     (if c = [] then Inr st
      else
        let len = (case find_char c (CHR '' '') of None \<Rightarrow> length c | Some sep \<Rightarrow> length c - length sep)
        in and_then (parse_arg st (take len c)) (\<lambda>st.
             init_loop n (case find_char c (CHR '' '') of None \<Rightarrow> None | Some sep \<Rightarrow> Some (tl sep)) st))"

definition cmdline_init :: "cmdline_state \<Rightarrow> string \<Rightarrow> cmdline_state result" where
  "cmdline_init st cmdline =
     (let n = count_chars cmdline (CHR '' '') + 1
      in init_loop n (Some cmdline) (st\<lparr>arg_list := replicate n null_arg\<rparr>))"

section \<open>Looking up\<close>

text \<open>The loops stop at the first argument with the name; \<open>cmdline_has_value\<close> goes through all of them.\<close>

definition arg_at :: "cmdline_state \<Rightarrow> nat \<Rightarrow> cmd_arg_t result" where
  "arg_at st i = (if length (arg_list st) \<le> i then Inl OutOfBounds else Inr (arg_list st ! i))"

definition key_matches :: "string \<Rightarrow> cmd_arg_t \<Rightarrow> bool result" where
  "key_matches name arg = (case arg_key arg of None \<Rightarrow> Inl NullDeref | Some k \<Rightarrow> Inr (name = k))"

fun find_arg :: "cmdline_state \<Rightarrow> string \<Rightarrow> nat \<Rightarrow> nat \<Rightarrow> cmd_arg_t option result" where
  "find_arg st name i 0 = Inr None"
| "find_arg st name i (Suc n) =
     and_then (arg_at st i) (\<lambda>a.
     and_then (key_matches name a) (\<lambda>b. if b then Inr (Some a) else find_arg st name (Suc i) n))"

definition cmdline_is_enabled :: "cmdline_state \<Rightarrow> string \<Rightarrow> bool result" where
  "cmdline_is_enabled st name = and_then (find_arg st name 0 (arg_count st)) (\<lambda>a. Inr (a \<noteq> None))"

definition cmdline_get_value_count :: "cmdline_state \<Rightarrow> string \<Rightarrow> nat result" where
  "cmdline_get_value_count st name =
     and_then (find_arg st name 0 (arg_count st)) (\<lambda>a. Inr (case a of None \<Rightarrow> 0 | Some a \<Rightarrow> arg_value_count a))"

definition cmdline_get_values :: "cmdline_state \<Rightarrow> string \<Rightarrow> string list option result" where
  "cmdline_get_values st name =
     and_then (find_arg st name 0 (arg_count st)) (\<lambda>a. Inr (case a of None \<Rightarrow> None | Some a \<Rightarrow> arg_values a))"

text \<open>The inner loop: the first \<open>n\<close> values.\<close>

fun value_among :: "string \<Rightarrow> string list option \<Rightarrow> nat \<Rightarrow> nat \<Rightarrow> bool result" where
  "value_among v vs j 0 = Inr False"
| "value_among v vs j (Suc n) =
     (case vs of
        None \<Rightarrow> Inl NullDeref
      | Some xs \<Rightarrow>
          if length xs \<le> j then Inl OutOfBounds
          else if v = xs ! j then Inr True else value_among v vs (Suc j) n)"

fun has_value_loop :: "cmdline_state \<Rightarrow> string \<Rightarrow> string \<Rightarrow> nat \<Rightarrow> nat \<Rightarrow> bool result" where
  "has_value_loop st name v i 0 = Inr False"
| "has_value_loop st name v i (Suc n) =
     and_then (arg_at st i) (\<lambda>a.
     and_then (key_matches name a) (\<lambda>b.
     and_then (if b then value_among v (arg_values a) 0 (arg_value_count a) else Inr False) (\<lambda>found.
       if found then Inr True else has_value_loop st name v (Suc i) n)))"

definition cmdline_has_value :: "cmdline_state \<Rightarrow> string \<Rightarrow> string \<Rightarrow> bool result" where
  "cmdline_has_value st name v = has_value_loop st name v 0 (arg_count st)"

section \<open>The reference: splitting at separators\<close>

fun split_on :: "char \<Rightarrow> string \<Rightarrow> string list" where
  "split_on c [] = [[]]"
| "split_on c (x # xs) =
     (if x = c then [] # split_on c xs
      else (case split_on c xs of [] \<Rightarrow> [[x]] | y # ys \<Rightarrow> (x # y) # ys))"

definition arg_of :: "string \<Rightarrow> cmd_arg_t" where
  "arg_of tok =
     (let name = takeWhile (\<lambda>x. x \<noteq> CHR ''='') tok;
          params = drop (Suc (length name)) tok
      in \<lparr>arg_key = Some name,
          arg_values = (if params = [] then None else Some (split_on (CHR '','') params)),
          arg_value_count = (if params = [] then 0 else length (split_on (CHR '','') params))\<rparr>)"

text \<open>The tokens of a command line: an empty last one, after a trailing space or in an empty line, is dropped.\<close>

definition tokens :: "string \<Rightarrow> string list" where
  "tokens s = (let ts = split_on (CHR '' '') s in if last ts = [] then butlast ts else ts)"

lemma split_on_nonempty [simp]: "split_on c s \<noteq> []"
  by (cases s) (simp_all split: list.split)

lemma length_split_on: "length (split_on c s) = Suc (count_chars s c)"
  by (induction s) (auto split: list.splits)

lemma find_char_None: "find_char s c = None \<Longrightarrow> split_on c s = [s] \<and> takeWhile (\<lambda>x. x \<noteq> c) s = s"
  by (induction s) (auto split: if_splits)

lemma find_char_Some:
  "find_char s c = Some p \<Longrightarrow>
     s = takeWhile (\<lambda>x. x \<noteq> c) s @ p \<and> p = c # tl p \<and> split_on c s = takeWhile (\<lambda>x. x \<noteq> c) s # split_on c (tl p)"
proof (induction s)
  case (Cons x s)
  then show ?case by (cases "x = c") (auto split: list.splits)
qed simp

lemma find_char_take:
  assumes "find_char s c = Some p"
  shows "take (length s - length p) s = takeWhile (\<lambda>x. x \<noteq> c) s" "length (tl p) < length s"
proof -
  define t where "t = takeWhile (\<lambda>x. x \<noteq> c) s"
  have t: "takeWhile (\<lambda>x. x \<noteq> c) s = t" "s = t @ p" "p = c # tl p"
    using find_char_Some [OF assms] unfolding t_def by blast+
  from t(2) show "take (length s - length p) s = takeWhile (\<lambda>x. x \<noteq> c) s" unfolding t(1) by (metis add_diff_cancel_right' append_eq_conv_conj length_append)
  show "length (tl p) < length s" using t(2) t(3) by (cases p) auto
qed

lemma parse_values_split: "parse_values (length (split_on (CHR '','') s)) (Some s) = Inr (split_on (CHR '','') s)"
proof (induction "length s" arbitrary: s rule: less_induct)
  case less
  show ?case
  proof (cases "find_char s (CHR '','')")
    case None
    then show ?thesis using find_char_None [OF None] by simp
  next
    case (Some p)
    then have "split_on (CHR '','') s = takeWhile (\<lambda>x. x \<noteq> CHR '','') s # split_on (CHR '','') (tl p)"
      using find_char_Some by blast
    then show ?thesis using less.hyps [OF find_char_take(2) [OF Some]] find_char_take(1) [OF Some] Some by simp
  qed
qed

lemma parse_arg_eq: "parse_arg st tok = store_arg st (arg_of tok)"
proof (cases "find_char tok (CHR ''='')")
  case None
  then have tw: "takeWhile (\<lambda>x. x \<noteq> CHR ''='') tok = tok" using find_char_None by blast
  show ?thesis using None unfolding parse_arg_def arg_of_def Let_def tw by simp
next
  case (Some p)
  define t where "t = takeWhile (\<lambda>x. x \<noteq> CHR ''='') tok"
  have t: "takeWhile (\<lambda>x. x \<noteq> CHR ''='') tok = t" "tok = t @ p"
    using find_char_Some [OF Some] unfolding t_def by blast+
  have d: "drop (Suc (length t)) tok = tl p" unfolding t(2) by (simp add: drop_Suc)
  show ?thesis
    unfolding arg_of_def Let_def t(1) d
    using Some find_char_take(1) [OF Some] t(1) parse_values_split [of "tl p"] length_split_on [of "CHR '',''" "tl p"]
    by (simp add: parse_arg_def Let_def)
qed

text \<open>The state after \<open>ts\<close> have been stored in an array of \<open>cap\<close> entries.\<close>

definition stored :: "nat \<Rightarrow> string list \<Rightarrow> cmdline_state" where
  "stored cap ts = \<lparr>arg_list = map arg_of ts @ replicate (cap - length ts) null_arg, arg_count = length ts\<rparr>"

lemma store_arg_stored:
  assumes "length ts < cap"
  shows "store_arg (stored cap ts) (arg_of t) = Inr (stored cap (ts @ [t]))"
proof -
  obtain k where "cap - length ts = Suc k" using assms by (metis Suc_diff_Suc)
  then show ?thesis using assms by (simp add: store_arg_def stored_def list_update_append flip: Suc_diff_Suc)
qed

lemma init_loop_tokens:
  assumes "length ts + length (split_on (CHR '' '') s) = cap"
  shows "init_loop (length (split_on (CHR '' '') s)) (Some s) (stored cap ts) = Inr (stored cap (ts @ tokens s))"
  using assms
proof (induction "length s" arbitrary: s ts rule: less_induct)
  case less
  show ?case
  proof (cases "s = []")
    case True
    then show ?thesis by (simp add: tokens_def)
  next
    case False
    show ?thesis
    proof (cases "find_char s (CHR '' '')")
      case None
      then show ?thesis
        using find_char_None [OF None] False less.prems store_arg_stored [of ts cap s]
        by (simp add: parse_arg_eq tokens_def)
    next
      case (Some p)
      let ?t = "takeWhile (\<lambda>x. x \<noteq> CHR '' '') s"
      have sp: "split_on (CHR '' '') s = ?t # split_on (CHR '' '') (tl p)" using find_char_Some [OF Some] by blast
      then have tk: "tokens s = ?t # tokens (tl p)" by (simp add: tokens_def Let_def)
      have "length (ts @ [?t]) + length (split_on (CHR '' '') (tl p)) = cap" using less.prems sp by simp
      from less.hyps [OF find_char_take(2) [OF Some] this] show ?thesis
        using sp tk False less.prems Some find_char_take(1) [OF Some] store_arg_stored [of ts cap ?t]
        by (simp add: parse_arg_eq)
    qed
  qed
qed

lemma cmdline_init_stored:
  "cmdline_init boot_cmdline s = Inr (stored (length (split_on (CHR '' '') s)) (tokens s))"
proof -
  have "boot_cmdline\<lparr>arg_list := replicate n null_arg\<rparr> = stored n []" for n by (simp add: boot_cmdline_def stored_def)
  then show ?thesis
    using init_loop_tokens [of "[]" s "length (split_on (CHR '' '') s)"]
    by (simp add: cmdline_init_def Let_def length_split_on)
qed

text \<open>C25. Parsing the command line never faults and agrees with the plain description: the line is split at spaces (an empty
  last token dropped), each token at its first equals sign, and what follows it at commas; the array has room for
  exactly the tokens that can occur.\<close>

theorem cmdline_parses:
  "cmdline_init boot_cmdline s = Inr (stored (length (split_on (CHR '' '') s)) (tokens s))"
  by (rule cmdline_init_stored)

section \<open>Looking arguments up\<close>

lemma arg_of_key: "arg_key (arg_of t) = Some (takeWhile (\<lambda>x. x \<noteq> CHR ''='') t)"
  by (simp add: arg_of_def Let_def)

lemma find_arg_stored:
  assumes "i + n = length ts"
  shows "find_arg (stored cap ts) name i n =
    Inr (find (\<lambda>a. arg_key a = Some name) (map arg_of (drop i ts)))"
  using assms
proof (induction n arbitrary: i)
  case (Suc n)
  then have i: "i < length ts" by simp
  then have d: "drop i ts = ts ! i # drop (Suc i) ts" by (simp add: Cons_nth_drop_Suc)
  have "arg_at (stored cap ts) i = Inr (arg_of (ts ! i))" using i by (simp add: arg_at_def stored_def nth_append)
  then show ?case using Suc.IH [of "Suc i"] Suc.prems by (simp add: d key_matches_def arg_of_key)
qed simp

lemma value_among_spec:
  "j + n = length xs \<Longrightarrow> value_among v (Some xs) j n = Inr (v \<in> set (drop j xs))"
proof (induction n arbitrary: j)
  case (Suc n)
  then have "drop j xs = xs ! j # drop (Suc j) xs" by (simp add: Cons_nth_drop_Suc)
  then show ?case using Suc.IH [of "Suc j"] Suc.prems by simp
qed simp

lemma value_among_arg:
  "value_among v (arg_values (arg_of t)) 0 (arg_value_count (arg_of t)) =
   Inr (\<exists>vs. arg_values (arg_of t) = Some vs \<and> v \<in> set vs)"
  using value_among_spec [of 0 "length (split_on (CHR '','') (drop (Suc (length (takeWhile (\<lambda>x. x \<noteq> CHR ''='') t))) t))"]
  by (simp add: arg_of_def Let_def)

lemma has_value_stored:
  assumes "i + n = length ts"
  shows "has_value_loop (stored cap ts) name v i n =
    Inr (\<exists>t\<in>set (drop i ts). arg_key (arg_of t) = Some name \<and> (\<exists>vs. arg_values (arg_of t) = Some vs \<and> v \<in> set vs))"
  using assms
proof (induction n arbitrary: i)
  case (Suc n)
  then have i: "i < length ts" by simp
  then have d: "drop i ts = ts ! i # drop (Suc i) ts" by (simp add: Cons_nth_drop_Suc)
  have "arg_at (stored cap ts) i = Inr (arg_of (ts ! i))" using i by (simp add: arg_at_def stored_def nth_append)
  then show ?case using Suc.IH [of "Suc i"] Suc.prems by (auto simp: d key_matches_def arg_of_key value_among_arg)
qed simp

text \<open>Looking up the parsed command line: an option is enabled when a token has its name, its values are those of the first
  such token, and it has a value when any such token lists it.\<close>

theorem cmdline_lookup:
  assumes "cmdline_init boot_cmdline s = Inr st"
  shows "cmdline_is_enabled st name = Inr (\<exists>t\<in>set (tokens s). arg_key (arg_of t) = Some name) \<and>
    cmdline_get_values st name =
      Inr (case find (\<lambda>a. arg_key a = Some name) (map arg_of (tokens s)) of None \<Rightarrow> None | Some a \<Rightarrow> arg_values a) \<and>
    cmdline_get_value_count st name =
      Inr (case find (\<lambda>a. arg_key a = Some name) (map arg_of (tokens s)) of None \<Rightarrow> 0 | Some a \<Rightarrow> arg_value_count a) \<and>
    cmdline_has_value st name v =
      Inr (\<exists>t\<in>set (tokens s). arg_key (arg_of t) = Some name \<and> (\<exists>vs. arg_values (arg_of t) = Some vs \<and> v \<in> set vs))"
proof -
  have st: "st = stored (length (split_on (CHR '' '') s)) (tokens s)" using assms cmdline_init_stored [of s] by simp
  have c: "arg_count st = length (tokens s)" by (simp add: st stored_def)
  have f: "find_arg st name 0 (arg_count st) = Inr (find (\<lambda>a. arg_key a = Some name) (map arg_of (tokens s)))"
    unfolding c unfolding st using find_arg_stored [of 0 "length (tokens s)" "tokens s"] by simp
  have "has_value_loop st name v 0 (arg_count st) =
    Inr (\<exists>t\<in>set (tokens s). arg_key (arg_of t) = Some name \<and> (\<exists>vs. arg_values (arg_of t) = Some vs \<and> v \<in> set vs))"
    unfolding c unfolding st using has_value_stored [of 0 "length (tokens s)" "tokens s"] by simp
  then show ?thesis
    using f find_None_iff [of "\<lambda>a. arg_key a = Some name" "map arg_of (tokens s)"]
    by (auto simp: cmdline_is_enabled_def cmdline_get_values_def cmdline_get_value_count_def cmdline_has_value_def)
qed

theorem cmdline_lookup_witness:
  "\<exists>st. cmdline_init boot_cmdline ''debug=serial,vga quiet'' = Inr st \<and> cmdline_is_enabled st ''quiet'' = Inr True \<and>
     cmdline_has_value st ''debug'' ''vga'' = Inr True \<and> cmdline_get_value_count st ''debug'' = Inr 2"
proof -
  have e: "cmdline_init boot_cmdline ''debug=serial,vga quiet'' =
      Inr (stored (length (split_on (CHR '' '') ''debug=serial,vga quiet'')) (tokens ''debug=serial,vga quiet''))"
    by (rule cmdline_init_stored)
  have t: "tokens ''debug=serial,vga quiet'' = [''debug=serial,vga'', ''quiet'']" by (simp add: tokens_def)
  show ?thesis
    using cmdline_lookup [OF e, of "''quiet''"] cmdline_lookup [OF e, of "''debug''" "''vga''"] e
    by (simp add: t arg_of_def)
qed

end
