(* ===== verification/Console.thy ===== *)
theory Console
  imports Ports Font Cmdline Spinlock
begin

text \<open>
  The consoles behind \<open>arch_debug_write\<close>: the text screen (\<open>arch/x86_64/io/vga.cpp\<close>), the framebuffer
  (\<open>genfb/genfb.cpp\<close>) and the choice between them and the debug port (\<open>arch/x86_64/io/debug.cpp\<close>). Positions are
  C integers, kept as mathematical ones: the invariants show that they stay far from overflow. A write outside the video
  memory or a read outside the font is a fault.
\<close>

section \<open>The text screen\<close>

definition WIDTH :: int where
  "WIDTH = 80"

definition HEIGHT :: int where
  "HEIGHT = 25"

record vga =
  vga_x :: int
  vga_y :: int
  vga_vram :: "u8 list"

definition copy_line :: "u8 list \<Rightarrow> nat \<Rightarrow> nat \<Rightarrow> u8 list" where
  "copy_line vram y1 y2 =
     fold (\<lambda>i v. v[y1 * nat WIDTH * 2 + i := v ! (y2 * nat WIDTH * 2 + i)]) [0..<nat WIDTH * 2] vram"

definition vga_init :: "devices \<Rightarrow> io_event list \<Rightarrow> vga \<times> io_event list" where
  "vga_init D io =
     (let io = outb io 0x3D4 0x0A;
          (v, io) = inb D io 0x3D5;
          io = outb io 0x3D5 ((v AND 0xC0) OR 0);
          io = outb io 0x3D4 0x0B;
          (v, io) = inb D io 0x3D5;
          io = outb io 0x3D5 ((v AND 0xE0) OR 15)
      in (\<lparr>vga_x = 0, vga_y = 0, vga_vram = replicate (nat (WIDTH * 2 * HEIGHT)) 0\<rparr>, io))"

text \<open>The two scroll loops of \<open>vga_putch\<close>, which are the same: every line takes the contents of the next, the last is
  cleared.\<close>

definition vga_scroll :: "u8 list \<Rightarrow> u8 list" where
  "vga_scroll vram =
     (let v = fold (\<lambda>j v. copy_line v j (j + 1)) [0..<nat (HEIGHT - 1)] vram;
          off = nat (WIDTH * 2 * (HEIGHT - 1))
      in take off v @ replicate 0xA0 0 @ drop (off + 0xA0) v)"

definition vga_next_line :: "vga \<Rightarrow> vga" where
  "vga_next_line st =
     (let st = st\<lparr>vga_x := 0, vga_y := vga_y st + 1\<rparr>
      in if vga_y st \<ge> HEIGHT then st\<lparr>vga_vram := vga_scroll (vga_vram st), vga_y := HEIGHT - 1\<rparr> else st)"

text \<open>The part of \<open>vga_putch\<close> for a character that is neither a newline nor a tabulator.\<close>

definition vga_put_plain :: "u8 \<Rightarrow> vga \<times> io_event list \<Rightarrow> (vga \<times> io_event list) result" where
  "vga_put_plain c s =
     (let (st, io) = s; off = (vga_y st * WIDTH + vga_x st) * 2
      in if off < 0 \<or> int (length (vga_vram st)) \<le> off + 1 then Inl OutOfBounds
         else
           let st = st\<lparr>vga_vram := (vga_vram st)[nat off := c, nat off + 1 := 0x7], vga_x := vga_x st + 1\<rparr>;
               st = (if vga_x st \<ge> WIDTH then vga_next_line st else st);
               pos = (word_of_int (vga_y st * WIDTH + vga_x st) :: u16);
               io = outb io 0x3D4 0x0F;
               io = outb io 0x3D5 (ucast (pos AND 0xFF));
               io = outb io 0x3D4 0x0E;
               io = outb io 0x3D5 (ucast (drop_bit 8 pos AND 0xFF))
           in Inr (st, io))"

fun put_times :: "nat \<Rightarrow> ('s \<Rightarrow> 's result) \<Rightarrow> 's \<Rightarrow> 's result" where
  "put_times 0 f s = Inr s"
| "put_times (Suc n) f s = and_then (f s) (put_times n f)"

definition vga_putch :: "u8 \<Rightarrow> vga \<times> io_event list \<Rightarrow> (vga \<times> io_event list) result" where
  "vga_putch c s =
     (if c = 0x0A then Inr (vga_next_line (fst s), snd s)
      else if c = 0x09 then put_times 8 (vga_put_plain 0x20) s
      else vga_put_plain c s)"

section \<open>The framebuffer\<close>

record arch_video_mode_t =
  vm_addr :: u64
  vm_pitch :: int
  vm_width :: int
  vm_height :: int
  vm_bpp :: int
  vm_red_off :: int
  vm_green_off :: int
  vm_blue_off :: int
  vm_red_size :: u32
  vm_green_size :: u32
  vm_blue_size :: u32

definition BG_COLOR :: u32 where
  "BG_COLOR = 0xF8F8F8F8"

definition FG_COLOR :: u32 where
  "FG_COLOR = 0x38383838"

record genfb =
  mode_info :: arch_video_mode_t
  vid_back :: "u32 list"
  vid_front :: "u32 list"
  disp_w :: int
  disp_h :: int
  disp_x :: int
  disp_y :: int
  is_working :: bool
  genfb_lock :: bool

text \<open>\<open>genfb_init\<close>: the back buffer from the heap and the mapped video memory, both filled with the background byte. Whether
  the heap has room for a number of bytes is an argument; when it has none, the code fills a buffer at address 0. The size of a
  mode is assumed to fit an \<open>int\<close>.\<close>

definition genfb_init :: "(int \<Rightarrow> bool) \<Rightarrow> genfb \<Rightarrow> arch_video_mode_t option \<Rightarrow> genfb result" where
  "genfb_init room g mode =
     (case mode of
        None \<Rightarrow> Inr g
      | Some m \<Rightarrow>
          if vm_bpp m \<noteq> 32 then Inr g
          else if \<not> room (vm_height m * vm_pitch m) then Inl NullDeref
          else
            let words = nat (vm_height m * vm_pitch m) div 4
            in Inr (g\<lparr>mode_info := m, disp_w := vm_width m div char_width, disp_h := vm_height m div char_height,
                 vid_back := replicate words BG_COLOR, vid_front := replicate words BG_COLOR, is_working := True\<rparr>))"

definition put_pixel :: "int \<Rightarrow> u32 \<Rightarrow> genfb \<Rightarrow> genfb result" where
  "put_pixel off col g =
     (if off < 0 \<or> int (length (vid_back g)) \<le> off \<or> int (length (vid_front g)) \<le> off then Inl OutOfBounds
      else Inr (g\<lparr>vid_front := (vid_front g)[nat off := col], vid_back := (vid_back g)[nat off := col]\<rparr>))"

text \<open>The inner loop of \<open>genfb_putch_internal\<close> from pixel \<open>x\<close> on, \<open>n\<close> pixels left.\<close>

fun put_row :: "u8 \<Rightarrow> u32 \<Rightarrow> u32 \<Rightarrow> nat \<Rightarrow> nat \<Rightarrow> int \<Rightarrow> genfb \<Rightarrow> genfb result" where
  "put_row byte fg bg x 0 off g = Inr g"
| "put_row byte fg bg x (Suc n) off g =
     (let mask = push_bit (7 - x) 1; col = (if byte AND mask = 0 then bg else fg)
      in and_then (put_pixel off col g) (put_row byte fg bg (Suc x) n (off + 1)))"

fun put_rows :: "u64 \<Rightarrow> u32 \<Rightarrow> u32 \<Rightarrow> nat \<Rightarrow> nat \<Rightarrow> int \<Rightarrow> genfb \<Rightarrow> genfb result" where
  "put_rows font_off fg bg y 0 fb_off g = Inr g"
| "put_rows font_off fg bg y (Suc n) fb_off g =
     (let i = unat (font_off + of_nat y)
      in if length font \<le> i then Inl OutOfBounds
         else and_then (put_row (font ! i) fg bg 0 (nat char_width) fb_off g)
                (put_rows font_off fg bg (Suc y) n (fb_off + vm_pitch (mode_info g) div 4)))"

text \<open>The character is a signed \<open>char\<close>, converted to \<open>size_t\<close> with its sign.\<close>

definition genfb_putch_internal :: "u8 \<Rightarrow> int \<Rightarrow> int \<Rightarrow> u32 \<Rightarrow> u32 \<Rightarrow> genfb \<Rightarrow> genfb result" where
  "genfb_putch_internal c x y fg bg g =
     (let font_off = (scast c * of_int char_height * of_int char_width :: u64) div 8;
          fb_off = (x * 4 + y * vm_pitch (mode_info g)) div 4
      in put_rows font_off fg bg 0 (nat char_height) fb_off g)"

text \<open>\<open>genfb_scroll_up\<close>: everything but the first line of characters moves up in the back buffer (a copy from higher to
  lower addresses, so it may overlap), the last line is cleared, and the result is copied to the screen. The plain and
  the fast copy do the same.\<close>

definition genfb_scroll_up :: "genfb \<Rightarrow> genfb result" where
  "genfb_scroll_up g =
     (let m = mode_info g
      in if vm_height m < char_height then Inl OutOfBounds
         else
           let k = nat (vm_pitch m * char_height) div 4;
               n = nat (vm_pitch m * (vm_height m - char_height)) div 4;
               all = nat (vm_height m * vm_pitch m) div 4;
               back = take n (drop k (vid_back g)) @ drop n (vid_back g);
               back = take n back @ replicate k BG_COLOR @ drop (n + k) back
           in Inr (g\<lparr>vid_back := back, vid_front := take all back @ drop all (vid_front g)\<rparr>))"

definition genfb_next_line :: "genfb \<Rightarrow> genfb result" where
  "genfb_next_line g =
     (let g = g\<lparr>disp_x := 0, disp_y := disp_y g + 1\<rparr>
      in if disp_y g \<ge> disp_h g
         then and_then (genfb_scroll_up g) (\<lambda>g. Inr (g\<lparr>disp_y := disp_h g - 1\<rparr>))
         else Inr g)"

definition genfb_putch :: "u8 \<Rightarrow> genfb \<Rightarrow> genfb result" where
  "genfb_putch c g =
     and_then (spin_lock (genfb_lock g)) (\<lambda>l.
       if \<not> is_working g then Inr g
       else if c = 0x0A then genfb_next_line g
       else
         and_then (if c = 0x09 then Inr (g\<lparr>disp_x := disp_x g + 8\<rparr>)
                   else and_then (genfb_putch_internal c (disp_x g * char_width) (disp_y g * char_height) FG_COLOR BG_COLOR g)
                          (\<lambda>g. Inr (g\<lparr>disp_x := disp_x g + 1\<rparr>))) (\<lambda>g.
           if disp_x g \<ge> disp_w g then genfb_next_line g else Inr g))"

section \<open>The debug console\<close>

record console =
  con_io :: "io_event list"
  con_vga :: vga
  con_fb :: genfb
  debug_port_exists :: int
  use_debug_port :: bool
  use_vga_con :: bool
  use_fb_con :: bool

definition debugcon_init ::
  "(int \<Rightarrow> bool) \<Rightarrow> cmdline_state \<Rightarrow> console \<Rightarrow> arch_video_mode_t option \<Rightarrow> console result" where
  "debugcon_init room cl c v =
     and_then (cmdline_has_value cl ''debugcon'' ''e9'') (\<lambda>e9.
     and_then (cmdline_has_value cl ''debugcon'' ''vga'') (\<lambda>vga.
     and_then (cmdline_has_value cl ''debugcon'' ''fb'') (\<lambda>fb.
     and_then (if fb then genfb_init room (con_fb c) v else Inr (con_fb c)) (\<lambda>g.
       Inr (c\<lparr>use_debug_port := e9, use_vga_con := vga, use_fb_con := fb, con_fb := g\<rparr>)))))"

definition debug_port_write :: "devices \<Rightarrow> u8 \<Rightarrow> console \<Rightarrow> console" where
  "debug_port_write D ch c =
     (if \<not> use_debug_port c then c
      else
        let c = (if debug_port_exists c = -1
                 then (let (v, io) = inb D (con_io c) 0xE9
                       in c\<lparr>con_io := io, debug_port_exists := (if v = 0xE9 then 1 else 0)\<rparr>)
                 else c)
        in if debug_port_exists c \<noteq> 0 then c\<lparr>con_io := outb (con_io c) 0xE9 ch\<rparr> else c)"

definition arch_debug_write :: "devices \<Rightarrow> u8 \<Rightarrow> console \<Rightarrow> console result" where
  "arch_debug_write D ch c =
     (let c = debug_port_write D ch c
      in and_then (if use_vga_con c
                   then and_then (vga_putch ch (con_vga c, con_io c)) (\<lambda>(v, io). Inr (c\<lparr>con_vga := v, con_io := io\<rparr>))
                   else Inr c) (\<lambda>c.
         if use_fb_con c
         then and_then (genfb_putch ch (con_fb c)) (\<lambda>g. Inr (c\<lparr>con_fb := g\<rparr>))
         else Inr c))"

section \<open>Scrolling\<close>

lemma fold_copy:
  assumes "a + n \<le> b" "b + n \<le> length v"
  shows "length (fold (\<lambda>i v. v[a + i := v ! (b + i)]) [0..<n] v) = length v \<and>
    (\<forall>k<length v. fold (\<lambda>i v. v[a + i := v ! (b + i)]) [0..<n] v ! k =
       (if a \<le> k \<and> k < a + n then v ! (b + (k - a)) else v ! k))"
  using assms
proof (induction n)
  case (Suc n)
  let ?w = "fold (\<lambda>i v. v[a + i := v ! (b + i)]) [0..<n] v"
  have ih: "length ?w = length v" "\<forall>k<length v. ?w ! k = (if a \<le> k \<and> k < a + n then v ! (b + (k - a)) else v ! k)"
    using Suc by auto
  have "?w ! (b + n) = v ! (b + n)" using ih(2) Suc.prems by simp
  then show ?case using ih Suc.prems by (auto simp: nth_list_update less_Suc_eq)
qed auto

lemma copy_line_nth:
  assumes "length v = 4000" "y < 24"
  shows "length (copy_line v y (y + 1)) = 4000 \<and>
    (\<forall>k<4000. copy_line v y (y + 1) ! k = (if y * 160 \<le> k \<and> k < y * 160 + 160 then v ! (k + 160) else v ! k))"
proof -
  have b: "y * 160 + 160 \<le> (y + 1) * 160" "(y + 1) * 160 + 160 \<le> length v" using assms by simp_all
  have "copy_line v y (y + 1) = fold (\<lambda>i v. v[y * 160 + i := v ! ((y + 1) * 160 + i)]) [0..<160] v"
    by (simp add: copy_line_def WIDTH_def mult.assoc)
  then show ?thesis using fold_copy [OF b] assms(1) by (auto simp: algebra_simps)
qed

lemma scroll_lines:
  assumes "length v = 4000" "m \<le> 24"
  shows "length (fold (\<lambda>j v. copy_line v j (j + 1)) [0..<m] v) = 4000 \<and>
    (\<forall>k<4000. fold (\<lambda>j v. copy_line v j (j + 1)) [0..<m] v ! k = (if k < m * 160 then v ! (k + 160) else v ! k))"
  using assms(2)
proof (induction m)
  case (Suc m)
  let ?w = "fold (\<lambda>j v. copy_line v j (j + 1)) [0..<m] v"
  have ih: "length ?w = 4000" "\<forall>k<4000. ?w ! k = (if k < m * 160 then v ! (k + 160) else v ! k)" using Suc by simp_all
  have m: "m < 24" using Suc.prems by simp
  note c = copy_line_nth [OF ih(1) m]
  have "copy_line ?w m (m + 1) ! k = (if k < Suc m * 160 then v ! (k + 160) else v ! k)" if k: "k < 4000" for k
  proof (cases "m * 160 \<le> k \<and> k < m * 160 + 160")
    case True
    then have "k + 160 < 4000" "\<not> k + 160 < m * 160" using m by auto
    then show ?thesis using c k True ih(2) by simp
  next
    case False
    then show ?thesis using c k ih(2) by auto
  qed
  then show ?case using c by simp
qed (simp add: assms(1))

text \<open>Scrolling drops the first line and appends an empty one.\<close>

lemma vga_scroll_eq:
  assumes "length v = 4000"
  shows "vga_scroll v = drop 160 v @ replicate 160 0"
proof -
  define w where "w = fold (\<lambda>j v. copy_line v j (j + 1)) [0..<24] v"
  have w: "length w = 4000" "\<forall>k<4000. w ! k = (if k < 3840 then v ! (k + 160) else v ! k)"
    using scroll_lines [OF assms, of 24] by (simp_all add: w_def)
  have e: "vga_scroll v = take 3840 w @ replicate 160 0"
    using w(1) by (simp add: vga_scroll_def w_def HEIGHT_def WIDTH_def)
  have "take 3840 w = drop 160 v"
    using w assms by (intro nth_equalityI) (auto simp: add.commute)
  then show ?thesis unfolding e by simp
qed

section \<open>The text screen stays consistent\<close>

definition vga_ok :: "vga \<Rightarrow> bool" where
  "vga_ok st \<longleftrightarrow> 0 \<le> vga_x st \<and> vga_x st < WIDTH \<and> 0 \<le> vga_y st \<and> vga_y st < HEIGHT \<and>
     length (vga_vram st) = nat (WIDTH * 2 * HEIGHT)"

lemma vga_init_ok: "vga_ok (fst (vga_init D io))"
  by (simp add: vga_init_def vga_ok_def WIDTH_def HEIGHT_def split: prod.splits)

lemma vga_next_line_ok:
  assumes "0 \<le> vga_y st" "vga_y st < HEIGHT" "length (vga_vram st) = nat (WIDTH * 2 * HEIGHT)"
  shows "vga_ok (vga_next_line st)"
  using assms by (simp add: vga_next_line_def vga_ok_def Let_def vga_scroll_eq WIDTH_def HEIGHT_def)

lemma vga_off:
  assumes "vga_ok st"
  shows "0 \<le> (vga_y st * WIDTH + vga_x st) * 2" "nat ((vga_y st * WIDTH + vga_x st) * 2) + 2 \<le> length (vga_vram st)"
  using assms by (auto simp: vga_ok_def WIDTH_def HEIGHT_def nat_le_iff)

lemma vga_put_plain_step:
  fixes c :: u8
  assumes "vga_ok st"
  defines "off \<equiv> nat ((vga_y st * WIDTH + vga_x st) * 2)"
  defines "st1 \<equiv> st\<lparr>vga_vram := (vga_vram st)[off := c, off + 1 := 0x7], vga_x := vga_x st + 1\<rparr>"
  shows "\<exists>io'. vga_put_plain c (st, io) = Inr (if WIDTH \<le> vga_x st + 1 then vga_next_line st1 else st1, io')"
proof -
  have b: "\<not> ((vga_y st * WIDTH + vga_x st) * 2 < 0 \<or> int (length (vga_vram st)) \<le> (vga_y st * WIDTH + vga_x st) * 2 + 1)"
    using vga_off [OF assms(1)] by linarith
  have x: "vga_x st1 = vga_x st + 1" by (simp add: st1_def)
  show ?thesis
    unfolding vga_put_plain_def Let_def prod.case off_def [symmetric] st1_def [symmetric] if_not_P [OF b] x by simp
qed

lemma vga_put_plain_ok:
  assumes "vga_ok st"
  shows "\<exists>st' io'. vga_put_plain c (st, io) = Inr (st', io') \<and> vga_ok st'"
proof -
  define st1 where "st1 = st\<lparr>vga_vram := (vga_vram st)[nat ((vga_y st * WIDTH + vga_x st) * 2) := c,
      nat ((vga_y st * WIDTH + vga_x st) * 2) + 1 := 0x7], vga_x := vga_x st + 1\<rparr>"
  have "vga_ok (if WIDTH \<le> vga_x st + 1 then vga_next_line st1 else st1)"
    using assms vga_next_line_ok [of st1] by (simp add: st1_def vga_ok_def)
  then show ?thesis using vga_put_plain_step [OF assms, of c io] unfolding st1_def by blast
qed

lemma put_times_ok:
  assumes "\<And>st io. vga_ok st \<Longrightarrow> \<exists>st' io'. f (st, io) = Inr (st', io') \<and> vga_ok st'" "vga_ok st"
  shows "\<exists>st' io'. put_times n f (st, io) = Inr (st', io') \<and> vga_ok st'"
  using assms(2)
proof (induction n arbitrary: st io)
  case (Suc n)
  then obtain st' io' where "f (st, io) = Inr (st', io')" "vga_ok st'" using assms(1) by blast
  then show ?case using Suc.IH by simp
qed simp

lemma vga_putch_ok:
  assumes "vga_ok st"
  shows "\<exists>st' io'. vga_putch c (st, io) = Inr (st', io') \<and> vga_ok st'"
proof -
  consider "c = 0x0A" | "c = 0x09" | "c \<noteq> 0x0A" "c \<noteq> 0x09" by blast
  then show ?thesis
  proof cases
    case 1
    then show ?thesis using assms vga_next_line_ok [of st] by (simp add: vga_putch_def vga_ok_def)
  next
    case 2
    then show ?thesis using put_times_ok [where f = "vga_put_plain 0x20", OF _ assms, of 8 io] vga_put_plain_ok by (simp add: vga_putch_def)
  next
    case 3
    then show ?thesis using vga_put_plain_ok [OF assms, of c io] by (simp add: vga_putch_def)
  qed
qed

text \<open>Writing a string, as \<open>kmesg\<close> does.\<close>

fun write_chars :: "(u8 \<Rightarrow> 's \<Rightarrow> 's result) \<Rightarrow> u8 list \<Rightarrow> 's \<Rightarrow> 's result" where
  "write_chars f [] s = Inr s"
| "write_chars f (c # cs) s = and_then (f c s) (write_chars f cs)"

lemma write_vga_ok: "vga_ok st \<Longrightarrow> \<exists>st' io'. write_chars vga_putch cs (st, io) = Inr (st', io') \<and> vga_ok st'"
proof (induction cs arbitrary: st io)
  case (Cons c cs)
  then obtain st' io' where "vga_putch c (st, io) = Inr (st', io')" "vga_ok st'" using vga_putch_ok by blast
  then show ?case using Cons.IH by simp
qed simp

definition cells :: "u8 list \<Rightarrow> u8 list" where
  "cells cs = concat (map (\<lambda>c. [c, 0x7]) cs)"

lemma length_cells: "length (cells cs) = 2 * length cs"
  by (induction cs) (simp_all add: cells_def)

lemma put_cell:
  assumes "n + 1 < length v"
  shows "v[n := c, n + 1 := 7] = take n v @ [c, 7] @ drop (n + 2) v"
  using assms by (intro nth_equalityI) (auto simp: nth_list_update nth_append nth_Cons' less_Suc_eq intro!: arg_cong [where f = "(!) v"])

lemma vga_put_plain_eq:
  assumes "vga_ok st" "vga_x st + 1 < WIDTH"
  defines "off \<equiv> nat ((vga_y st * WIDTH + vga_x st) * 2)"
  shows "\<exists>io'. vga_put_plain c (st, io) =
    Inr (st\<lparr>vga_x := vga_x st + 1, vga_vram := take off (vga_vram st) @ [c, 7] @ drop (off + 2) (vga_vram st)\<rparr>, io')"
proof -
  have b: "off + 1 < length (vga_vram st)" using vga_off [OF assms(1)] by (simp add: off_def)
  show ?thesis using vga_put_plain_step [OF assms(1), of c io] assms(2) put_cell [OF b] unfolding off_def by auto
qed

lemma write_plain:
  assumes "vga_ok st" "\<forall>c\<in>set cs. c \<noteq> 0x0A \<and> c \<noteq> 0x09" "vga_x st + int (length cs) < WIDTH"
    "off = nat ((vga_y st * WIDTH + vga_x st) * 2)"
  shows "\<exists>io'. write_chars vga_putch cs (st, io) =
    Inr (st\<lparr>vga_x := vga_x st + int (length cs),
            vga_vram := take off (vga_vram st) @ cells cs @ drop (off + 2 * length cs) (vga_vram st)\<rparr>, io')"
  using assms
proof (induction cs arbitrary: st io off)
  case Nil
  then show ?case by (simp add: cells_def)
next
  case (Cons c cs)
  let ?v = "vga_vram st"
  let ?st = "st\<lparr>vga_x := vga_x st + 1, vga_vram := take off ?v @ [c, 7] @ drop (off + 2) ?v\<rparr>"
  have len: "off + 2 \<le> length ?v" using vga_off [OF Cons.prems(1)] Cons.prems(4) by simp
  obtain io1 where p: "vga_put_plain c (st, io) = Inr (?st, io1)"
    using vga_put_plain_eq [OF Cons.prems(1), of c io] Cons.prems(3,4) by (auto simp: WIDTH_def)
  have ok: "vga_ok ?st" using Cons.prems(1,3) len by (auto simp: vga_ok_def WIDTH_def)
  have o: "nat ((vga_y ?st * WIDTH + vga_x ?st) * 2) = off + 2"
    using Cons.prems(1,4) by (auto simp: vga_ok_def WIDTH_def HEIGHT_def nat_add_distrib)
  have t: "take (off + 2) (vga_vram ?st) = take off ?v @ [c, 7]"
    "drop (off + 2 + 2 * length cs) (vga_vram ?st) = drop (off + 2 * length (c # cs)) ?v"
    using len by (simp_all add: algebra_simps)
  have "\<exists>io'. write_chars vga_putch cs (?st, io1) = Inr (?st\<lparr>vga_x := vga_x ?st + int (length cs),
      vga_vram := take (off + 2) (vga_vram ?st) @ cells cs @ drop (off + 2 + 2 * length cs) (vga_vram ?st)\<rparr>, io')"
    using Cons.IH [OF ok _ _ o [symmetric], of io1] Cons.prems(2,3) by simp
  moreover have "vga_putch c (st, io) = Inr (?st, io1)" using p Cons.prems(2) by (simp add: vga_putch_def)
  ultimately show ?case unfolding t by (auto simp: cells_def algebra_simps)
qed

text \<open>The text screen: whatever is written, every access stays inside the video memory and the cursor inside the 80 by 25
  screen; ordinary characters that fit in the rest of the line appear from the cursor on with the standard attribute and
  change nothing else; and a newline in the last line drops the first line, moves the others up and leaves the last one
  empty.\<close>

theorem vga_screen:
  assumes "vga_ok st"
  shows "(\<exists>st' io'. write_chars vga_putch cs (st, io) = Inr (st', io') \<and> vga_ok st') \<and>
    ((\<forall>c\<in>set cs. c \<noteq> 0x0A \<and> c \<noteq> 0x09) \<and> vga_x st + int (length cs) < WIDTH \<longrightarrow>
       (let off = nat ((vga_y st * WIDTH + vga_x st) * 2)
        in \<exists>io'. write_chars vga_putch cs (st, io) =
             Inr (st\<lparr>vga_x := vga_x st + int (length cs),
                     vga_vram := take off (vga_vram st) @ cells cs @ drop (off + 2 * length cs) (vga_vram st)\<rparr>, io'))) \<and>
    (vga_y st = HEIGHT - 1 \<longrightarrow>
       vga_putch 0x0A (st, io) = Inr (st\<lparr>vga_x := 0, vga_vram := drop 160 (vga_vram st) @ replicate 160 0\<rparr>, io))"
proof (intro conjI impI)
  show "\<exists>st' io'. write_chars vga_putch cs (st, io) = Inr (st', io') \<and> vga_ok st'" by (rule write_vga_ok [OF assms])
next
  assume "(\<forall>c\<in>set cs. c \<noteq> 0x0A \<and> c \<noteq> 0x09) \<and> vga_x st + int (length cs) < WIDTH"
  then show "let off = nat ((vga_y st * WIDTH + vga_x st) * 2)
        in \<exists>io'. write_chars vga_putch cs (st, io) =
             Inr (st\<lparr>vga_x := vga_x st + int (length cs),
                     vga_vram := take off (vga_vram st) @ cells cs @ drop (off + 2 * length cs) (vga_vram st)\<rparr>, io')"
    using write_plain [OF assms _ _ refl, of cs io] by (simp add: Let_def)
next
  assume "vga_y st = HEIGHT - 1"
  then show "vga_putch 0x0A (st, io) = Inr (st\<lparr>vga_x := 0, vga_vram := drop 160 (vga_vram st) @ replicate 160 0\<rparr>, io)"
    using assms by (simp add: vga_putch_def vga_next_line_def Let_def vga_ok_def WIDTH_def HEIGHT_def vga_scroll_eq)
qed

section \<open>Drawing a character\<close>

text \<open>A buffer in which the positions of a set have been given new colours.\<close>

definition repaint :: "(nat \<Rightarrow> bool) \<Rightarrow> (nat \<Rightarrow> u32) \<Rightarrow> u32 list \<Rightarrow> u32 list \<Rightarrow> bool" where
  "repaint P f v w \<longleftrightarrow> length w = length v \<and> (\<forall>p<length v. w ! p = (if P p then f p else v ! p))"

definition pixel :: "u32 \<Rightarrow> u32 \<Rightarrow> u8 \<Rightarrow> nat \<Rightarrow> u32" where
  "pixel fg bg byte x = (if bit byte (7 - x) then fg else bg)"

lemma mask_bit: "x < 8 \<Longrightarrow> byte AND push_bit (7 - x) 1 = 0 \<longleftrightarrow> \<not> bit (byte :: u8) (7 - x)"
  by (simp add: and_exp_eq_0_iff_not_bit)

lemma put_row_spec:
  assumes "x + n \<le> 8" "off + n \<le> length (vid_back g)" "length (vid_front g) = length (vid_back g)"
  shows "\<exists>F B. put_row byte fg bg x n (int off) g = Inr (g\<lparr>vid_front := F, vid_back := B\<rparr>) \<and>
    repaint (\<lambda>p. off \<le> p \<and> p < off + n) (\<lambda>p. pixel fg bg byte (x + (p - off))) (vid_front g) F \<and>
    repaint (\<lambda>p. off \<le> p \<and> p < off + n) (\<lambda>p. pixel fg bg byte (x + (p - off))) (vid_back g) B"
  using assms
proof (induction n arbitrary: x off g)
  case 0
  show ?case by (rule exI [of _ "vid_front g"], rule exI [of _ "vid_back g"]) (auto simp: repaint_def)
next
  case (Suc n)
  let ?c = "pixel fg bg byte x"
  let ?g = "g\<lparr>vid_front := (vid_front g)[off := ?c], vid_back := (vid_back g)[off := ?c]\<rparr>"
  have col: "(if byte AND push_bit (7 - x) 1 = 0 then bg else fg) = ?c"
    using mask_bit [of x byte] Suc.prems(1) by (simp add: pixel_def)
  have p: "put_pixel (int off) ?c g = Inr ?g" using Suc.prems by (simp add: put_pixel_def)
  obtain F B where r: "put_row byte fg bg (Suc x) n (int (Suc off)) ?g = Inr (?g\<lparr>vid_front := F, vid_back := B\<rparr>)"
    "repaint (\<lambda>p. Suc off \<le> p \<and> p < Suc off + n) (\<lambda>p. pixel fg bg byte (Suc x + (p - Suc off))) ((vid_front g)[off := ?c]) F"
    "repaint (\<lambda>p. Suc off \<le> p \<and> p < Suc off + n) (\<lambda>p. pixel fg bg byte (Suc x + (p - Suc off))) ((vid_back g)[off := ?c]) B"
    using Suc.IH [of "Suc x" "Suc off" ?g] Suc.prems by auto
  have e: "int off + 1 = int (Suc off)" by simp
  have sh: "Suc (x + p - Suc off) = x + p - off" if "Suc off \<le> p" for p using that by arith
  have rp: "repaint (\<lambda>p. off \<le> p \<and> p < off + Suc n) (\<lambda>p. pixel fg bg byte (x + (p - off))) v w"
    if "repaint (\<lambda>p. Suc off \<le> p \<and> p < Suc off + n) (\<lambda>p. pixel fg bg byte (Suc x + (p - Suc off))) (v[off := ?c]) w"
      "off < length v" for v w
    using that sh unfolding repaint_def by (auto simp: nth_list_update)
  show ?case
    using p r(1) rp [OF r(2)] rp [OF r(3)] Suc.prems unfolding put_row.simps Let_def col e by auto
qed

definition in_glyph :: "nat \<Rightarrow> nat \<Rightarrow> nat \<Rightarrow> nat \<Rightarrow> bool" where
  "in_glyph off stride n p \<longleftrightarrow> off \<le> p \<and> (p - off) div stride < n \<and> (p - off) mod stride < 8"

definition glyph_pixel :: "u32 \<Rightarrow> u32 \<Rightarrow> nat \<Rightarrow> nat \<Rightarrow> nat \<Rightarrow> nat \<Rightarrow> u32" where
  "glyph_pixel fg bg k off stride p = pixel fg bg (font ! (k + (p - off) div stride)) ((p - off) mod stride)"

lemma repaint_trans:
  assumes "repaint P f u v" "repaint Q g v w" "\<And>p. R p \<longleftrightarrow> P p \<or> Q p" "\<And>p. Q p \<Longrightarrow> h p = g p" "\<And>p. P p \<Longrightarrow> \<not> Q p \<Longrightarrow> h p = f p"
  shows "repaint R h u w"
  using assms unfolding repaint_def by simp

lemma first_row:
  assumes "8 \<le> stride"
  shows "in_glyph off stride (Suc n) p \<longleftrightarrow> (off \<le> p \<and> p < off + 8) \<or> in_glyph (off + stride) stride n p"
    "off \<le> p \<Longrightarrow> p < off + 8 \<Longrightarrow> glyph_pixel fg bg k off stride p = pixel fg bg (font ! k) (0 + (p - off))"
    "in_glyph (off + stride) stride n p \<Longrightarrow> glyph_pixel fg bg k off stride p = glyph_pixel fg bg (Suc k) (off + stride) stride p"
proof -
  have s: "off + stride \<le> p \<Longrightarrow> (p - off) div stride = Suc ((p - (off + stride)) div stride) \<and>
      (p - off) mod stride = (p - (off + stride)) mod stride"
    using assms le_div_geq [of stride "p - off"] le_mod_geq [of stride "p - off"] by simp
  have lt: "p < off + stride \<Longrightarrow> off \<le> p \<Longrightarrow> (p - off) div stride = 0 \<and> (p - off) mod stride = p - off" by simp
  show "in_glyph off stride (Suc n) p \<longleftrightarrow> (off \<le> p \<and> p < off + 8) \<or> in_glyph (off + stride) stride n p"
  proof (cases "off + stride \<le> p")
    case True
    then show ?thesis using s assms by (auto simp: in_glyph_def)
  next
    case False
    then show ?thesis using lt assms by (auto simp: in_glyph_def)
  qed
  show "off \<le> p \<Longrightarrow> p < off + 8 \<Longrightarrow> glyph_pixel fg bg k off stride p = pixel fg bg (font ! k) (0 + (p - off))"
    using lt assms by (simp add: glyph_pixel_def)
  show "in_glyph (off + stride) stride n p \<Longrightarrow> glyph_pixel fg bg k off stride p = glyph_pixel fg bg (Suc k) (off + stride) stride p"
    using s by (simp add: glyph_pixel_def in_glyph_def)
qed

lemma put_rows_spec:
  assumes "vm_pitch (mode_info g) = 4 * int stride" "8 \<le> stride" "length (vid_front g) = length (vid_back g)"
    "n = 0 \<or> off + (n - 1) * stride + 8 \<le> length (vid_back g)" "unat k + y + n \<le> 4096"
  shows "\<exists>F B. put_rows k fg bg y n (int off) g = Inr (g\<lparr>vid_front := F, vid_back := B\<rparr>) \<and>
    repaint (in_glyph off stride n) (glyph_pixel fg bg (unat k + y) off stride) (vid_front g) F \<and>
    repaint (in_glyph off stride n) (glyph_pixel fg bg (unat k + y) off stride) (vid_back g) B"
  using assms
proof (induction n arbitrary: y off g)
  case 0
  show ?case by (rule exI [of _ "vid_front g"], rule exI [of _ "vid_back g"]) (auto simp: repaint_def in_glyph_def)
next
  case (Suc n)
  have u: "unat (k + of_nat y) = unat k + y"
    using Suc.prems(5) unat_add_less [of k "of_nat y"] by (simp add: unat_of_nat)
  have len: "off + 8 \<le> length (vid_back g)" using Suc.prems(4) by simp
  obtain F1 B1 where r: "put_row (font ! (unat k + y)) fg bg 0 8 (int off) g = Inr (g\<lparr>vid_front := F1, vid_back := B1\<rparr>)"
    "repaint (\<lambda>p. off \<le> p \<and> p < off + 8) (\<lambda>p. pixel fg bg (font ! (unat k + y)) (0 + (p - off))) (vid_front g) F1"
    "repaint (\<lambda>p. off \<le> p \<and> p < off + 8) (\<lambda>p. pixel fg bg (font ! (unat k + y)) (0 + (p - off))) (vid_back g) B1"
    using put_row_spec [of 0 8 off g "font ! (unat k + y)" fg bg] len Suc.prems(3) by auto
  let ?g = "g\<lparr>vid_front := F1, vid_back := B1\<rparr>"
  have l1: "length F1 = length (vid_back g)" "length B1 = length (vid_back g)" using r(2,3) Suc.prems(3) by (simp_all add: repaint_def)
  have len2: "n = 0 \<or> off + stride + (n - 1) * stride + 8 \<le> length (vid_back g)"
    using Suc.prems(4) by (cases n) (simp_all add: algebra_simps)
  obtain F B where r2: "put_rows k fg bg (Suc y) n (int (off + stride)) ?g = Inr (?g\<lparr>vid_front := F, vid_back := B\<rparr>)"
    "repaint (in_glyph (off + stride) stride n) (glyph_pixel fg bg (unat k + Suc y) (off + stride) stride) F1 F"
    "repaint (in_glyph (off + stride) stride n) (glyph_pixel fg bg (unat k + Suc y) (off + stride) stride) B1 B"
    using Suc.IH [of ?g "off + stride" "Suc y"] Suc.prems l1 len2 by auto
  note tr = repaint_trans [OF _ _ first_row(1) [OF Suc.prems(2)]]
  have rp: "repaint (in_glyph off stride (Suc n)) (glyph_pixel fg bg (unat k + y) off stride) v w"
    if "repaint (\<lambda>p. off \<le> p \<and> p < off + 8) (\<lambda>p. pixel fg bg (font ! (unat k + y)) (0 + (p - off))) v v1"
      "repaint (in_glyph (off + stride) stride n) (glyph_pixel fg bg (unat k + Suc y) (off + stride) stride) v1 w" for v v1 w
    using that by (rule tr) (use first_row(2,3) [OF Suc.prems(2)] in auto)
  have st: "int off + vm_pitch (mode_info g) div 4 = int (off + stride)" using Suc.prems(1) by simp
  have "unat k + y < length font" using Suc.prems(5) by simp
  then show ?case using r(1) r2(1) rp [OF r(2) r2(2)] rp [OF r(3) r2(3)] st
    by (auto simp: u Let_def char_width_def)
qed

section \<open>The framebuffer console\<close>

definition fb_stride :: "genfb \<Rightarrow> nat" where
  "fb_stride g = nat (vm_pitch (mode_info g)) div 4"

text \<open>A framebuffer with whole words in a line, room for at least one character, buffers of the right size and the cursor on
  the screen.\<close>

definition fb_geom :: "genfb \<Rightarrow> bool" where
  "fb_geom g \<longleftrightarrow> \<not> genfb_lock g \<and> is_working g \<and>
     vm_pitch (mode_info g) = 4 * int (fb_stride g) \<and> vm_width (mode_info g) \<le> int (fb_stride g) \<and>
     char_width \<le> vm_width (mode_info g) \<and> char_height \<le> vm_height (mode_info g) \<and>
     disp_w g = vm_width (mode_info g) div char_width \<and> disp_h g = vm_height (mode_info g) div char_height \<and>
     length (vid_back g) = nat (vm_height (mode_info g)) * fb_stride g \<and> length (vid_front g) = length (vid_back g)"

definition fb_ok :: "genfb \<Rightarrow> bool" where
  "fb_ok g \<longleftrightarrow> fb_geom g \<and> 0 \<le> disp_x g \<and> disp_x g < disp_w g \<and> 0 \<le> disp_y g \<and> disp_y g < disp_h g"

lemma fb_geom_updates [simp]:
  "fb_geom (g\<lparr>disp_x := x\<rparr>) = fb_geom g" "fb_geom (g\<lparr>disp_y := y\<rparr>) = fb_geom g"
  by (simp_all add: fb_geom_def fb_stride_def)

lemma unat_u8_less: "unat (c :: u8) < 256"
  using unsigned_less [of c, where 'a = nat] by simp

lemma sint_u8: "sint (c :: u8) = (if unat c < 128 then int (unat c) else int (unat c) - 256)"
proof -
  have "bit (uint c) 7 \<longleftrightarrow> bit (unat c) 7" by (simp add: bit_unsigned_iff)
  also have "\<dots> \<longleftrightarrow> odd (unat c div 128)" by (simp add: bit_iff_odd)
  also have "unat c div 128 = (if unat c < 128 then 0 else 1)" using unat_u8_less [of c] by (auto simp: div_nat_eqI)
  finally have b: "bit (uint c) 7 \<longleftrightarrow> \<not> unat c < 128" by simp
  have "sint c = take_bit 8 (uint c) - 2 ^ 8 * of_bool (bit (uint c) 7)"
    using signed_take_bit_eq_take_bit_minus [of 7 "uint c"] by (simp add: sint_uint)
  moreover have "take_bit 8 (uint c) = uint c" using unsigned_less [of c, where 'a = int] by (intro take_bit_int_eq_self) simp_all
  ultimately show ?thesis unfolding b by simp
qed

lemma glyph_offset:
  "unat ((scast (c :: u8) * of_int char_height * of_int char_width :: u64) div 8) =
     (if unat c < 128 then 16 * unat c else 2 ^ 61 - 16 * (256 - unat c))"
proof -
  have w: "(scast c * of_int char_height * of_int char_width :: u64) = word_of_int (sint c * 128)"
    by (simp add: char_height_def char_width_def)
  have u: "unat (word_of_int (sint c * 128) :: u64) = nat (sint c * 128 mod 2 ^ 64)"
    unfolding unat_eq_nat_uint uint_word_of_int_eq by (simp add: take_bit_eq_mod)
  have e: "unat ((scast c * of_int char_height * of_int char_width :: u64) div 8) = nat (sint c * 128 mod 2 ^ 64) div 8"
    unfolding w unat_div u by simp
  define n where "n = unat c"
  have sn: "sint c = (if n < 128 then int n else int n - 256)" and n: "n < 256"
    using sint_u8 [of c] unat_u8_less [of c] by (simp_all only: n_def)
  have "sint c * 128 mod 2 ^ 64 = int (if n < 128 then n * 128 else (2 ^ 61 - 16 * (256 - n)) * 8)"
  proof (cases "n < 128")
    case True
    then have "sint c * 128 mod 2 ^ 64 = int (n * 128)" unfolding sn by (simp add: mod_pos_pos_trivial)
    then show ?thesis using True by simp
  next
    case False
    have "sint c * 128 mod 2 ^ 64 = (sint c * 128 + 2 ^ 64) mod 2 ^ 64" by simp
    also have "\<dots> = sint c * 128 + 2 ^ 64" using False n unfolding sn by (intro mod_pos_pos_trivial) simp_all
    finally show ?thesis using False n unfolding sn by (simp add: of_nat_diff)
  qed
  then show ?thesis unfolding e n_def [symmetric] by simp
qed

lemma scroll_up_eq:
  assumes "fb_geom g"
  shows "\<exists>v. genfb_scroll_up g = Inr (g\<lparr>vid_back := v, vid_front := v\<rparr>) \<and> length v = length (vid_back g)"
proof -
  define w h where "w = fb_stride g" and "h = nat (vm_height (mode_info g))"
  have f: "vm_pitch (mode_info g) = 4 * int w" "vm_height (mode_info g) = int h" "16 \<le> h" "length (vid_back g) = h * w"
    "length (vid_front g) = h * w"
    using assms by (auto simp: fb_geom_def w_def h_def char_height_def)
  have k: "nat (vm_pitch (mode_info g) * char_height) div 4 = 16 * w" "nat (vm_height (mode_info g) * vm_pitch (mode_info g)) div 4 = h * w"
    "nat (vm_pitch (mode_info g) * (vm_height (mode_info g) - char_height)) div 4 = (h - 16) * w"
    using f(3) by (simp_all add: f(1,2) char_height_def nat_mult_distrib nat_diff_distrib of_nat_diff)
  have s: "(h - 16) * w + 16 * w = h * w" using f(3) by (metis add_mult_distrib le_add_diff_inverse2)
  have "\<not> vm_height (mode_info g) < char_height" using f(2,3) by (simp add: char_height_def)
  moreover have "h * w - (h * w - 16 * w) = 16 * w" "(h - 16) * w = h * w - 16 * w" using s by linarith+
  ultimately show ?thesis unfolding genfb_scroll_up_def Let_def k using f(4,5) s
    by (intro exI [of _ "drop (16 * w) (vid_back g) @ replicate (16 * w) BG_COLOR"]) simp
qed

lemma cell_bounds:
  assumes "fb_ok g"
  defines "off \<equiv> nat (disp_x g) * 8 + nat (disp_y g) * 16 * fb_stride g"
  shows "off + 15 * fb_stride g + 8 \<le> length (vid_back g)" "nat (disp_x g) * 8 + 8 \<le> fb_stride g"
    "(disp_x g * char_width * 4 + disp_y g * char_height * vm_pitch (mode_info g)) div 4 = int off"
proof -
  define w where "w = fb_stride g"
  obtain x y h where x: "disp_x g = int x" and y: "disp_y g = int y" and h: "vm_height (mode_info g) = int h"
    using assms(1) unfolding fb_ok_def fb_geom_def char_height_def
    by (metis int_nat_eq order_trans zero_le_numeral)
  have f: "vm_pitch (mode_info g) = 4 * int w" "length (vid_back g) = h * w"
    using assms(1) h by (auto simp: fb_ok_def fb_geom_def w_def)
  have "int x < vm_width (mode_info g) div 8" "vm_width (mode_info g) \<le> int w" "int y < int h div 16"
    using assms(1) x y h by (auto simp: fb_ok_def fb_geom_def w_def char_width_def char_height_def)
  then have c: "x * 8 + 8 \<le> w" "y * 16 + 16 \<le> h" by linarith+
  have "(y * 16 + 16) * w \<le> h * w" using c(2) by (rule mult_le_mono1)
  then have "x * 8 + y * 16 * w + 15 * w + 8 \<le> h * w" using c(1) by (simp add: algebra_simps)
  then show "off + 15 * fb_stride g + 8 \<le> length (vid_back g)" using f(2) x y by (simp add: off_def w_def [symmetric])
  show "nat (disp_x g) * 8 + 8 \<le> fb_stride g" using c(1) x by (simp add: w_def)
  show "(disp_x g * char_width * 4 + disp_y g * char_height * vm_pitch (mode_info g)) div 4 = int off"
    using x y f(1) by (simp add: off_def w_def [symmetric] char_width_def char_height_def)
qed

text \<open>The place on the screen: pixel \<open>X\<close>, \<open>Y\<close> of the buffer is at \<open>Y * stride + X\<close>.\<close>

lemma cell_inside:
  fixes x y w X Y :: nat
  assumes "X < w" "x * 8 \<le> X" "y * 16 \<le> Y"
  shows "Y * w + X = x * 8 + y * 16 * w + ((Y - y * 16) * w + (X - x * 8))"
proof -
  have "Y * w = (y * 16 + (Y - y * 16)) * w" using assms(3) by simp
  then show ?thesis using assms(2) by (simp add: add_mult_distrib)
qed

lemma cell_left:
  fixes x y w X Y :: nat
  assumes "x * 8 + 8 \<le> w" "X < x * 8" "x * 8 + y * 16 * w \<le> Y * w + X"
  shows "8 \<le> (Y * w + X - (x * 8 + y * 16 * w)) mod w"
proof -
  have "y * 16 < Y"
  proof (rule ccontr)
    assume "\<not> y * 16 < Y"
    then have "Y * w \<le> y * 16 * w" by (intro mult_le_mono1) simp
    then show False using assms(2,3) by linarith
  qed
  then have "Y * w = (y * 16 + Suc (Y - y * 16 - 1)) * w" by simp
  then have "Y * w = y * 16 * w + (Y - y * 16 - 1) * w + w" by (simp only: add_mult_distrib mult_Suc add.assoc)
  then have e: "Y * w + X - (x * 8 + y * 16 * w) = (Y - y * 16 - 1) * w + (w - (x * 8 - X))" using assms(1,2) by linarith
  have "w - (x * 8 - X) < w" "8 \<le> w - (x * 8 - X)" using assms(1,2) by linarith+
  then show ?thesis unfolding e by (simp only: mod_mult_self3 mod_less)
qed

lemma in_cell:
  assumes "X < w" "x * 8 + 8 \<le> w"
  shows "in_glyph (x * 8 + y * 16 * w) w 16 (Y * w + X) \<longleftrightarrow> x * 8 \<le> X \<and> X < x * 8 + 8 \<and> y * 16 \<le> Y \<and> Y < y * 16 + 16"
    "x * 8 \<le> X \<Longrightarrow> y * 16 \<le> Y \<Longrightarrow>
     glyph_pixel fg bg k (x * 8 + y * 16 * w) w (Y * w + X) = pixel fg bg (font ! (k + (Y - y * 16))) (X - x * 8)"
proof -
  define o' p where "o' = x * 8 + y * 16 * w" and "p = Y * w + X"
  have in1: "(p - o') div w = Y - y * 16" "(p - o') mod w = X - x * 8" "o' \<le> p" if "x * 8 \<le> X" "y * 16 \<le> Y"
    using cell_inside [OF assms(1) that] assms(1) unfolding o'_def [symmetric] p_def [symmetric] by simp_all
  have in3: "y * 16 \<le> Y" if "o' \<le> p" "x * 8 \<le> X"
  proof (rule ccontr)
    assume "\<not> y * 16 \<le> Y"
    then have "Suc Y * w \<le> y * 16 * w" by (intro mult_le_mono1) simp
    then show False using that assms(1) by (simp add: o'_def p_def)
  qed
  show "in_glyph o' w 16 p \<longleftrightarrow> x * 8 \<le> X \<and> X < x * 8 + 8 \<and> y * 16 \<le> Y \<and> Y < y * 16 + 16"
  proof (cases "o' \<le> p")
    case True
    show ?thesis
    proof (cases "x * 8 \<le> X")
      case xX: True
      show ?thesis using in1 [OF xX in3 [OF True xX]] in3 [OF True xX] xX unfolding in_glyph_def by auto
    next
      case False
      then have "8 \<le> (p - o') mod w" using cell_left [OF assms(2), of X y Y] True by (simp add: o'_def p_def)
      then show ?thesis using False unfolding in_glyph_def by simp
    qed
  next
    case False
    then show ?thesis using in1(3) unfolding in_glyph_def by blast
  qed
  show "x * 8 \<le> X \<Longrightarrow> y * 16 \<le> Y \<Longrightarrow> glyph_pixel fg bg k o' w p = pixel fg bg (font ! (k + (Y - y * 16))) (X - x * 8)"
    using in1 by (simp add: glyph_pixel_def)
qed

lemma genfb_next_line_ok:
  assumes "fb_geom g" "0 \<le> disp_y g" "disp_y g < disp_h g"
  shows "\<exists>g'. genfb_next_line g = Inr g' \<and> fb_ok g'"
proof -
  let ?g = "g\<lparr>disp_x := 0, disp_y := disp_y g + 1\<rparr>"
  have d: "0 < disp_w g" "0 < disp_h g"
    using assms(1) by (auto simp: fb_geom_def char_width_def char_height_def pos_imp_zdiv_pos_iff)
  have "fb_geom ?g" using assms(1) by simp
  from scroll_up_eq [OF this] obtain v where v: "genfb_scroll_up ?g = Inr (?g\<lparr>vid_back := v, vid_front := v\<rparr>)"
    "length v = length (vid_back g)" by auto
  show ?thesis
  proof (cases "disp_y g + 1 \<ge> disp_h g")
    case True
    have "fb_ok (?g\<lparr>vid_back := v, vid_front := v, disp_y := disp_h g - 1\<rparr>)"
      using assms d v(2) by (auto simp: fb_ok_def fb_geom_def fb_stride_def)
    then show ?thesis using True v(1) by (simp add: genfb_next_line_def)
  next
    case False
    then show ?thesis using assms d by (auto simp: genfb_next_line_def fb_ok_def)
  qed
qed

lemma genfb_draw:
  assumes "fb_ok g" "unat c < 128"
  shows "\<exists>F B. genfb_putch_internal c (disp_x g * char_width) (disp_y g * char_height) fg bg g =
      Inr (g\<lparr>vid_front := F, vid_back := B\<rparr>) \<and>
    length F = length (vid_front g) \<and> length B = length (vid_back g) \<and>
    (\<forall>X Y. X < fb_stride g \<longrightarrow> Y < nat (vm_height (mode_info g)) \<longrightarrow>
       F ! (Y * fb_stride g + X) =
         (if nat (disp_x g) * 8 \<le> X \<and> X < nat (disp_x g) * 8 + 8 \<and> nat (disp_y g) * 16 \<le> Y \<and> Y < nat (disp_y g) * 16 + 16
          then pixel fg bg (font ! (16 * unat c + (Y - nat (disp_y g) * 16))) (X - nat (disp_x g) * 8)
          else vid_front g ! (Y * fb_stride g + X)))"
proof -
  define w x y k where "w = fb_stride g" and "x = nat (disp_x g)" and "y = nat (disp_y g)"
    and "k = (scast c * of_int char_height * of_int char_width :: u64) div 8"
  note cb = cell_bounds [OF assms(1), folded w_def x_def y_def]
  have k: "unat k = 16 * unat c" using glyph_offset [of c] assms(2) by (simp add: k_def)
  have g: "vm_pitch (mode_info g) = 4 * int w" "length (vid_front g) = length (vid_back g)"
    "length (vid_back g) = nat (vm_height (mode_info g)) * w"
    using assms(1) by (simp_all add: fb_ok_def fb_geom_def w_def)
  obtain F B where r: "put_rows k fg bg 0 16 (int (x * 8 + y * 16 * w)) g = Inr (g\<lparr>vid_front := F, vid_back := B\<rparr>)"
    "repaint (in_glyph (x * 8 + y * 16 * w) w 16) (glyph_pixel fg bg (unat k + 0) (x * 8 + y * 16 * w) w) (vid_front g) F"
    "repaint (in_glyph (x * 8 + y * 16 * w) w 16) (glyph_pixel fg bg (unat k + 0) (x * 8 + y * 16 * w) w) (vid_back g) B"
    using put_rows_spec [OF g(1) _ g(2), of 16 "x * 8 + y * 16 * w" k 0 fg bg] cb(1,2) k assms(2) by auto
  have "F ! (Y * w + X) =
      (if x * 8 \<le> X \<and> X < x * 8 + 8 \<and> y * 16 \<le> Y \<and> Y < y * 16 + 16
       then pixel fg bg (font ! (16 * unat c + (Y - y * 16))) (X - x * 8) else vid_front g ! (Y * w + X))"
    if X: "X < w" "Y < nat (vm_height (mode_info g))" for X Y
  proof -
    have "Suc Y * w \<le> nat (vm_height (mode_info g)) * w" using X(2) by (intro mult_le_mono1) simp
    then have "Y * w + X < length (vid_front g)" using X(1) g(2,3) by simp
    then show ?thesis using r(2) in_cell [OF X(1) cb(2)] k unfolding repaint_def by simp
  qed
  moreover have "genfb_putch_internal c (disp_x g * char_width) (disp_y g * char_height) fg bg g =
      Inr (g\<lparr>vid_front := F, vid_back := B\<rparr>)"
    unfolding genfb_putch_internal_def Let_def k_def [symmetric] cb(3) using r(1) by (simp add: char_height_def)
  ultimately show ?thesis using r(2,3) unfolding w_def x_def y_def repaint_def by blast
qed

lemma fb_ok_drawn: "fb_geom g \<Longrightarrow> length F = length (vid_front g) \<Longrightarrow> length B = length (vid_back g) \<Longrightarrow>
    fb_geom (g\<lparr>vid_front := F, vid_back := B\<rparr>)"
  by (simp add: fb_geom_def fb_stride_def)

lemma genfb_putch_ok:
  assumes "fb_ok g" "unat c < 128"
  shows "\<exists>g'. genfb_putch c g = Inr g' \<and> fb_ok g'"
proof -
  have g: "fb_geom g" "0 \<le> disp_x g" "0 \<le> disp_y g" "disp_y g < disp_h g" "spin_lock (genfb_lock g) = Inr True" "is_working g"
    using assms(1) by (auto simp: fb_ok_def fb_geom_def spin_lock_def)
  have fin: "\<exists>g''. (if disp_x g' \<ge> disp_w g' then genfb_next_line g' else Inr g') = Inr g'' \<and> fb_ok g''"
    if "fb_geom g'" "0 \<le> disp_x g'" "0 \<le> disp_y g'" "disp_y g' < disp_h g'" for g'
    using genfb_next_line_ok [OF that(1,3,4)] that by (auto simp: fb_ok_def)
  consider "c = 0x0A" | "c = 0x09" | "c \<noteq> 0x0A" "c \<noteq> 0x09" by blast
  then show ?thesis
  proof cases
    case 1
    then show ?thesis using g genfb_next_line_ok [OF g(1,3,4)] by (simp add: genfb_putch_def)
  next
    case 2
    then show ?thesis using g fin [of "g\<lparr>disp_x := disp_x g + 8\<rparr>"] by (simp add: genfb_putch_def)
  next
    case 3
    obtain F B where d: "genfb_putch_internal c (disp_x g * char_width) (disp_y g * char_height) FG_COLOR BG_COLOR g =
        Inr (g\<lparr>vid_front := F, vid_back := B\<rparr>)" "length F = length (vid_front g)" "length B = length (vid_back g)"
      using genfb_draw [OF assms] by blast
    have "fb_geom (g\<lparr>vid_front := F, vid_back := B, disp_x := disp_x g + 1\<rparr>)"
      using fb_ok_drawn [OF g(1) d(2,3)] by simp
    from fin [OF this] show ?thesis using 3 g d by (simp add: genfb_putch_def)
  qed
qed


lemma genfb_init_ok:
  assumes "room (vm_height m * vm_pitch m)" "vm_bpp m = 32" "vm_pitch m = 4 * int w" "vm_width m \<le> int w"
    "char_width \<le> vm_width m" "char_height \<le> vm_height m"
    "\<not> genfb_lock g" "disp_x g = 0" "disp_y g = 0"
  shows "\<exists>g'. genfb_init room g (Some m) = Inr g' \<and> fb_ok g'"
proof -
  obtain h where h: "vm_height m = int h" using assms(6) by (metis char_height_def int_nat_eq order_trans zero_le_numeral)
  have "nat (vm_height m * vm_pitch m) div 4 = h * w" using h assms(3) by (simp add: nat_mult_distrib)
  then show ?thesis using assms h
    by (auto simp: genfb_init_def Let_def fb_ok_def fb_geom_def fb_stride_def char_width_def char_height_def
        pos_imp_zdiv_pos_iff)
qed

section \<open>Witnesses\<close>

text \<open>The screen after initialisation, and a framebuffer of 16 by 16 pixels.\<close>

definition no_devices :: devices where
  "no_devices = \<lparr>dev_inb = (\<lambda>_ _. 0), dev_inw = (\<lambda>_ _. 0), dev_ind = (\<lambda>_ _. 0)\<rparr>"

theorem vga_screen_witness:
  "\<exists>st' io'. write_chars vga_putch [0x71, 0x0A] (fst (vga_init no_devices []), []) = Inr (st', io') \<and> vga_ok st'"
  using vga_screen [OF vga_init_ok [where D = no_devices and io = "[]"], where cs = "[0x71, 0x0A]" and io = "[]"] by blast

definition tiny_mode :: arch_video_mode_t where
  "tiny_mode = \<lparr>vm_addr = 0xFD000000, vm_pitch = 64, vm_width = 16, vm_height = 16, vm_bpp = 32, vm_red_off = 16,
     vm_green_off = 8, vm_blue_off = 0, vm_red_size = 8, vm_green_size = 8, vm_blue_size = 8\<rparr>"

definition tiny_fb :: genfb where
  "tiny_fb = \<lparr>mode_info = tiny_mode, vid_back = replicate 256 BG_COLOR, vid_front = replicate 256 BG_COLOR, disp_w = 2,
     disp_h = 1, disp_x = 0, disp_y = 0, is_working = True, genfb_lock = False\<rparr>"

lemma tiny_fb_ok: "fb_ok tiny_fb"
  by (simp add: fb_ok_def fb_geom_def fb_stride_def tiny_fb_def tiny_mode_def char_width_def char_height_def)


end
