(* ===== verification/AddressSpace.thy ===== *)
theory AddressSpace
  imports Vm
begin

text \<open>
  The operations of \<open>struct address_space\<close> (\<open>mm/vm.cpp\<close>): choosing and splitting holes, inserting
  regions in order, merging holes, binding and unbinding regions, and the public operations built
  from them.
\<close>

section \<open>Holes and regions\<close>

fun find_free_hole_loop ::
  "memory_hole list \<Rightarrow> nat \<Rightarrow> u64 \<Rightarrow> nat option \<Rightarrow> u64 \<Rightarrow> nat option" where
  "find_free_hole_loop [] i sz candidate best_base = candidate"
| "find_free_hole_loop (hole # hs) i sz candidate best_base =
     (if h_size hole \<ge> sz \<and> h_base hole \<ge> best_base
      then find_free_hole_loop hs (Suc i) sz (Some i) (h_base hole)
      else find_free_hole_loop hs (Suc i) sz candidate best_base)"

definition find_free_hole :: "address_space \<Rightarrow> u64 \<Rightarrow> nat option" where
  "find_free_hole a sz = find_free_hole_loop (memory_holes a) 0 sz None 0"

definition PTRDIFF_MAX :: u64 where
  "PTRDIFF_MAX = 0x7FFFFFFFFFFFFFFF"

text \<open>The template \<open>distance_between\<close>, on the base and size of its first and the base of its second
  argument; the result is a \<open>ptrdiff_t\<close>, read with \<open>sint\<close>.\<close>

definition distance_between :: "u64 \<Rightarrow> u64 \<Rightarrow> u64 \<Rightarrow> u64" where
  "distance_between base_a size_a base_b = base_a + size_a * vm_page_size - base_b"

fun find_succ_hole_loop ::
  "memory_hole list \<Rightarrow> memory_hole \<Rightarrow> nat \<Rightarrow> nat option \<Rightarrow> u64 \<Rightarrow> nat option" where
  "find_succ_hole_loop [] x i candidate best_distance = candidate"
| "find_succ_hole_loop (region # rs) x i candidate best_distance =
     (if h_base region < h_base x then find_succ_hole_loop rs x (Suc i) candidate best_distance
      else
        let d = distance_between (h_base region) (h_size region) (h_base x)
        in if sint d < sint best_distance
           then find_succ_hole_loop rs x (Suc i) (Some i) d
           else find_succ_hole_loop rs x (Suc i) candidate best_distance)"

definition find_succ_hole :: "address_space \<Rightarrow> memory_hole \<Rightarrow> nat option" where
  "find_succ_hole a x = find_succ_hole_loop (memory_holes a) x 0 None PTRDIFF_MAX"

fun find_succ_mapping_loop ::
  "memory_mapping list \<Rightarrow> memory_mapping \<Rightarrow> nat \<Rightarrow> nat option \<Rightarrow> u64 \<Rightarrow> nat option" where
  "find_succ_mapping_loop [] x i candidate best_distance = candidate"
| "find_succ_mapping_loop (region # rs) x i candidate best_distance =
     (if m_base region < m_base x then find_succ_mapping_loop rs x (Suc i) candidate best_distance
      else
        let d = distance_between (m_base region) (m_size region) (m_base x)
        in if sint d < sint best_distance
           then find_succ_mapping_loop rs x (Suc i) (Some i) d
           else find_succ_mapping_loop rs x (Suc i) candidate best_distance)"

definition find_succ_mapping :: "address_space \<Rightarrow> memory_mapping \<Rightarrow> nat option" where
  "find_succ_mapping a x = find_succ_mapping_loop (mapped_regions a) x 0 None PTRDIFF_MAX"

text \<open>\<open>put(memory_mapping *)\<close>, with the position the mapping has afterwards.\<close>

definition put_mapping :: "vm_frg \<Rightarrow> address_space \<Rightarrow> memory_mapping \<Rightarrow> nat \<times> address_space" where
  "put_mapping F a m =
     (case find_succ_mapping a m of
        Some i \<Rightarrow> (i, a\<lparr>mapped_regions := fl_insert (region_list F) (mapped_regions a) i m\<rparr>)
      | None \<Rightarrow> (length (mapped_regions a),
                 a\<lparr>mapped_regions := fl_push_back (region_list F) (mapped_regions a) m\<rparr>))"

definition put_hole :: "vm_frg \<Rightarrow> address_space \<Rightarrow> memory_hole \<Rightarrow> address_space" where
  "put_hole F a h =
     (case find_succ_hole a h of
        Some i \<Rightarrow> a\<lparr>memory_holes := fl_insert (hole_list F) (memory_holes a) i h\<rparr>
      | None \<Rightarrow> a\<lparr>memory_holes := fl_push_front (hole_list F) (memory_holes a) h\<rparr>)"

text \<open>The body of \<open>merge_holes\<close> for the hole at position \<open>i\<close>; the result is the list and the
  position of the hole in it. Both neighbours are read before either merge.\<close>

definition merge_prev :: "vm_frg \<Rightarrow> memory_hole list \<Rightarrow> nat \<Rightarrow> memory_hole list \<times> nat" where
  "merge_prev F hs i =
     (if 0 < i \<and> distance_between (h_base (hs ! (i - 1))) (h_size (hs ! (i - 1))) (h_base (hs ! i)) = 0
      then (fl_erase (hole_list F)
              (hs[i := \<lparr>h_base = h_base (hs ! (i - 1)), h_size = h_size (hs ! i) + h_size (hs ! (i - 1))\<rparr>])
              (i - 1), i - 1)
      else (hs, i))"

definition merge_next :: "vm_frg \<Rightarrow> memory_hole list \<Rightarrow> nat \<Rightarrow> memory_hole list" where
  "merge_next F hs i =
     (if Suc i < length hs \<and>
         distance_between (h_base (hs ! i)) (h_size (hs ! i)) (h_base (hs ! Suc i)) = 0
      then fl_erase (hole_list F)
             (hs[i := (hs ! i)\<lparr>h_size := h_size (hs ! i) + h_size (hs ! Suc i)\<rparr>]) (Suc i)
      else hs)"

fun merge_holes_loop :: "vm_frg \<Rightarrow> nat \<Rightarrow> memory_hole list \<Rightarrow> nat \<Rightarrow> memory_hole list result" where
  "merge_holes_loop F 0 hs i = Inl Diverges"
| "merge_holes_loop F (Suc fuel) hs i =
     (if length hs \<le> i then Inr hs
      else
        let (hs1, j) = merge_prev F hs i; hs2 = merge_next F hs1 j
        in merge_holes_loop F fuel hs2 (Suc j))"

definition merge_holes :: "vm_frg \<Rightarrow> address_space \<Rightarrow> address_space result" where
  "merge_holes F a =
     and_then (merge_holes_loop F (Suc (length (memory_holes a))) (memory_holes a) 0) (\<lambda>hs.
       Inr (a\<lparr>memory_holes := hs\<rparr>))"

definition bind_hole :: "vm_frg \<Rightarrow> address_space \<Rightarrow> nat \<Rightarrow> u64 \<Rightarrow> (nat \<times> address_space) result" where
  "bind_hole F a i sz =
     (let hole = memory_holes a ! i
      in kassert (h_size hole \<ge> sz)
           (let base = h_base hole
            in if h_size hole = sz
               then Inr (put_mapping F (a\<lparr>memory_holes := fl_erase (hole_list F) (memory_holes a) i\<rparr>)
                           (new_mapping F base sz))
               else
                 let hole1 = hole\<lparr>h_size := h_size hole - sz\<rparr>
                 in Inr (put_mapping F (a\<lparr>memory_holes := (memory_holes a)[i := hole1]\<rparr>)
                           (new_mapping F (base + h_size hole1 * vm_page_size) sz))))"

fun find_target_hole :: "memory_hole list \<Rightarrow> nat \<Rightarrow> u64 \<Rightarrow> u64 \<Rightarrow> nat option" where
  "find_target_hole [] i base sz = None"
| "find_target_hole (hole # hs) i base sz =
     (if h_base hole \<le> base \<and> h_base hole + h_size hole * vm_page_size \<ge> base + sz * vm_page_size
      then Some i else find_target_hole hs (Suc i) base sz)"

text \<open>What \<open>bind_exact\<close> does to the hole it found: removed, shortened at its start, shortened at its
  end, or split in two.\<close>

definition carve_hole :: "vm_frg \<Rightarrow> memory_hole list \<Rightarrow> nat \<Rightarrow> u64 \<Rightarrow> u64 \<Rightarrow> memory_hole list" where
  "carve_hole F hs i base sz =
     (let t = hs ! i
      in if base = h_base t \<and> sz = h_size t then fl_erase (hole_list F) hs i
         else if base = h_base t
         then hs[i := \<lparr>h_base = h_base t + sz * vm_page_size, h_size = h_size t - sz\<rparr>]
         else if base + sz * vm_page_size = h_base t + h_size t * vm_page_size
         then hs[i := t\<lparr>h_size := h_size t - sz\<rparr>]
         else
           let new_hole = \<lparr>h_base = h_base t, h_size = (base - h_base t) div vm_page_size\<rparr>;
               t1 = \<lparr>h_base = base + sz * vm_page_size,
                     h_size = h_size t - sz - (base - h_base t) div vm_page_size\<rparr>
           in fl_insert (hole_list F) (hs[i := t1]) i new_hole)"

definition bind_exact ::
  "vm_frg \<Rightarrow> address_space \<Rightarrow> u64 \<Rightarrow> u64 \<Rightarrow> (nat option \<times> address_space) result" where
  "bind_exact F a base sz =
     kassert (sz \<noteq> 0) (kassert (base \<noteq> 0)
       (and_then (merge_holes F a) (\<lambda>a1.
          (case find_target_hole (memory_holes a1) 0 base sz of
             None \<Rightarrow> Inr (None, a1)
           | Some i \<Rightarrow>
               let (r, a2) = put_mapping F
                     (a1\<lparr>memory_holes := carve_hole F (memory_holes a1) i base sz\<rparr>)
                     (new_mapping F base sz)
               in Inr (Some r, a2)))))"

definition unbind_region :: "vm_frg \<Rightarrow> address_space \<Rightarrow> nat \<Rightarrow> address_space result" where
  "unbind_region F a r =
     (let region = mapped_regions a ! r;
          a1 = put_hole F a \<lparr>h_base = m_base region, h_size = m_size region\<rparr>
      in merge_holes F (a1\<lparr>mapped_regions := fl_erase (region_list F) (mapped_regions a1) r\<rparr>))"

section \<open>Mapping regions into the page tables\<close>

fun map_region_loop ::
  "'s arch_mm_ops \<Rightarrow> 's \<Rightarrow> u64 \<Rightarrow> memory_mapping \<Rightarrow> u64 \<Rightarrow> nat \<Rightarrow> 's result" where
  "map_region_loop A s ctx m i 0 = Inr s"
| "map_region_loop A s ctx m i (Suc n) =
     (if length (m_pages m) \<le> unat i then Inl OutOfBounds
      else
        and_then (if bp_exists (m_pages m ! unat i)
                  then am_map A s ctx (m_base m + i * vm_page_size) (bp_ptr (m_pages m ! unat i)) 1
                         (m_perms m) (m_cache_mode m)
                  else Inr s)
          (\<lambda>s1. map_region_loop A s1 ctx m (i + 1) n))"

definition map_region ::
  "'s arch_mm_ops \<Rightarrow> 's \<Rightarrow> address_space \<Rightarrow> nat \<Rightarrow> ('s \<times> address_space) result" where
  "map_region A s a r =
     (let m = mapped_regions a ! r
      in and_then (map_region_loop A s (vmm_ctx a) m 0 (unat (m_size m))) (\<lambda>s1.
           Inr (s1, a\<lparr>mapped_regions := (mapped_regions a)[r := m\<lparr>m_mapped := True\<rparr>]\<rparr>)))"

fun unmap_region_loop ::
  "'s arch_mm_ops \<Rightarrow> 's \<Rightarrow> u64 \<Rightarrow> memory_mapping \<Rightarrow> u64 \<Rightarrow> nat \<Rightarrow> 's result" where
  "unmap_region_loop A s ctx m i 0 = Inr s"
| "unmap_region_loop A s ctx m i (Suc n) =
     (if length (m_pages m) \<le> unat i then Inl OutOfBounds
      else
        and_then (if bp_exists (m_pages m ! unat i)
                  then am_unmap A s ctx (m_base m + i * vm_page_size) 1 else Inr s)
          (\<lambda>s1. unmap_region_loop A s1 ctx m (i + 1) n))"

definition unmap_region ::
  "'s arch_mm_ops \<Rightarrow> 's \<Rightarrow> address_space \<Rightarrow> nat \<Rightarrow> ('s \<times> address_space) result" where
  "unmap_region A s a r =
     (let m = mapped_regions a ! r
      in kassert (m_mapped m)
           (and_then (unmap_region_loop A s (vmm_ctx a) m 0 (unat (m_size m))) (\<lambda>s1.
              Inr (s1, a\<lparr>mapped_regions := (mapped_regions a)[r := m\<lparr>m_mapped := False\<rparr>]\<rparr>))))"

section \<open>The public operations\<close>

definition new_address_space ::
  "'s arch_mm_ops \<Rightarrow> vm_frg \<Rightarrow> 's \<Rightarrow> ('s \<times> address_space) result" where
  "new_address_space A F s =
     and_then (am_create_context A s) (\<lambda>(ctx, s1).
       Inr (s1, \<lparr>mapped_regions = [],
         memory_holes = fl_push_back (hole_list F) []
           \<lparr>h_base = vm_user_base, h_size = (vm_user_end - vm_user_base) div vm_page_size\<rparr>,
         vmm_ctx = ctx\<rparr>))"

text \<open>The destructor: the lists are emptied from the front, and deleting a region frees its
  pages.\<close>

fun erase_all :: "'a frg_list_ops \<Rightarrow> 'a list \<Rightarrow> nat \<Rightarrow> 'a list" where
  "erase_all L xs 0 = xs"
| "erase_all L xs (Suc n) = erase_all L (fl_erase L xs 0) n"

definition delete_address_space ::
  "'s arch_mm_ops \<Rightarrow> vm_frg \<Rightarrow> 's \<Rightarrow> address_space \<Rightarrow> ('s \<times> address_space) result" where
  "delete_address_space A F s a =
     and_then (am_destroy_context A s (vmm_ctx a)) (\<lambda>s1.
       Inr (foldl (delete_mapping A) s1 (mapped_regions a),
            a\<lparr>memory_holes := erase_all (hole_list F) (memory_holes a) (length (memory_holes a)),
              mapped_regions := erase_all (region_list F) (mapped_regions a) (length (mapped_regions a))\<rparr>))"

definition set_region :: "address_space \<Rightarrow> nat \<Rightarrow> memory_mapping \<Rightarrow> address_space" where
  "set_region a r m = a\<lparr>mapped_regions := (mapped_regions a)[r := m]\<rparr>"

definition space_allocate ::
  "'s arch_mm_ops \<Rightarrow> vm_frg \<Rightarrow> 's \<Rightarrow> address_space \<Rightarrow> u64 \<Rightarrow> cint \<Rightarrow> cint \<Rightarrow> (u64 \<times> 's \<times> address_space) result" where
  "space_allocate A F s a sz perms cache =
     (case find_free_hole a sz of
        None \<Rightarrow> Inr (0, s, a)
      | Some i \<Rightarrow>
          and_then (bind_hole F a i sz) (\<lambda>(r, a1).
          and_then (mapping_allocate (mapped_regions a1 ! r) perms cache) (\<lambda>mem.
          and_then (map_region A s (set_region a1 r mem) r) (\<lambda>(s1, a2).
            Inr (m_base (mapped_regions a2 ! r), s1, a2)))))"

definition space_map ::
  "'s arch_mm_ops \<Rightarrow> vm_frg \<Rightarrow> 's \<Rightarrow> address_space \<Rightarrow> u64 \<Rightarrow> u64 \<Rightarrow> cint \<Rightarrow> cint \<Rightarrow> (u64 \<times> 's \<times> address_space) result" where
  "space_map A F s a address sz perms cache =
     (case find_free_hole a sz of
        None \<Rightarrow> Inr (0, s, a)
      | Some i \<Rightarrow>
          and_then (bind_hole F a i sz) (\<lambda>(r, a1).
          and_then (mapping_map_to (mapped_regions a1 ! r) address perms cache) (\<lambda>mem.
          and_then (map_region A s (set_region a1 r mem) r) (\<lambda>(s1, a2).
            Inr (m_base (mapped_regions a2 ! r), s1, a2)))))"

definition space_allocate_at ::
  "'s arch_mm_ops \<Rightarrow> vm_frg \<Rightarrow> 's \<Rightarrow> address_space \<Rightarrow> u64 \<Rightarrow> u64 \<Rightarrow> cint \<Rightarrow> cint \<Rightarrow> (u64 \<times> 's \<times> address_space) result" where
  "space_allocate_at A F s a base sz perms cache =
     and_then (bind_exact F a base sz) (\<lambda>(r, a1).
       (case r of
          None \<Rightarrow> Inr (0, s, a1)
        | Some r \<Rightarrow>
            and_then (mapping_allocate (mapped_regions a1 ! r) perms cache) (\<lambda>mem.
            and_then (map_region A s (set_region a1 r mem) r) (\<lambda>(s1, a2).
              Inr (m_base (mapped_regions a2 ! r), s1, a2)))))"

definition space_map_at ::
  "'s arch_mm_ops \<Rightarrow> vm_frg \<Rightarrow> 's \<Rightarrow> address_space \<Rightarrow> u64 \<Rightarrow> u64 \<Rightarrow> u64 \<Rightarrow> cint \<Rightarrow> cint \<Rightarrow>
   (u64 \<times> 's \<times> address_space) result" where
  "space_map_at A F s a base address sz perms cache =
     and_then (bind_exact F a base sz) (\<lambda>(r, a1).
       (case r of
          None \<Rightarrow> Inr (0, s, a1)
        | Some r \<Rightarrow>
            and_then (mapping_map_to (mapped_regions a1 ! r) address perms cache) (\<lambda>mem.
            and_then (map_region A s (set_region a1 r mem) r) (\<lambda>(s1, a2).
              Inr (m_base (mapped_regions a2 ! r), s1, a2)))))"

definition destroy_region ::
  "'s arch_mm_ops \<Rightarrow> vm_frg \<Rightarrow> 's \<Rightarrow> address_space \<Rightarrow> nat \<Rightarrow> ('s \<times> address_space) result" where
  "destroy_region A F s a r =
     and_then (unmap_region A s a r) (\<lambda>(s1, a1).
     and_then (unbind_region F a1 r) (\<lambda>a2.
       Inr (delete_mapping A s1 (mapped_regions a1 ! r), a2)))"

fun region_for_address_loop :: "memory_mapping list \<Rightarrow> nat \<Rightarrow> u64 \<Rightarrow> nat option" where
  "region_for_address_loop [] i address = None"
| "region_for_address_loop (region # rs) i address =
     (if address \<ge> m_base region \<and> address \<le> m_base region + m_size region * vm_page_size
      then Some i else region_for_address_loop rs (Suc i) address)"

definition region_for_address :: "address_space \<Rightarrow> u64 \<Rightarrow> nat option" where
  "region_for_address a address = region_for_address_loop (mapped_regions a) 0 address"

definition destroy_address ::
  "'s arch_mm_ops \<Rightarrow> vm_frg \<Rightarrow> 's \<Rightarrow> address_space \<Rightarrow> u64 \<Rightarrow> ('s \<times> address_space) result" where
  "destroy_address A F s a address =
     (case region_for_address a address of
        None \<Rightarrow> Inl NullDeref
      | Some r \<Rightarrow> destroy_region A F s a r)"

definition space_fault_hit ::
  "'s arch_mm_ops \<Rightarrow> 's \<Rightarrow> address_space \<Rightarrow> u64 \<Rightarrow> (bool \<times> 's \<times> address_space) result" where
  "space_fault_hit A s a address =
     (case region_for_address a address of
        None \<Rightarrow> Inr (False, s, a)
      | Some r \<Rightarrow>
          and_then (mapping_fault_hit A s (mapped_regions a ! r) address) (\<lambda>(res, s1, m1).
            let a1 = set_region a r m1
            in (case res of
                  remap_valid \<Rightarrow>
                    and_then (map_region A s1 a1 r) (\<lambda>(s2, a2). Inr (True, s2, a2))
                | ignore \<Rightarrow> Inr (True, s1, a1)
                | _ \<Rightarrow> Inr (False, s1, a1))))"

definition space_touch ::
  "'s arch_mm_ops \<Rightarrow> 's \<Rightarrow> address_space \<Rightarrow> u64 \<Rightarrow> ('s \<times> address_space) result" where
  "space_touch A s a address =
     (case region_for_address a address of
        None \<Rightarrow> Inr (s, a)
      | Some r \<Rightarrow>
          and_then (mapping_touch A s (mapped_regions a ! r)
                      ((address - m_base (mapped_regions a ! r)) div vm_page_size)) (\<lambda>(t, s1, m1).
            if t then map_region A s1 (set_region a r m1) r else Inr (s1, set_region a r m1)))"

definition space_touch_all ::
  "'s arch_mm_ops \<Rightarrow> 's \<Rightarrow> address_space \<Rightarrow> u64 \<Rightarrow> ('s \<times> address_space) result" where
  "space_touch_all A s a address =
     (case region_for_address a address of
        None \<Rightarrow> Inr (s, a)
      | Some r \<Rightarrow>
          and_then (mapping_touch_all A s (mapped_regions a ! r)) (\<lambda>(t, s1, m1).
            if t then map_region A s1 (set_region a r m1) r else Inr (s1, set_region a r m1)))"

definition space_load ::
  "'s arch_mm_ops \<Rightarrow> 's \<Rightarrow> address_space \<Rightarrow> u64 \<Rightarrow> u64 \<Rightarrow> u64 \<Rightarrow> ('s \<times> address_space) result" where
  "space_load A s a address data sz =
     (case region_for_address a address of
        None \<Rightarrow> Inr (s, a)
      | Some r \<Rightarrow>
          and_then (mapping_load A s (mapped_regions a ! r)
                      (address - m_base (mapped_regions a ! r)) data sz) (\<lambda>(t, s1, m1).
            if t then map_region A s1 (set_region a r m1) r else Inr (s1, set_region a r m1)))"

definition space_store ::
  "'s arch_mm_ops \<Rightarrow> 's \<Rightarrow> address_space \<Rightarrow> u64 \<Rightarrow> u64 \<Rightarrow> u64 \<Rightarrow> ('s \<times> address_space) result" where
  "space_store A s a address data sz =
     (case region_for_address a address of
        None \<Rightarrow> Inr (s, a)
      | Some r \<Rightarrow>
          and_then (mapping_store A s (mapped_regions a ! r)
                      (address - m_base (mapped_regions a ! r)) data sz) (\<lambda>(t, s1, m1).
            if t then map_region A s1 (set_region a r m1) r else Inr (s1, set_region a r m1)))"

end
