(* ===== verification/Partition.thy ===== *)
theory Partition
  imports AddressSpace
begin

text \<open>
  The pages of an address space are partitioned: every page of the user half belongs to exactly one
  hole or one region, whatever sequence of operations the address space has gone through. The lemmas
  on the lists are proved for any containers that keep the contract of frigg's.
\<close>

section \<open>Page intervals\<close>

text \<open>The page numbers of the \<open>n\<close> pages from address \<open>b\<close>, as a multiset, and the intervals an
  address space may hold: page-aligned and inside the user half.\<close>

definition pages_of :: "u64 \<Rightarrow> u64 \<Rightarrow> nat multiset" where
  "pages_of b n = mset_set {unat b div 4096 ..< unat b div 4096 + unat n}"

definition wf_ivl :: "u64 \<Rightarrow> u64 \<Rightarrow> bool" where
  "wf_ivl b n \<longleftrightarrow> unat b mod 4096 = 0 \<and> unat b + unat n * 4096 \<le> 0x800000000000"

lemma unat_page_size [simp]: "unat vm_page_size = 4096"
  by (simp add: vm_page_size_def)

lemma unat_end:
  assumes "unat b + unat n * 4096 < 2 ^ 64"
  shows "unat (b + n * vm_page_size) = unat b + unat n * 4096"
proof -
  have "unat (n * vm_page_size) = unat n * 4096"
    using assms unat_mult_less [of n vm_page_size] by simp
  then show ?thesis using assms unat_add_less [of b "n * vm_page_size"] by simp
qed

lemma wf_ivl_end: "wf_ivl b n \<Longrightarrow> unat (b + n * vm_page_size) = unat b + unat n * 4096"
  by (rule unat_end) (simp add: wf_ivl_def)

lemma pages_of_0 [simp]: "pages_of b 0 = {#}"
  by (simp add: pages_of_def)

lemma pages_of_append:
  "unat b' = unat b + unat k * 4096 \<Longrightarrow> unat n = unat k + unat l \<Longrightarrow>
   pages_of b n = pages_of b k + pages_of b' l"
proof -
  assume b: "unat b' = unat b + unat k * 4096" and n: "unat n = unat k + unat l"
  let ?p = "unat b div 4096"
  have "{?p ..< ?p + unat n} = {?p ..< ?p + unat k} \<union> {?p + unat k ..< ?p + unat k + unat l}"
    using n by auto
  then have "pages_of b n = mset_set {?p ..< ?p + unat k} + mset_set {?p + unat k ..< ?p + unat k + unat l}"
    unfolding pages_of_def by (simp add: mset_set_Union)
  moreover have "unat b' div 4096 = ?p + unat k" using b by simp
  ultimately show ?thesis unfolding pages_of_def by simp
qed

lemma split_ivl:
  assumes "wf_ivl b n" "k \<le> n"
  shows "wf_ivl b k" "wf_ivl (b + k * vm_page_size) (n - k)"
    "pages_of b n = pages_of b k + pages_of (b + k * vm_page_size) (n - k)"
    "unat (b + k * vm_page_size) = unat b + unat k * 4096"
proof -
  have k: "unat k \<le> unat n" using assms(2) by (simp add: word_le_nat_alt)
  have d: "unat (n - k) = unat n - unat k" using assms(2) by (rule unat_sub_le)
  show w: "wf_ivl b k" using assms(1) k by (simp add: wf_ivl_def)
  show e: "unat (b + k * vm_page_size) = unat b + unat k * 4096" by (rule wf_ivl_end [OF w])
  show "wf_ivl (b + k * vm_page_size) (n - k)"
    using assms(1) k by (simp add: wf_ivl_def e d diff_mult_distrib)
  show "pages_of b n = pages_of b k + pages_of (b + k * vm_page_size) (n - k)"
    using k by (intro pages_of_append e) (simp add: d)
qed

lemma join_ivl:
  assumes "wf_ivl b1 n1" "wf_ivl b2 n2" "distance_between b1 n1 b2 = 0"
  shows "wf_ivl b1 (n1 + n2)" "pages_of b1 (n1 + n2) = pages_of b1 n1 + pages_of b2 n2"
    "b1 + (n1 + n2) * vm_page_size = b2 + n2 * vm_page_size"
proof -
  have "b2 = b1 + n1 * vm_page_size" using assms(3) by (simp add: distance_between_def)
  then have e: "unat b2 = unat b1 + unat n1 * 4096" using wf_ivl_end [OF assms(1)] by simp
  have n: "unat (n1 + n2) = unat n1 + unat n2"
    using assms(1,2) by (intro unat_add_less) (simp add: wf_ivl_def)
  show "wf_ivl b1 (n1 + n2)" using assms(1,2) by (simp add: wf_ivl_def n e algebra_simps)
  show "pages_of b1 (n1 + n2) = pages_of b1 n1 + pages_of b2 n2"
    by (rule pages_of_append [OF e n])
  show "b1 + (n1 + n2) * vm_page_size = b2 + n2 * vm_page_size"
    using assms(3) by (simp add: distance_between_def algebra_simps)
qed

section \<open>The page partition\<close>

definition hole_pages :: "memory_hole \<Rightarrow> nat multiset" where
  "hole_pages h = pages_of (h_base h) (h_size h)"

definition region_pages :: "memory_mapping \<Rightarrow> nat multiset" where
  "region_pages m = pages_of (m_base m) (m_size m)"

definition free_of :: "memory_hole list \<Rightarrow> nat multiset" where
  "free_of hs = (\<Sum>h\<in>#mset hs. hole_pages h)"

definition bound_of :: "memory_mapping list \<Rightarrow> nat multiset" where
  "bound_of ms = (\<Sum>m\<in>#mset ms. region_pages m)"

definition wf_hole :: "memory_hole \<Rightarrow> bool" where
  "wf_hole h \<longleftrightarrow> wf_ivl (h_base h) (h_size h)"

definition wf_region :: "memory_mapping \<Rightarrow> bool" where
  "wf_region m \<longleftrightarrow> wf_ivl (m_base m) (m_size m) \<and> length (m_pages m) = unat (m_size m)"

text \<open>All pages of the user half.\<close>

definition user_pages :: "nat multiset" where
  "user_pages = mset_set {1 ..< 0x800000000}"

definition space_inv :: "address_space \<Rightarrow> bool" where
  "space_inv a \<longleftrightarrow> (\<forall>h\<in>set (memory_holes a). wf_hole h) \<and> (\<forall>m\<in>set (mapped_regions a). wf_region m) \<and>
     free_of (memory_holes a) + bound_of (mapped_regions a) = user_pages"

lemma free_of_update:
  "i < length hs \<Longrightarrow> free_of (hs[i := h]) + hole_pages (hs ! i) = free_of hs + hole_pages h"
proof -
  assume i: "i < length hs"
  have "mset hs = add_mset (hs ! i) (mset hs - {#hs ! i#})" using i by simp
  then have "free_of hs = hole_pages (hs ! i) + (\<Sum>h\<in>#mset hs - {#hs ! i#}. hole_pages h)"
    unfolding free_of_def by (metis image_mset_add_mset sum_mset.insert)
  then show ?thesis using i by (simp add: free_of_def mset_update)
qed

lemma bound_of_update:
  "i < length ms \<Longrightarrow> bound_of (ms[i := m]) + region_pages (ms ! i) = bound_of ms + region_pages m"
proof -
  assume i: "i < length ms"
  have "mset ms = add_mset (ms ! i) (mset ms - {#ms ! i#})" using i by simp
  then have "bound_of ms = region_pages (ms ! i) + (\<Sum>m\<in>#mset ms - {#ms ! i#}. region_pages m)"
    unfolding bound_of_def by (metis image_mset_add_mset sum_mset.insert)
  then show ?thesis using i by (simp add: bound_of_def mset_update)
qed

section \<open>The lists of an address space\<close>

locale vm_containers =
  rl: frg_list "region_list F" + hl: frg_list "hole_list F" + pv: frg_vector "page_vector F" no_page
  for F :: vm_frg

lemma find_succ_mapping_loop_range:
  "find_succ_mapping_loop rs x i c d = Some j \<Longrightarrow> c = Some j \<or> i \<le> j \<and> j < i + length rs"
  by (induction rs x i c d rule: find_succ_mapping_loop.induct)
     (auto simp: Let_def split: if_splits)

lemma find_succ_hole_loop_range:
  "find_succ_hole_loop rs x i c d = Some j \<Longrightarrow> c = Some j \<or> i \<le> j \<and> j < i + length rs"
  by (induction rs x i c d rule: find_succ_hole_loop.induct)
     (auto simp: Let_def split: if_splits)

lemma find_succ_mapping_less: "find_succ_mapping a m = Some i \<Longrightarrow> i < length (mapped_regions a)"
  unfolding find_succ_mapping_def by (drule find_succ_mapping_loop_range) simp

lemma find_succ_hole_less: "find_succ_hole a h = Some i \<Longrightarrow> i < length (memory_holes a)"
  unfolding find_succ_hole_def by (drule find_succ_hole_loop_range) simp

context vm_containers
begin

lemma put_mapping_mset:
  "put_mapping F a m = (r, a') \<Longrightarrow> mset (mapped_regions a') = add_mset m (mset (mapped_regions a))"
  by (auto simp: put_mapping_def rl.mset_push_back rl.mset_insert_before
      dest: find_succ_mapping_less split: option.splits)

lemma put_mapping_nth:
  "put_mapping F a m = (r, a') \<Longrightarrow> r < length (mapped_regions a') \<and> mapped_regions a' ! r = m"
  by (auto simp: put_mapping_def rl.push_back rl.insert_before nth_append
      dest: find_succ_mapping_less split: option.splits)

lemma put_mapping_frame:
  "put_mapping F a m = (r, a') \<Longrightarrow> memory_holes a' = memory_holes a \<and> vmm_ctx a' = vmm_ctx a"
  by (auto simp: put_mapping_def split: option.splits)

lemma put_hole_mset: "mset (memory_holes (put_hole F a h)) = add_mset h (mset (memory_holes a))"
  by (auto simp: put_hole_def hl.mset_push_front hl.mset_insert_before
      dest: find_succ_hole_less split: option.splits)

lemma put_hole_frame [simp]:
  "mapped_regions (put_hole F a h) = mapped_regions a" "vmm_ctx (put_hole F a h) = vmm_ctx a"
  by (auto simp: put_hole_def split: option.splits)

lemma free_of_erase: "i < length hs \<Longrightarrow> free_of hs = hole_pages (hs ! i) + free_of (fl_erase (hole_list F) hs i)"
  unfolding free_of_def by (subst hl.mset_erase_at) simp_all

lemma set_erase_holes: "i < length hs \<Longrightarrow> set (fl_erase (hole_list F) hs i) \<subseteq> set hs"
  by (auto simp: hl.erase_at dest: in_set_takeD in_set_dropD)

lemma ball_erase:
  "i < length hs \<Longrightarrow> \<forall>h\<in>set hs. P h \<Longrightarrow> \<forall>h\<in>set (fl_erase (hole_list F) hs i). P h"
  using set_erase_holes by blast

lemma merge_prev_inv:
  assumes "i < length hs" "\<forall>h\<in>set hs. wf_hole h" "merge_prev F hs i = (hs', j)"
  shows "(\<forall>h\<in>set hs'. wf_hole h) \<and> free_of hs' = free_of hs \<and> j < length hs' \<and>
         length hs' - j = length hs - i"
proof (cases "0 < i \<and> distance_between (h_base (hs ! (i - 1))) (h_size (hs ! (i - 1))) (h_base (hs ! i)) = 0")
  case True
  let ?p = "hs ! (i - 1)" and ?h = "hs ! i"
  let ?n = "\<lparr>h_base = h_base ?p, h_size = h_size ?h + h_size ?p\<rparr>"
  have e: "hs' = fl_erase (hole_list F) (hs[i := ?n]) (i - 1)" "j = i - 1"
    using True assms(3) by (auto simp: merge_prev_def)
  have wf: "wf_ivl (h_base ?p) (h_size ?p)" "wf_ivl (h_base ?h) (h_size ?h)"
    using assms(1,2) by (auto simp: wf_hole_def)
  note join = join_ivl [OF wf] 
  have n: "wf_hole ?n" "hole_pages ?n = hole_pages ?p + hole_pages ?h"
    using join True by (simp_all add: wf_hole_def hole_pages_def add.commute)
  have "\<forall>h\<in>set (hs[i := ?n]). wf_hole h" by (rule ball_update [OF assms(2) n(1)])
  then have "\<forall>h\<in>set hs'. wf_hole h" unfolding e using assms(1) by (intro ball_erase) simp_all
  moreover have "free_of (hs[i := ?n]) = hole_pages ?p + free_of hs'"
    using free_of_erase [of "i - 1" "hs[i := ?n]"] e assms(1) True by (auto simp: nth_list_update)
  then have "free_of hs' = free_of hs"
    using free_of_update [OF assms(1), of ?n] n(2) by simp
  moreover have "j < length hs'" "length hs' - j = length hs - i"
    using e True assms(1) by (auto simp: hl.length_erase_at)
  ultimately show ?thesis by blast
next
  case False
  then show ?thesis using assms by (auto simp: merge_prev_def)
qed

lemma merge_next_inv:
  assumes "i < length hs" "\<forall>h\<in>set hs. wf_hole h"
  shows "(\<forall>h\<in>set (merge_next F hs i). wf_hole h) \<and> free_of (merge_next F hs i) = free_of hs \<and>
         i < length (merge_next F hs i) \<and> length (merge_next F hs i) \<le> length hs"
proof (cases "Suc i < length hs \<and>
         distance_between (h_base (hs ! i)) (h_size (hs ! i)) (h_base (hs ! Suc i)) = 0")
  case True
  let ?h = "hs ! i" and ?x = "hs ! Suc i"
  let ?n = "?h\<lparr>h_size := h_size ?h + h_size ?x\<rparr>"
  have e: "merge_next F hs i = fl_erase (hole_list F) (hs[i := ?n]) (Suc i)"
    using True by (simp add: merge_next_def)
  have wf: "wf_ivl (h_base ?h) (h_size ?h)" "wf_ivl (h_base ?x) (h_size ?x)"
    using True assms by (auto simp: wf_hole_def)
  note join = join_ivl [OF wf] 
  have n: "wf_hole ?n" "hole_pages ?n = hole_pages ?h + hole_pages ?x"
    using join True by (simp_all add: wf_hole_def hole_pages_def)
  have "\<forall>h\<in>set (hs[i := ?n]). wf_hole h" by (rule ball_update [OF assms(2) n(1)])
  then have "\<forall>h\<in>set (merge_next F hs i). wf_hole h"
    unfolding e using True by (intro ball_erase) simp_all
  moreover have "free_of (hs[i := ?n]) = hole_pages ?x + free_of (merge_next F hs i)"
    using free_of_erase [of "Suc i" "hs[i := ?n]"] e True by simp
  then have "free_of (merge_next F hs i) = free_of hs"
    using free_of_update [OF assms(1), of ?n] n(2) by simp
  moreover have "i < length (merge_next F hs i)" "length (merge_next F hs i) \<le> length hs"
    using e True by (auto simp: hl.length_erase_at)
  ultimately show ?thesis by blast
next
  case False
  then show ?thesis using assms by (auto simp: merge_next_def)
qed

lemma merge_holes_loop_inv:
  assumes "length hs - i < fuel" "\<forall>h\<in>set hs. wf_hole h"
  shows "\<exists>hs'. merge_holes_loop F fuel hs i = Inr hs' \<and> (\<forall>h\<in>set hs'. wf_hole h) \<and> free_of hs' = free_of hs"
  using assms
proof (induction fuel arbitrary: hs i)
  case 0
  then show ?case by simp
next
  case (Suc fuel)
  show ?case
  proof (cases "i < length hs")
    case True
    obtain hs1 j where p: "merge_prev F hs i = (hs1, j)" by force
    note mp = merge_prev_inv [OF True Suc.prems(2) p]
    then have mn: "(\<forall>h\<in>set (merge_next F hs1 j). wf_hole h) \<and> free_of (merge_next F hs1 j) = free_of hs1 \<and>
         j < length (merge_next F hs1 j) \<and> length (merge_next F hs1 j) \<le> length hs1"
      using merge_next_inv by blast
    have "length (merge_next F hs1 j) - Suc j < fuel" using mp mn Suc.prems(1) by linarith
    from Suc.IH [OF this] show ?thesis using mp mn True p by auto
  next
    case False
    then show ?thesis using Suc.prems by auto
  qed
qed

lemma merge_holes_inv:
  assumes "space_inv a"
  obtains a' where "merge_holes F a = Inr a'" "space_inv a'" "mapped_regions a' = mapped_regions a"
    "vmm_ctx a' = vmm_ctx a" "free_of (memory_holes a') = free_of (memory_holes a)"
proof -
  have "\<forall>h\<in>set (memory_holes a). wf_hole h" using assms by (simp add: space_inv_def)
  then obtain hs' where "merge_holes_loop F (Suc (length (memory_holes a))) (memory_holes a) 0 = Inr hs'"
    "\<forall>h\<in>set hs'. wf_hole h" "free_of hs' = free_of (memory_holes a)"
    using merge_holes_loop_inv [of "memory_holes a" 0] by (metis diff_zero lessI)
  then show thesis
    using assms that [of "a\<lparr>memory_holes := hs'\<rparr>"]
    by (simp add: merge_holes_def space_inv_def)
qed

end

text \<open>The hole an allocation is to take: of those large enough, one with the highest base.\<close>

definition best_hole :: "memory_hole list \<Rightarrow> u64 \<Rightarrow> nat option \<Rightarrow> bool" where
  "best_hole hs sz r \<longleftrightarrow>
     (case r of
        None \<Rightarrow> \<forall>h\<in>set hs. h_size h < sz
      | Some i \<Rightarrow> i < length hs \<and> h_size (hs ! i) \<ge> sz \<and>
                  (\<forall>h\<in>set hs. h_size h \<ge> sz \<longrightarrow> h_base h \<le> h_base (hs ! i)))"

lemma find_free_hole_loop_spec:
  assumes "find_free_hole_loop hs i sz c b = r" "length xs = i" 
    "c = None \<longrightarrow> b = 0 \<and> (\<forall>h\<in>set xs. h_size h < sz)"
    "\<forall>j. c = Some j \<longrightarrow> j < i \<and> h_base (xs ! j) = b \<and> h_size (xs ! j) \<ge> sz"
    "\<forall>h\<in>set xs. h_size h \<ge> sz \<longrightarrow> h_base h \<le> b"
  shows "best_hole (xs @ hs) sz r"
  using assms
proof (induction hs i sz c b arbitrary: xs rule: find_free_hole_loop.induct)
  case (1 i sz c b)
  then show ?case by (cases r) (auto simp: best_hole_def)
next
  case (2 hole hs i sz c b)
  show ?case
  proof (cases "h_size hole \<ge> sz \<and> h_base hole \<ge> b")
    case True
    have "\<forall>h\<in>set (xs @ [hole]). h_size h \<ge> sz \<longrightarrow> h_base h \<le> h_base hole"
      using "2.prems"(5) True by auto
    then show ?thesis
      using "2.IH"(1) [OF True, of "xs @ [hole]"] "2.prems"(1,2) True by (simp add: nth_append)
  next
    case False
    have "\<forall>h\<in>set (xs @ [hole]). h_size h \<ge> sz \<longrightarrow> h_base h \<le> b"
      using "2.prems"(5) False by auto
    moreover have "c = None \<longrightarrow> b = 0 \<and> (\<forall>h\<in>set (xs @ [hole]). h_size h < sz)"
      using "2.prems"(3) False by auto
    ultimately show ?thesis
      using "2.IH"(2) [OF False, of "xs @ [hole]"] "2.prems" False by (cases c) (auto simp: nth_append)
  qed
qed

lemma find_free_hole_spec: "best_hole (memory_holes a) sz (find_free_hole a sz)"
  using find_free_hole_loop_spec [of "memory_holes a" 0 sz None 0 _ "[]"]
  by (simp add: find_free_hole_def)

lemma find_target_hole_spec:
  "find_target_hole hs i base sz = Some j \<Longrightarrow>
   i \<le> j \<and> j < i + length hs \<and> h_base (hs ! (j - i)) \<le> base \<and>
   base + sz * vm_page_size \<le> h_base (hs ! (j - i)) + h_size (hs ! (j - i)) * vm_page_size"
  by (induction hs i base sz rule: find_target_hole.induct)
     (auto split: if_splits simp: nth_Cons' Suc_le_eq)

lemma find_target_hole_None:
  "find_target_hole hs i base sz = None \<Longrightarrow> h \<in> set hs \<Longrightarrow>
   \<not> (h_base h \<le> base \<and> base + sz * vm_page_size \<le> h_base h + h_size h * vm_page_size)"
  by (induction hs i base sz rule: find_target_hole.induct) (auto split: if_splits)

text \<open>The invariant in the form the proofs use: a list of holes and one of regions.\<close>

definition partition_ok :: "memory_hole list \<Rightarrow> memory_mapping list \<Rightarrow> bool" where
  "partition_ok hs ms \<longleftrightarrow> (\<forall>h\<in>set hs. wf_hole h) \<and> (\<forall>m\<in>set ms. wf_region m) \<and>
     free_of hs + bound_of ms = user_pages"

lemma space_inv_partition: "space_inv a \<longleftrightarrow> partition_ok (memory_holes a) (mapped_regions a)"
  by (simp add: space_inv_def partition_ok_def)

context vm_containers
begin

lemma new_mapping_sel [simp]:
  "m_base (new_mapping F b n) = b" "m_size (new_mapping F b n) = n"
  "m_pages (new_mapping F b n) = replicate (unat n) no_page"
  "m_mapped (new_mapping F b n) = False"
  by (simp_all add: new_mapping_def pv.vec_resize_Nil)

lemma new_mapping_wf: "wf_ivl b n \<Longrightarrow> wf_region (new_mapping F b n)"
  by (simp add: wf_region_def)

text \<open>Putting a new region where the holes have given up its pages.\<close>

lemma put_mapping_inv:
  assumes "\<forall>h\<in>set (memory_holes a). wf_hole h" "\<forall>m\<in>set (mapped_regions a). wf_region m"
    "free_of (memory_holes a) + pages_of b n + bound_of (mapped_regions a) = user_pages"
    "wf_ivl b n" "put_mapping F a (new_mapping F b n) = (r, a')"
  shows "space_inv a'"
proof -
  note ms = put_mapping_mset [OF assms(5)] and fr = put_mapping_frame [OF assms(5)]
  have "set (mapped_regions a') = insert (new_mapping F b n) (set (mapped_regions a))"
    using arg_cong [OF ms, of set_mset] by simp
  moreover have "bound_of (mapped_regions a') = pages_of b n + bound_of (mapped_regions a)"
    using ms by (simp add: bound_of_def region_pages_def)
  ultimately show ?thesis
    using assms fr new_mapping_wf [OF assms(4)] by (simp add: space_inv_def add.assoc)
qed

lemma bind_hole_inv:
  assumes "space_inv a" "i < length (memory_holes a)" "sz \<le> h_size (memory_holes a ! i)"
  obtains r a' where "bind_hole F a i sz = Inr (r, a')" "space_inv a'"
    "r < length (mapped_regions a')"
    "mapped_regions a' ! r = new_mapping F (h_base (memory_holes a ! i) +
       (h_size (memory_holes a ! i) - sz) * vm_page_size) sz"
    "mset (mapped_regions a') = add_mset (mapped_regions a' ! r) (mset (mapped_regions a))"
    "vmm_ctx a' = vmm_ctx a"
proof -
  let ?h = "memory_holes a ! i"
  let ?b = "h_base ?h + (h_size ?h - sz) * vm_page_size" and ?k = "h_size ?h - sz"
  have inv: "\<forall>h\<in>set (memory_holes a). wf_hole h" "\<forall>m\<in>set (mapped_regions a). wf_region m"
    "free_of (memory_holes a) + bound_of (mapped_regions a) = user_pages"
    using assms(1) by (simp_all add: space_inv_def)
  have wf: "wf_ivl (h_base ?h) (h_size ?h)" using inv(1) assms(2) by (simp add: wf_hole_def)
  have k: "?k \<le> h_size ?h" "h_size ?h - ?k = sz"
    using assms(3) by (simp_all add: word_le_nat_alt unat_sub_le)
  note sp = split_ivl [OF wf k(1), unfolded k(2)]
  define a1 where "a1 = (if h_size ?h = sz then a\<lparr>memory_holes := fl_erase (hole_list F) (memory_holes a) i\<rparr>
      else a\<lparr>memory_holes := (memory_holes a)[i := ?h\<lparr>h_size := ?k\<rparr>]\<rparr>)"
  have bh: "bind_hole F a i sz = Inr (put_mapping F a1 (new_mapping F ?b sz))"
    using assms(3) by (simp add: bind_hole_def a1_def Let_def)
  have holes: "free_of (memory_holes a1) + pages_of ?b sz = free_of (memory_holes a) \<and>
      (\<forall>h\<in>set (memory_holes a1). wf_hole h)"
  proof (cases "h_size ?h = sz")
    case True
    then show ?thesis
      using free_of_erase [OF assms(2)] ball_erase [OF assms(2) inv(1)]
      by (simp add: a1_def hole_pages_def add.commute)
  next
    case False
    have "wf_hole (?h\<lparr>h_size := ?k\<rparr>)" using sp(1) by (simp add: wf_hole_def)
    then show ?thesis
      using False free_of_update [OF assms(2), of "?h\<lparr>h_size := ?k\<rparr>"] sp(3) inv(1)
      by (auto simp: a1_def hole_pages_def intro: ball_update [THEN bspec])
  qed
  obtain r a' where p: "put_mapping F a1 (new_mapping F ?b sz) = (r, a')" by force
  have m1: "mapped_regions a1 = mapped_regions a" "vmm_ctx a1 = vmm_ctx a" by (simp_all add: a1_def)
  show thesis
  proof (rule that)
    show "bind_hole F a i sz = Inr (r, a')" using bh p by simp
    show "space_inv a'" using holes m1 inv sp(2)
      by (intro put_mapping_inv [OF _ _ _ _ p]) (simp_all add: add_ac)
  qed (use put_mapping_nth [OF p] put_mapping_mset [OF p] put_mapping_frame [OF p] m1 in simp_all)
qed

end

lemma page_offset:
  assumes "unat b mod 4096 = 0" "unat base mod 4096 = 0" "b \<le> base"
  defines "k \<equiv> (base - b) div vm_page_size"
  shows "base = b + k * vm_page_size" "unat base = unat b + unat k * 4096"
proof -
  have d: "unat (base - b) = unat base - unat b" using assms(3) by (rule unat_sub_le)
  have le: "unat b \<le> unat base" using assms(3) by (simp add: word_le_nat_alt)
  then have k: "unat k * 4096 = unat base - unat b"
    using assms(1,2) d mod_eq_dvd_iff_nat [of "unat b" "unat base" 4096] by (simp add: k_def unat_div)
  then show "unat base = unat b + unat k * 4096" using le by simp
  moreover from this have "unat (b + k * vm_page_size) = unat b + unat k * 4096"
    using unat_u64_less [of base] by (intro unat_end) simp
  ultimately show "base = b + k * vm_page_size" by (simp add: word_unat_eq_iff)
qed

text \<open>An aligned interval inside a hole cuts it in three.\<close>

lemma carve_ivl:
  assumes "wf_ivl b n" "wf_ivl base sz" "b \<le> base" "base + sz * vm_page_size \<le> b + n * vm_page_size"
  defines "k \<equiv> (base - b) div vm_page_size"
  shows "base = b + k * vm_page_size" "wf_ivl b k" "wf_ivl (base + sz * vm_page_size) (n - sz - k)"
    "pages_of b n = pages_of b k + pages_of base sz + pages_of (base + sz * vm_page_size) (n - sz - k)"
    "unat n = unat k + unat sz + unat (n - sz - k)"
proof -
  have al: "unat b mod 4096 = 0" "unat base mod 4096 = 0" using assms(1,2) by (simp_all add: wf_ivl_def)
  show base: "base = b + k * vm_page_size" unfolding k_def by (rule page_offset [OF al assms(3)])
  have ub: "unat base = unat b + unat k * 4096" unfolding k_def by (rule page_offset [OF al assms(3)])
  have "unat base + unat sz * 4096 \<le> unat b + unat n * 4096"
    using assms(4) wf_ivl_end [OF assms(1)] wf_ivl_end [OF assms(2)] by (simp add: word_le_nat_alt)
  then have le: "unat k + unat sz \<le> unat n" using ub by simp
  have kn: "k \<le> n" and sn: "sz \<le> n - k"
    using le by (simp_all add: word_le_nat_alt unat_sub_le)
  have eq: "n - sz - k = n - k - sz" by simp
  note s1 = split_ivl [OF assms(1) kn, folded base]
  note s2 = split_ivl [OF s1(2) sn]
  show "wf_ivl b k" by (rule s1(1))
  show "wf_ivl (base + sz * vm_page_size) (n - sz - k)" unfolding eq by (rule s2(2))
  show "pages_of b n = pages_of b k + pages_of base sz + pages_of (base + sz * vm_page_size) (n - sz - k)"
    unfolding eq s1(3) s2(3) by (simp add: add.assoc)
  show "unat n = unat k + unat sz + unat (n - sz - k)"
    unfolding eq using kn sn le by (simp add: unat_sub_le)
qed

context vm_containers
begin

lemma free_of_insert: "i < length hs \<Longrightarrow> free_of (fl_insert (hole_list F) hs i h) = hole_pages h + free_of hs"
  by (simp add: free_of_def hl.mset_insert_before)

lemma ball_insert:
  "i < length hs \<Longrightarrow> \<forall>h\<in>set hs. P h \<Longrightarrow> P x \<Longrightarrow> \<forall>h\<in>set (fl_insert (hole_list F) hs i x). P h"
  by (auto simp: hl.insert_before dest: in_set_takeD in_set_dropD)

lemma carve_hole_inv:
  assumes i: "i < length hs" and wfs: "\<forall>h\<in>set hs. wf_hole h" and wf: "wf_ivl base sz"
    and le: "h_base (hs ! i) \<le> base"
      "base + sz * vm_page_size \<le> h_base (hs ! i) + h_size (hs ! i) * vm_page_size"
  shows "(\<forall>h\<in>set (carve_hole F hs i base sz). wf_hole h) \<and>
         free_of (carve_hole F hs i base sz) + pages_of base sz = free_of hs"
proof -
  let ?t = "hs ! i"
  define k where "k = (base - h_base ?t) div vm_page_size"
  have wt: "wf_ivl (h_base ?t) (h_size ?t)" using i wfs by (simp add: wf_hole_def)
  note cv = carve_ivl [OF wt wf le, folded k_def]
  have t: "hole_pages ?t = pages_of (h_base ?t) (h_size ?t)" by (simp add: hole_pages_def)
  have upd: "free_of (hs[i := x]) + hole_pages ?t = free_of hs + hole_pages x" for x
    by (rule free_of_update [OF i])
  consider (exact) "base = h_base ?t" "sz = h_size ?t"
    | (leading) "base = h_base ?t" "sz \<noteq> h_size ?t"
    | (trailing) "base \<noteq> h_base ?t" "base + sz * vm_page_size = h_base ?t + h_size ?t * vm_page_size"
    | (middle) "base \<noteq> h_base ?t" "base + sz * vm_page_size \<noteq> h_base ?t + h_size ?t * vm_page_size"
    by blast
  then show ?thesis
  proof cases
    case exact
    then show ?thesis
      using free_of_erase [OF i] ball_erase [OF i wfs] t by (simp add: carve_hole_def add.commute)
  next
    case leading
    then have "k = 0" by (simp add: k_def)
    then show ?thesis
      using leading cv t upd [of "\<lparr>h_base = base + sz * vm_page_size, h_size = h_size ?t - sz\<rparr>"]
        ball_update [OF wfs, of "\<lparr>h_base = base + sz * vm_page_size, h_size = h_size ?t - sz\<rparr>" i]
      by (simp add: carve_hole_def Let_def wf_hole_def hole_pages_def add_ac)
  next
    case trailing
    have "unat (h_size ?t - sz - k) = 0"
      using arg_cong [OF trailing(2), of unat] wf_ivl_end [OF cv(2), folded cv(1)] cv(5)
      unfolding wf_ivl_end [OF wt] wf_ivl_end [OF wf] by linarith
    then have "h_size ?t - sz - k = 0" by (simp add: unat_eq_zero)
    then have "k = h_size ?t - sz" "pages_of (base + sz * vm_page_size) (h_size ?t - sz - k) = {#}" by simp_all
    then show ?thesis
      using trailing cv t upd [of "?t\<lparr>h_size := h_size ?t - sz\<rparr>"]
        ball_update [OF wfs, of "?t\<lparr>h_size := h_size ?t - sz\<rparr>" i]
      by (simp add: carve_hole_def Let_def wf_hole_def hole_pages_def add_ac)
  next
    case middle
    let ?n = "\<lparr>h_base = h_base ?t, h_size = k\<rparr>"
    let ?t1 = "\<lparr>h_base = base + sz * vm_page_size, h_size = h_size ?t - sz - k\<rparr>"
    have "carve_hole F hs i base sz = fl_insert (hole_list F) (hs[i := ?t1]) i ?n"
      using middle by (simp add: carve_hole_def Let_def k_def)
    then show ?thesis
      using cv t upd [of ?t1] ball_update [OF wfs, of ?t1 i] i free_of_insert [of i "hs[i := ?t1]" ?n]
        ball_insert [of i "hs[i := ?t1]" wf_hole ?n]
      by (simp add: wf_hole_def hole_pages_def add_ac)
  qed
qed

lemma bind_exact_inv:
  assumes inv: "space_inv a" and wf: "wf_ivl base sz" and nz: "sz \<noteq> 0" "base \<noteq> 0"
  obtains (full) a' where "bind_exact F a base sz = Inr (None, a')" "space_inv a'"
      "mapped_regions a' = mapped_regions a" "vmm_ctx a' = vmm_ctx a"
      "free_of (memory_holes a') = free_of (memory_holes a)"
      "\<forall>h\<in>set (memory_holes a').
         \<not> (h_base h \<le> base \<and> base + sz * vm_page_size \<le> h_base h + h_size h * vm_page_size)"
  | (bound) r a' where "bind_exact F a base sz = Inr (Some r, a')" "space_inv a'"
      "r < length (mapped_regions a')" "mapped_regions a' ! r = new_mapping F base sz"
      "mset (mapped_regions a') = add_mset (new_mapping F base sz) (mset (mapped_regions a))"
      "vmm_ctx a' = vmm_ctx a"
      "free_of (memory_holes a') + pages_of base sz = free_of (memory_holes a)"
proof -
  obtain a1 where a1: "merge_holes F a = Inr a1" "space_inv a1" "mapped_regions a1 = mapped_regions a"
    "vmm_ctx a1 = vmm_ctx a" "free_of (memory_holes a1) = free_of (memory_holes a)"
    using merge_holes_inv [OF inv] by blast
  show thesis
  proof (cases "find_target_hole (memory_holes a1) 0 base sz")
    case None
    then show thesis
      using full [of a1] a1 nz find_target_hole_None [OF None] by (simp add: bind_exact_def)
  next
    case (Some i)
    let ?hs = "carve_hole F (memory_holes a1) i base sz"
    note t = find_target_hole_spec [OF Some, simplified]
    have w: "\<forall>h\<in>set (memory_holes a1). wf_hole h" using a1(2) by (simp add: space_inv_def)
    have c: "(\<forall>h\<in>set ?hs. wf_hole h) \<and> free_of ?hs + pages_of base sz = free_of (memory_holes a1)"
      using t by (intro carve_hole_inv w wf) simp_all
    obtain r a' where p: "put_mapping F (a1\<lparr>memory_holes := ?hs\<rparr>) (new_mapping F base sz) = (r, a')" by force
    show thesis
    proof (rule bound)
      show "bind_exact F a base sz = Inr (Some r, a')"
        using a1 Some p nz by (simp add: bind_exact_def)
      show "space_inv a'" using c a1 wf
        by (intro put_mapping_inv [OF _ _ _ _ p]) (simp_all add: space_inv_def)
      show "free_of (memory_holes a') + pages_of base sz = free_of (memory_holes a)"
        using c a1(5) put_mapping_frame [OF p] by simp
    qed (use put_mapping_nth [OF p] put_mapping_mset [OF p] put_mapping_frame [OF p] a1 in simp_all)
  qed
qed

lemma unbind_region_inv:
  assumes inv: "space_inv a" and r: "r < length (mapped_regions a)"
  obtains a' where "unbind_region F a r = Inr a'" "space_inv a'" "vmm_ctx a' = vmm_ctx a"
    "mapped_regions a' = fl_erase (region_list F) (mapped_regions a) r"
    "mset (mapped_regions a) = add_mset (mapped_regions a ! r) (mset (mapped_regions a'))"
    "free_of (memory_holes a') = free_of (memory_holes a) + region_pages (mapped_regions a ! r)"
proof -
  let ?m = "mapped_regions a ! r"
  let ?h = "\<lparr>h_base = m_base ?m, h_size = m_size ?m\<rparr>"
  let ?ms = "fl_erase (region_list F) (mapped_regions a) r"
  let ?a1 = "(put_hole F a ?h)\<lparr>mapped_regions := ?ms\<rparr>"
  have ms: "mset (mapped_regions a) = add_mset ?m (mset ?ms)" by (rule rl.mset_erase_at [OF r])
  have wm: "wf_region ?m" using inv r by (simp add: space_inv_def)
  have b: "bound_of (mapped_regions a) = region_pages ?m + bound_of ?ms" by (simp add: bound_of_def ms)
  have sub: "set ?ms \<subseteq> set (mapped_regions a)" by (metis ms set_mset_add_mset_insert set_mset_mset subset_insertI)
  have sh: "set (memory_holes (put_hole F a ?h)) = insert ?h (set (memory_holes a))"
    using arg_cong [OF put_hole_mset [of a ?h], of set_mset] by simp
  have f: "free_of (memory_holes (put_hole F a ?h)) = region_pages ?m + free_of (memory_holes a)"
    by (simp add: free_of_def put_hole_mset hole_pages_def region_pages_def)
  have "space_inv ?a1"
    using inv sub wm b f sh by (auto simp: space_inv_def wf_hole_def wf_region_def add_ac)
  from merge_holes_inv [OF this] obtain a' where a': "merge_holes F ?a1 = Inr a'" "space_inv a'"
    "mapped_regions a' = mapped_regions ?a1" "vmm_ctx a' = vmm_ctx ?a1"
    "free_of (memory_holes a') = free_of (memory_holes ?a1)"
    by blast
  then show thesis using that [of a'] ms f by (simp add: unbind_region_def Let_def add.commute)
qed

end

section \<open>The operations on a region keep its place\<close>

definition same_shape :: "memory_mapping \<Rightarrow> memory_mapping \<Rightarrow> bool" where
  "same_shape m m' \<longleftrightarrow> m_base m' = m_base m \<and> m_size m' = m_size m \<and> length (m_pages m') = length (m_pages m)"

lemma same_shape_refl [simp]: "same_shape m m"
  by (simp add: same_shape_def)

lemma same_shape_trans: "same_shape a b \<Longrightarrow> same_shape b c \<Longrightarrow> same_shape a c"
  by (simp add: same_shape_def)

lemma same_shape_mapped [simp]: "same_shape m (m'\<lparr>m_mapped := b\<rparr>) = same_shape m m'"
  by (simp add: same_shape_def)

lemma set_region_sel [simp]:
  "memory_holes (set_region a r m) = memory_holes a" "vmm_ctx (set_region a r m) = vmm_ctx a"
  "length (mapped_regions (set_region a r m)) = length (mapped_regions a)"
  "r < length (mapped_regions a) \<Longrightarrow> mapped_regions (set_region a r m) ! r = m"
  by (simp_all add: set_region_def)

lemma space_inv_set_region:
  assumes "space_inv a" "r < length (mapped_regions a)" "same_shape (mapped_regions a ! r) m"
  shows "space_inv (set_region a r m)"
proof -
  have m: "wf_region (mapped_regions a ! r)" using assms by (simp add: space_inv_def)
  have "\<forall>m\<in>set ((mapped_regions a)[r := m]). wf_region m"
    using assms m by (intro ball_update) (auto simp: space_inv_def wf_region_def same_shape_def)
  moreover have "region_pages (mapped_regions a ! r) = region_pages m"
    using assms(3) by (simp add: region_pages_def same_shape_def)
  then have "bound_of ((mapped_regions a)[r := m]) = bound_of (mapped_regions a)"
    using bound_of_update [OF assms(2), of m] by simp
  ultimately show ?thesis using assms(1) by (simp add: space_inv_def set_region_def)
qed

lemma allocate_pages_Inr:
  "allocate_pages ps = Inr qs \<Longrightarrow> qs = map (\<lambda>p. p\<lparr>bp_allocated := True\<rparr>) ps"
  by (induction ps arbitrary: qs) (auto simp: and_then_Inr_iff kassert_Inr_iff)

lemma mapping_allocate_shape: "mapping_allocate m p c = Inr m' \<Longrightarrow> same_shape m m'"
  by (auto simp: mapping_allocate_def and_then_Inr_iff same_shape_def dest: allocate_pages_Inr)

lemma map_to_pages_length: "map_to_pages x ps = Inr qs \<Longrightarrow> length qs = length ps"
  by (induction ps arbitrary: qs x) (auto simp: and_then_Inr_iff kassert_Inr_iff)

lemma mapping_map_to_shape: "mapping_map_to m x p c = Inr m' \<Longrightarrow> same_shape m m'"
  by (auto simp: mapping_map_to_def and_then_Inr_iff same_shape_def dest: map_to_pages_length)

lemma mapping_touch_shape: "mapping_touch A s m i = Inr (t, s', m') \<Longrightarrow> same_shape m m'"
  by (auto simp: mapping_touch_def Let_def kassert_Inr_iff same_shape_def split: if_splits prod.splits)

lemma touch_range_shape: "touch_range A s m i n b = Inr (t, s', m') \<Longrightarrow> same_shape m m'"
proof (induction A s m i n b rule: touch_range.induct)
  case (1 A s m i b)
  then show ?case by simp
next
  case (2 A s m i n b)
  then show ?case by (fastforce simp: and_then_Inr_iff dest: mapping_touch_shape intro: same_shape_trans)
qed

lemma ensure_load_store_shape: "ensure_load_store A s m off sz = Inr (t, s', m') \<Longrightarrow> same_shape m m'"
  by (auto simp: ensure_load_store_def Let_def kassert_Inr_iff dest: touch_range_shape split: if_splits)

lemma mapping_load_shape: "mapping_load A s m off d sz = Inr (t, s', m') \<Longrightarrow> same_shape m m'"
  by (auto simp: mapping_load_def and_then_Inr_iff dest: ensure_load_store_shape)

lemma mapping_store_shape: "mapping_store A s m off d sz = Inr (t, s', m') \<Longrightarrow> same_shape m m'"
  by (auto simp: mapping_store_def and_then_Inr_iff dest: ensure_load_store_shape)

lemma mapping_fault_shape: "mapping_fault_hit A s m x = Inr (t, s', m') \<Longrightarrow> same_shape m m'"
  by (auto simp: mapping_fault_hit_def Let_def and_then_Inr_iff dest: mapping_touch_shape split: if_splits)

lemma map_region_set: "map_region A s a r = Inr (s', a') \<Longrightarrow>
  a' = set_region a r ((mapped_regions a ! r)\<lparr>m_mapped := True\<rparr>)"
  by (auto simp: map_region_def Let_def and_then_Inr_iff set_region_def)

lemma unmap_region_set: "unmap_region A s a r = Inr (s', a') \<Longrightarrow>
  a' = set_region a r ((mapped_regions a ! r)\<lparr>m_mapped := False\<rparr>)"
  by (auto simp: unmap_region_def Let_def and_then_Inr_iff kassert_Inr_iff set_region_def)

lemma map_region_inv:
  "map_region A s a r = Inr (s', a') \<Longrightarrow> space_inv a \<Longrightarrow> r < length (mapped_regions a) \<Longrightarrow> space_inv a'"
  by (auto dest!: map_region_set intro: space_inv_set_region)

lemma map_region_update_inv:
  assumes "map_region A s (set_region a r m) r = Inr (s', a')" "space_inv a"
    "r < length (mapped_regions a)" "same_shape (mapped_regions a ! r) m"
  shows "space_inv a'"
  using assms by (intro map_region_inv [OF assms(1)] space_inv_set_region) simp_all

lemma region_for_address_loop_less:
  "region_for_address_loop rs i x = Some j \<Longrightarrow> i \<le> j \<and> j < i + length rs"
  by (induction rs i x rule: region_for_address_loop.induct) (auto split: if_splits)

lemma region_for_address_less: "region_for_address a x = Some r \<Longrightarrow> r < length (mapped_regions a)"
  unfolding region_for_address_def by (drule region_for_address_loop_less) simp

lemmas shape_dests = mapping_touch_shape touch_range_shape mapping_load_shape mapping_store_shape
  mapping_fault_shape mapping_allocate_shape mapping_map_to_shape

section \<open>Every public operation keeps the partition\<close>

lemma space_touch_inv:
  "space_touch A s a x = Inr (s', a') \<Longrightarrow> space_inv a \<Longrightarrow> space_inv a'"
  by (auto simp: space_touch_def and_then_Inr_iff intro: space_inv_set_region map_region_update_inv
      dest: region_for_address_less shape_dests split: option.splits if_splits)

lemma space_touch_all_inv:
  "space_touch_all A s a x = Inr (s', a') \<Longrightarrow> space_inv a \<Longrightarrow> space_inv a'"
  by (auto simp: space_touch_all_def mapping_touch_all_def and_then_Inr_iff
      intro: space_inv_set_region map_region_update_inv
      dest: region_for_address_less shape_dests split: option.splits if_splits)

lemma space_load_inv:
  "space_load A s a x d n = Inr (s', a') \<Longrightarrow> space_inv a \<Longrightarrow> space_inv a'"
  by (auto simp: space_load_def and_then_Inr_iff intro: space_inv_set_region map_region_update_inv
      dest: region_for_address_less shape_dests split: option.splits if_splits)

lemma space_store_inv:
  "space_store A s a x d n = Inr (s', a') \<Longrightarrow> space_inv a \<Longrightarrow> space_inv a'"
  by (auto simp: space_store_def and_then_Inr_iff intro: space_inv_set_region map_region_update_inv
      dest: region_for_address_less shape_dests split: option.splits if_splits)

lemma space_fault_hit_inv:
  assumes "space_fault_hit A s a x = Inr (b, s', a')" "space_inv a"
  shows "space_inv a'"
proof (cases "region_for_address a x")
  case None
  then show ?thesis using assms by (simp add: space_fault_hit_def)
next
  case (Some r)
  then obtain res s1 m1 where f: "mapping_fault_hit A s (mapped_regions a ! r) x = Inr (res, s1, m1)"
    using assms(1) by (auto simp: space_fault_hit_def and_then_Inr_iff)
  note r = region_for_address_less [OF Some] and sh = mapping_fault_shape [OF f]
  show ?thesis
    using assms Some f r sh
    by (cases res) (auto simp: space_fault_hit_def and_then_Inr_iff
        intro: space_inv_set_region map_region_update_inv)
qed

context vm_containers
begin

lemma space_allocate_inv:
  assumes "space_allocate A F s a sz p c = Inr (v, s', a')" "space_inv a"
  shows "space_inv a'"
proof (cases "find_free_hole a sz")
  case None
  then show ?thesis using assms by (simp add: space_allocate_def)
next
  case (Some i)
  have i: "i < length (memory_holes a)" "sz \<le> h_size (memory_holes a ! i)"
    using find_free_hole_spec [of a sz] Some by (simp_all add: best_hole_def)
  from bind_hole_inv [OF assms(2) i] obtain r a1 where "bind_hole F a i sz = Inr (r, a1)" "space_inv a1"
    "r < length (mapped_regions a1)" by blast
  then show ?thesis
    using assms(1) Some
    by (auto simp: space_allocate_def and_then_Inr_iff dest: shape_dests intro: map_region_update_inv)
qed

lemma space_map_inv:
  assumes "space_map A F s a x sz p c = Inr (v, s', a')" "space_inv a"
  shows "space_inv a'"
proof (cases "find_free_hole a sz")
  case None
  then show ?thesis using assms by (simp add: space_map_def)
next
  case (Some i)
  have i: "i < length (memory_holes a)" "sz \<le> h_size (memory_holes a ! i)"
    using find_free_hole_spec [of a sz] Some by (simp_all add: best_hole_def)
  from bind_hole_inv [OF assms(2) i] obtain r a1 where "bind_hole F a i sz = Inr (r, a1)" "space_inv a1"
    "r < length (mapped_regions a1)" by blast
  then show ?thesis
    using assms(1) Some
    by (auto simp: space_map_def and_then_Inr_iff dest: shape_dests intro: map_region_update_inv)
qed

lemma bind_exact_Inr_inv:
  assumes "bind_exact F a base sz = Inr (r, a')" "space_inv a" "wf_ivl base sz"
  shows "space_inv a' \<and> (\<forall>i. r = Some i \<longrightarrow> i < length (mapped_regions a'))"
proof -
  have nz: "sz \<noteq> 0" "base \<noteq> 0" using assms(1) by (auto simp: bind_exact_def kassert_Inr_iff)
  show ?thesis
    by (rule bind_exact_inv [OF assms(2,3) nz]) (use assms(1) in auto)
qed

lemma space_allocate_at_inv:
  assumes "space_allocate_at A F s a base sz p c = Inr (v, s', a')" "space_inv a" "wf_ivl base sz"
  shows "space_inv a'"
  using assms
  by (fastforce simp: space_allocate_at_def and_then_Inr_iff dest: bind_exact_Inr_inv shape_dests
      intro: map_region_update_inv split: option.splits)

lemma space_map_at_inv:
  assumes "space_map_at A F s a base x sz p c = Inr (v, s', a')" "space_inv a" "wf_ivl base sz"
  shows "space_inv a'"
  using assms
  by (fastforce simp: space_map_at_def and_then_Inr_iff dest: bind_exact_Inr_inv shape_dests
      intro: map_region_update_inv split: option.splits)

lemma destroy_region_inv:
  assumes "destroy_region A F s a r = Inr (s', a')" "space_inv a" "r < length (mapped_regions a)"
  shows "space_inv a'"
proof -
  obtain s1 a1 where u: "unmap_region A s a r = Inr (s1, a1)" and b: "unbind_region F a1 r = Inr a'"
    using assms(1) by (auto simp: destroy_region_def and_then_Inr_iff)
  have "space_inv a1" "r < length (mapped_regions a1)"
    using unmap_region_set [OF u] assms by (simp_all add: space_inv_set_region)
  from unbind_region_inv [OF this] b show ?thesis by (metis sum.inject(2))
qed

lemma destroy_address_inv:
  "destroy_address A F s a x = Inr (s', a') \<Longrightarrow> space_inv a \<Longrightarrow> space_inv a'"
  by (auto simp: destroy_address_def dest: region_for_address_less destroy_region_inv split: option.splits)

lemma new_address_space_inv: "new_address_space A F s = Inr (s', a) \<Longrightarrow> space_inv a"
  by (auto simp: new_address_space_def and_then_Inr_iff hl.push_back space_inv_def wf_hole_def wf_ivl_def
      vm_user_base_def vm_user_end_def vm_page_size_def free_of_def bound_of_def hole_pages_def pages_of_def
      user_pages_def)

end

text \<open>The address spaces the kernel can reach: a new one, and what the public operations make of one that is
  reached, whatever other code does to the machine in between.\<close>

inductive space_reach :: "'s arch_mm_ops \<Rightarrow> vm_frg \<Rightarrow> 's \<Rightarrow> address_space \<Rightarrow> bool" for A F where
  created: "new_address_space A F s0 = Inr (s, a) \<Longrightarrow> space_reach A F s a"
| machine: "space_reach A F s a \<Longrightarrow> space_reach A F s' a"
| allocate: "space_reach A F s a \<Longrightarrow> space_allocate A F s a sz p c = Inr (v, s', a') \<Longrightarrow> space_reach A F s' a'"
| map: "space_reach A F s a \<Longrightarrow> space_map A F s a x sz p c = Inr (v, s', a') \<Longrightarrow> space_reach A F s' a'"
| allocate_at: "space_reach A F s a \<Longrightarrow> wf_ivl base sz \<Longrightarrow>
    space_allocate_at A F s a base sz p c = Inr (v, s', a') \<Longrightarrow> space_reach A F s' a'"
| map_at: "space_reach A F s a \<Longrightarrow> wf_ivl base sz \<Longrightarrow>
    space_map_at A F s a base x sz p c = Inr (v, s', a') \<Longrightarrow> space_reach A F s' a'"
| destroy: "space_reach A F s a \<Longrightarrow> destroy_address A F s a x = Inr (s', a') \<Longrightarrow> space_reach A F s' a'"
| fault: "space_reach A F s a \<Longrightarrow> space_fault_hit A s a x = Inr (b, s', a') \<Longrightarrow> space_reach A F s' a'"
| touch: "space_reach A F s a \<Longrightarrow> space_touch A s a x = Inr (s', a') \<Longrightarrow> space_reach A F s' a'"
| touch_all: "space_reach A F s a \<Longrightarrow> space_touch_all A s a x = Inr (s', a') \<Longrightarrow> space_reach A F s' a'"
| load: "space_reach A F s a \<Longrightarrow> space_load A s a x d n = Inr (s', a') \<Longrightarrow> space_reach A F s' a'"
| store: "space_reach A F s a \<Longrightarrow> space_store A s a x d n = Inr (s', a') \<Longrightarrow> space_reach A F s' a'"

context vm_containers
begin

lemma space_reach_inv: "space_reach A F s a \<Longrightarrow> space_inv a"
  by (induction rule: space_reach.induct)
     (blast intro: new_address_space_inv space_allocate_inv space_map_inv space_allocate_at_inv
      space_map_at_inv destroy_address_inv space_fault_hit_inv space_touch_inv space_touch_all_inv
      space_load_inv space_store_inv)+

end

lemma count_free_of: "count (free_of hs) p = (\<Sum>h\<leftarrow>hs. count (hole_pages h) p)"
  by (induction hs) (simp_all add: free_of_def)

lemma count_bound_of: "count (bound_of ms) p = (\<Sum>m\<leftarrow>ms. count (region_pages m) p)"
  by (induction ms) (simp_all add: bound_of_def)

lemma count_user_pages: "count user_pages p = (if 1 \<le> p \<and> p < 0x800000000 then 1 else 0)"
  by (simp add: user_pages_def)


definition fresh_page :: backing_page where
  "fresh_page = no_page\<lparr>bp_allocated := True\<rparr>"

lemma allocate_pages_fresh: "allocate_pages (replicate n no_page) = Inr (replicate n fresh_page)"
  by (induction n) (simp_all add: no_page_def fresh_page_def)

lemma fresh_page_sel [simp]: "bp_exists fresh_page = False" "bp_allocated fresh_page = True" "bp_ptr fresh_page = 0"
  by (simp_all add: fresh_page_def no_page_def)

lemma map_region_loop_absent:
  "\<forall>p\<in>set (m_pages m). \<not> bp_exists p \<Longrightarrow> unat i + n \<le> length (m_pages m) \<Longrightarrow> unat i + n < 2 ^ 64 \<Longrightarrow>
   map_region_loop A s ctx m i n = Inr s"
proof (induction n arbitrary: i)
  case 0
  then show ?case by simp
next
  case (Suc n)
  have "unat (i + 1) = unat i + 1" using Suc.prems(3) by (simp add: unat_Suc_word)
  then have "map_region_loop A s ctx m (i + 1) n = Inr s" using Suc by simp
  then show ?case using Suc.prems by simp
qed

text \<open>The region \<open>allocate\<close> makes: nothing is backed by memory yet.\<close>

definition lazy_region :: "u64 \<Rightarrow> u64 \<Rightarrow> cint \<Rightarrow> cint \<Rightarrow> memory_mapping" where
  "lazy_region b n perms cache =
     \<lparr>m_base = b, m_size = n, m_pages = replicate (unat n) fresh_page, m_perms = perms,
      m_cache_mode = cache, m_mapped = True\<rparr>"

context vm_containers
begin

lemma lazy_finish:
  assumes "r < length (mapped_regions a)" "mapped_regions a ! r = new_mapping F b n"
  shows "and_then (mapping_allocate (mapped_regions a ! r) perms cache) (\<lambda>mem.
           and_then (map_region A s (set_region a r mem) r) (\<lambda>(s1, a2).
             Inr (m_base (mapped_regions a2 ! r), s1, a2))) =
         Inr (b, s, set_region a r (lazy_region b n perms cache))"
proof -
  let ?m = "(lazy_region b n perms cache)\<lparr>m_mapped := False\<rparr>"
  have al: "mapping_allocate (mapped_regions a ! r) perms cache = Inr ?m"
    using assms(2) pv.vec_resize_Nil
    by (simp add: mapping_allocate_def allocate_pages_fresh lazy_region_def new_mapping_def)
  have "map_region_loop A s (vmm_ctx a) ?m 0 (unat n) = Inr s"
    using unat_u64_less [of n] by (intro map_region_loop_absent) (auto simp: lazy_region_def)
  then have "map_region A s (set_region a r ?m) r = Inr (s, set_region a r (lazy_region b n perms cache))"
    using assms(1) by (simp add: map_region_def Let_def set_region_def) (simp add: lazy_region_def)
  with al assms(1) show ?thesis by (simp add: lazy_region_def)
qed

end

lemma free_complement:
  assumes "space_inv a" "space_inv a'" "bound_of (mapped_regions a') = P + bound_of (mapped_regions a)"
  shows "free_of (memory_holes a') + P = free_of (memory_holes a)"
proof -
  have "free_of (memory_holes a') + P + bound_of (mapped_regions a) =
      free_of (memory_holes a) + bound_of (mapped_regions a)"
    using assms by (simp add: space_inv_def add.assoc)
  then show ?thesis by simp
qed

context vm_containers
begin

lemma space_allocate_eq:
  assumes "space_inv a"
  shows "(\<forall>h\<in>set (memory_holes a). h_size h < sz) \<and> space_allocate A F s a sz perms cache = Inr (0, s, a) \<or>
         (\<exists>v a'. space_allocate A F s a sz perms cache = Inr (v, s, a') \<and> space_inv a' \<and> wf_ivl v sz \<and>
            (\<forall>h\<in>set (memory_holes a). sz \<le> h_size h \<longrightarrow> h_base h \<le> v) \<and>
            free_of (memory_holes a') + pages_of v sz = free_of (memory_holes a) \<and>
            mset (mapped_regions a') = add_mset (lazy_region v sz perms cache) (mset (mapped_regions a)))"
proof (cases "find_free_hole a sz")
  case None
  then show ?thesis
    using find_free_hole_spec [of a sz] by (simp add: best_hole_def space_allocate_def)
next
  case (Some i)
  have i: "i < length (memory_holes a)" "sz \<le> h_size (memory_holes a ! i)"
    and hi: "\<forall>h\<in>set (memory_holes a). sz \<le> h_size h \<longrightarrow> h_base h \<le> h_base (memory_holes a ! i)"
    using find_free_hole_spec [of a sz] Some by (simp_all add: best_hole_def)
  let ?v = "h_base (memory_holes a ! i) + (h_size (memory_holes a ! i) - sz) * vm_page_size"
  obtain r a1 where b: "bind_hole F a i sz = Inr (r, a1)" "space_inv a1"
    "r < length (mapped_regions a1)" "mapped_regions a1 ! r = new_mapping F ?v sz"
    "mset (mapped_regions a1) = add_mset (mapped_regions a1 ! r) (mset (mapped_regions a))"
    using bind_hole_inv [OF assms i] by blast
  let ?m = "lazy_region ?v sz perms cache" let ?a = "set_region a1 r ?m"
  have e: "space_allocate A F s a sz perms cache = Inr (?v, s, ?a)"
    using Some b(1) lazy_finish [OF b(3,4)] by (simp add: space_allocate_def)
  have sh: "same_shape (mapped_regions a1 ! r) ?m"
    using b(4) by (simp add: same_shape_def lazy_region_def)
  have inv: "space_inv ?a" by (rule space_inv_set_region [OF b(2,3) sh])
  have w: "wf_ivl ?v sz" using b(2,3,4) by (auto simp: space_inv_def wf_region_def dest!: nth_mem)
  have ms: "mset (mapped_regions ?a) = add_mset ?m (mset (mapped_regions a))"
    using b(3,5) by (simp add: set_region_def mset_update)
  have "bound_of (mapped_regions ?a) = pages_of ?v sz + bound_of (mapped_regions a)"
    using ms by (simp add: bound_of_def region_pages_def lazy_region_def)
  from free_complement [OF assms inv this]
  have "free_of (memory_holes ?a) + pages_of ?v sz = free_of (memory_holes a)" .
  moreover have "wf_ivl (h_base (memory_holes a ! i)) (h_size (memory_holes a ! i))"
    using assms i(1) by (simp add: space_inv_def wf_hole_def)
  then have "h_base (memory_holes a ! i) \<le> ?v"
    using split_ivl(4) [of _ _ "h_size (memory_holes a ! i) - sz"] i(2)
    by (simp add: word_le_nat_alt unat_sub_le)
  then have "\<forall>h\<in>set (memory_holes a). sz \<le> h_size h \<longrightarrow> h_base h \<le> ?v" using hi by force
  ultimately show ?thesis using e inv w ms by blast
qed

end

section \<open>Merging is complete\<close>

definition touching :: "memory_hole \<Rightarrow> memory_hole \<Rightarrow> bool" where
  "touching h h' \<longleftrightarrow> distance_between (h_base h) (h_size h) (h_base h') = 0"

definition apart_upto :: "memory_hole list \<Rightarrow> nat \<Rightarrow> bool" where
  "apart_upto hs i \<longleftrightarrow> (\<forall>k. Suc k < i \<longrightarrow> \<not> touching (hs ! k) (hs ! Suc k))"

context vm_containers
begin

lemma merge_prev_apart:
  assumes "i < length hs" "apart_upto hs i" "merge_prev F hs i = (hs', j)"
  shows "j < length hs' \<and> apart_upto hs' (Suc j)"
proof (cases "0 < i \<and> touching (hs ! (i - 1)) (hs ! i)")
  case True
  let ?n = "\<lparr>h_base = h_base (hs ! (i - 1)), h_size = h_size (hs ! i) + h_size (hs ! (i - 1))\<rparr>"
  have e: "hs' = fl_erase (hole_list F) (hs[i := ?n]) (i - 1)" "j = i - 1"
    using True assms(3) by (auto simp: merge_prev_def touching_def)
  have hs': "hs' = take (i - 1) hs @ ?n # drop (Suc i) hs"
  proof -
    have "hs' = take (i - 1) (hs[i := ?n]) @ drop (Suc (i - 1)) (hs[i := ?n])"
      unfolding e using assms(1) by (intro hl.erase_at) simp
    moreover have "take (i - 1) (hs[i := ?n]) = take (i - 1) hs" by simp
    moreover have "drop i (hs[i := ?n]) = ?n # drop (Suc i) hs"
      using assms(1) by (simp add: drop_update_cancel Cons_nth_drop_Suc [symmetric])
    ultimately show ?thesis using True by simp
  qed
  have n: "hs' ! k = hs ! k" if "k < i - 1" for k using that assms(1) by (simp add: hs' nth_append)
  have nj: "hs' ! (i - 1) = ?n" using assms(1) by (simp add: hs' nth_append)
  have "\<not> touching (hs' ! k) (hs' ! Suc k)" if "Suc k < Suc j" for k
  proof (cases "Suc k = i - 1")
    case True
    then have "Suc k < i" by arith
    then have "\<not> touching (hs ! k) (hs ! Suc k)" using assms(2) by (simp only: apart_upto_def) blast
    then have "\<not> touching (hs ! k) (hs ! (i - 1))" unfolding True .
    then show ?thesis using True n [of k] nj by (simp add: touching_def)
  next
    case False
    then have "Suc k < i - 1" using that e by simp
    then show ?thesis using assms(2) n [of k] n [of "Suc k"] by (simp add: apart_upto_def)
  qed
  moreover have "j < length hs'" using e(2) hs' assms(1) True by simp
  ultimately show ?thesis by (simp add: apart_upto_def)
next
  case False
  then have "hs' = hs" "j = i" using assms(3) by (auto simp: merge_prev_def touching_def)
  moreover have "apart_upto hs (Suc i)"
    using False assms(2) by (auto simp: apart_upto_def less_Suc_eq)
  ultimately show ?thesis using assms(1) by simp
qed

lemma merge_next_apart:
  assumes "i < length hs" "apart_upto hs (Suc i)"
  shows "i < length (merge_next F hs i) \<and> apart_upto (merge_next F hs i) (Suc i)"
proof (cases "Suc i < length hs \<and> touching (hs ! i) (hs ! Suc i)")
  case True
  let ?n = "(hs ! i)\<lparr>h_size := h_size (hs ! i) + h_size (hs ! Suc i)\<rparr>"
  have m: "merge_next F hs i = take (Suc i) (hs[i := ?n]) @ drop (Suc (Suc i)) (hs[i := ?n])"
    using True by (simp add: merge_next_def touching_def hl.erase_at)
  have "merge_next F hs i ! k = (if k = i then ?n else hs ! k)" if "k \<le> i" for k
    using that assms(1) by (auto simp: m nth_append nth_list_update)
  then have "apart_upto (merge_next F hs i) (Suc i)"
    using assms(2) by (auto simp: apart_upto_def touching_def)
  then show ?thesis using m assms(1) by simp
next
  case False
  then have "merge_next F hs i = hs" by (auto simp: merge_next_def touching_def)
  then show ?thesis using assms by simp
qed

lemma merge_holes_loop_apart:
  "merge_holes_loop F fuel hs i = Inr hs' \<Longrightarrow> i \<le> length hs \<Longrightarrow> apart_upto hs i \<Longrightarrow>
   apart_upto hs' (length hs')"
proof (induction fuel arbitrary: hs i)
  case 0
  then show ?case by simp
next
  case (Suc fuel)
  show ?case
  proof (cases "i < length hs")
    case True
    obtain hs1 j where p: "merge_prev F hs i = (hs1, j)" by force
    have "j < length hs1" "apart_upto hs1 (Suc j)"
      using merge_prev_apart [OF True Suc.prems(3) p] by simp_all
    then have "j < length (merge_next F hs1 j)" "apart_upto (merge_next F hs1 j) (Suc j)"
      using merge_next_apart by blast+
    then show ?thesis
      using Suc.IH [of "merge_next F hs1 j" "Suc j"] Suc.prems(1) True p by simp
  next
    case False
    then show ?thesis using Suc.prems by (auto simp: not_less)
  qed
qed

end

text \<open>C12. \<open>merge_holes\<close> always returns, keeps exactly the free pages, leaves the regions alone, and afterwards
  no two neighbours of the hole list are adjacent in memory.\<close>

theorem merge_holes_complete:
  assumes "vm_containers F" "space_inv a"
  shows "\<exists>a'. merge_holes F a = Inr a' \<and> space_inv a' \<and> mapped_regions a' = mapped_regions a \<and>
           free_of (memory_holes a') = free_of (memory_holes a) \<and>
           (\<forall>k. Suc k < length (memory_holes a') \<longrightarrow>
                h_base (memory_holes a' ! k) + h_size (memory_holes a' ! k) * vm_page_size
                  \<noteq> h_base (memory_holes a' ! Suc k))"
proof -
  obtain a' where m: "merge_holes F a = Inr a'" and inv: "space_inv a'"
    "mapped_regions a' = mapped_regions a" "free_of (memory_holes a') = free_of (memory_holes a)"
    using vm_containers.merge_holes_inv [OF assms] by blast
  obtain hs where l: "merge_holes_loop F (Suc (length (memory_holes a))) (memory_holes a) 0 = Inr hs"
    and a': "a' = a\<lparr>memory_holes := hs\<rparr>"
    using m unfolding merge_holes_def and_then_Inr_iff by auto
  have "apart_upto hs (length hs)"
    by (rule vm_containers.merge_holes_loop_apart [OF assms(1) l]) (simp_all add: apart_upto_def)
  then show ?thesis
    using m inv a' by (auto simp: apart_upto_def touching_def distance_between_def)
qed

section \<open>Merging keeps what holes cover\<close>

definition covers :: "memory_hole \<Rightarrow> u64 \<Rightarrow> u64 \<Rightarrow> bool" where
  "covers h base sz \<longleftrightarrow>
     h_base h \<le> base \<and> base + sz * vm_page_size \<le> h_base h + h_size h * vm_page_size"

lemma covers_join:
  assumes "wf_hole h1" "wf_hole h2" "touching h1 h2" "covers h1 base sz \<or> covers h2 base sz"
  shows "covers \<lparr>h_base = h_base h1, h_size = h_size h1 + h_size h2\<rparr> base sz"
proof -
  have w: "wf_ivl (h_base h1) (h_size h1)" "wf_ivl (h_base h2) (h_size h2)"
    and d: "distance_between (h_base h1) (h_size h1) (h_base h2) = 0"
    using assms by (simp_all add: wf_hole_def touching_def)
  note j = join_ivl [OF w d]
  have b2: "h_base h2 = h_base h1 + h_size h1 * vm_page_size" using d by (simp add: distance_between_def)
  have "h_base h1 \<le> h_base h2" "h_base h1 + h_size h1 * vm_page_size \<le> h_base h2 + h_size h2 * vm_page_size"
    using wf_ivl_end [OF w(1)] wf_ivl_end [OF w(2)] b2 by (simp_all add: word_le_nat_alt)
  then show ?thesis using assms(4) j(3) by (auto simp: covers_def)
qed

context vm_containers
begin

lemma merge_pair_covers:
  assumes "i < length hs" "k < length hs" "i \<noteq> k" "wf_hole (hs ! i)" "wf_hole (hs ! k)"
    and n: "covers (hs ! i) base sz \<or> covers (hs ! k) base sz \<Longrightarrow> covers n base sz"
    and h: "h \<in> set hs" "covers h base sz"
  shows "\<exists>h'\<in>set (fl_erase (hole_list F) (hs[i := n]) k). covers h' base sz"
proof -
  obtain x where x: "x < length hs" "h = hs ! x" using h(1) by (auto simp: in_set_conv_nth)
  have len: "k < length (hs[i := n])" using assms by simp
  let ?l = "fl_erase (hole_list F) (hs[i := n]) k"
  have nth: "?l ! (if x < k then x else x - 1) = hs[i := n] ! x \<and> (if x < k then x else x - 1) < length ?l"
    if "x < length hs" "x \<noteq> k" for x
    using that len by (auto simp: hl.erase_at nth_append min_def not_less)
  show ?thesis
  proof (cases "x = i \<or> x = k")
    case True
    then have "covers n base sz" using n h(2) x by auto
    moreover have "n \<in> set ?l" using nth [of i] assms(1,3) by (metis nth_list_update_eq nth_mem)
    ultimately show ?thesis by blast
  next
    case False
    then have "hs ! x \<in> set ?l" using nth [of x] x by (metis nth_list_update_neq nth_mem)
    then show ?thesis using h(2) x by blast
  qed
qed

lemma merge_prev_covers:
  assumes "i < length hs" "\<forall>h\<in>set hs. wf_hole h" "merge_prev F hs i = (hs', j)" "h \<in> set hs" "covers h base sz"
  shows "\<exists>h'\<in>set hs'. covers h' base sz"
proof (cases "0 < i \<and> touching (hs ! (i - 1)) (hs ! i)")
  case True
  let ?n = "\<lparr>h_base = h_base (hs ! (i - 1)), h_size = h_size (hs ! i) + h_size (hs ! (i - 1))\<rparr>"
  have e: "hs' = fl_erase (hole_list F) (hs[i := ?n]) (i - 1)"
    using True assms(3) by (auto simp: merge_prev_def touching_def)
  have w: "wf_hole (hs ! i)" "wf_hole (hs ! (i - 1))" using assms(1,2) by auto
  show ?thesis unfolding e
  proof (rule merge_pair_covers [OF assms(1) _ _ w _ assms(4,5)])
    assume "covers (hs ! i) base sz \<or> covers (hs ! (i - 1)) base sz"
    then show "covers ?n base sz"
      using covers_join [OF w(2,1), of base sz] True by (auto simp: add.commute)
  qed (use True assms(1) in auto)
next
  case False
  then show ?thesis using assms(3-5) by (auto simp: merge_prev_def touching_def)
qed

lemma merge_next_covers:
  assumes "i < length hs" "\<forall>h\<in>set hs. wf_hole h" "h \<in> set hs" "covers h base sz"
  shows "\<exists>h'\<in>set (merge_next F hs i). covers h' base sz"
proof (cases "Suc i < length hs \<and> touching (hs ! i) (hs ! Suc i)")
  case True
  let ?n = "(hs ! i)\<lparr>h_size := h_size (hs ! i) + h_size (hs ! Suc i)\<rparr>"
  have e: "merge_next F hs i = fl_erase (hole_list F) (hs[i := ?n]) (Suc i)"
    using True by (simp add: merge_next_def touching_def)
  have w: "wf_hole (hs ! i)" "wf_hole (hs ! Suc i)" using True assms(1,2) by auto
  show ?thesis unfolding e
  proof (rule merge_pair_covers [OF assms(1) _ _ w _ assms(3,4)])
    assume "covers (hs ! i) base sz \<or> covers (hs ! Suc i) base sz"
    then show "covers ?n base sz"
      using covers_join [OF w, of base sz] True by (auto simp: covers_def)
  qed (use True in auto)
next
  case False
  then show ?thesis using assms(3-4) by (auto simp: merge_next_def touching_def)
qed

lemma merge_holes_loop_covers:
  assumes "merge_holes_loop F fuel hs i = Inr hs'" "\<forall>h\<in>set hs. wf_hole h" "h \<in> set hs" "covers h base sz"
  shows "\<exists>h'\<in>set hs'. covers h' base sz"
  using assms
proof (induction fuel arbitrary: hs i h)
  case 0
  then show ?case by simp
next
  case (Suc fuel)
  show ?case
  proof (cases "i < length hs")
    case True
    obtain hs1 j where p: "merge_prev F hs i = (hs1, j)" by force
    note i1 = merge_prev_inv [OF True Suc.prems(2) p]
    obtain h1 where h1: "h1 \<in> set hs1" "covers h1 base sz"
      using merge_prev_covers [OF True Suc.prems(2) p Suc.prems(3,4)] by blast
    have j: "j < length hs1" and w: "\<forall>h\<in>set hs1. wf_hole h" using i1 by simp_all
    note i2 = merge_next_inv [OF j w]
    obtain h2 where h2: "h2 \<in> set (merge_next F hs1 j)" "covers h2 base sz"
      using merge_next_covers [OF j w h1] by blast
    show ?thesis
      using Suc.IH [OF _ _ h2, of "Suc j"] i2 Suc.prems(1) True p by simp
  next
    case False
    then show ?thesis using Suc.prems by auto
  qed
qed

lemma bind_exact_covered:
  assumes inv: "space_inv a" and wf: "wf_ivl base sz" and nz: "sz \<noteq> 0" "base \<noteq> 0"
    and h: "h \<in> set (memory_holes a)" "covers h base sz"
  shows "\<exists>r a'. bind_exact F a base sz = Inr (Some r, a')"
proof -
  obtain a1 where m: "merge_holes F a = Inr a1" using merge_holes_inv [OF inv] by blast
  then obtain hs where l: "merge_holes_loop F (Suc (length (memory_holes a))) (memory_holes a) 0 = Inr hs"
    and a1: "a1 = a\<lparr>memory_holes := hs\<rparr>"
    unfolding merge_holes_def and_then_Inr_iff by auto
  have "\<forall>h\<in>set (memory_holes a). wf_hole h" using inv by (simp add: space_inv_def)
  from merge_holes_loop_covers [OF l this h] obtain h' where "h' \<in> set hs" "covers h' base sz" by blast
  then have "find_target_hole hs 0 base sz \<noteq> None"
    using find_target_hole_None [of hs 0 base sz] by (auto simp: covers_def)
  then show ?thesis using m a1 nz by (auto simp: bind_exact_def split: prod.splits)
qed

end

section \<open>Contracts of the public operations\<close>

context vm_containers
begin

lemma allocate_at_eq:
  assumes inv: "space_inv a" and wf: "wf_ivl base sz" and nz: "sz \<noteq> 0" "base \<noteq> 0"
  shows "\<exists>v a'. space_allocate_at A F s a base sz perms cache = Inr (v, s, a') \<and> space_inv a' \<and>
           ((\<exists>h\<in>set (memory_holes a). covers h base sz) \<longrightarrow> v = base) \<and>
           (v = base \<and> free_of (memory_holes a') + pages_of base sz = free_of (memory_holes a) \<and>
              mset (mapped_regions a') = add_mset (lazy_region base sz perms cache) (mset (mapped_regions a))
            \<or> v = 0 \<and> free_of (memory_holes a') = free_of (memory_holes a) \<and>
              mapped_regions a' = mapped_regions a)"
proof (cases rule: bind_exact_inv [OF inv wf nz])
  case (1 a')
  then have "\<not> (\<exists>h\<in>set (memory_holes a). covers h base sz)"
    using bind_exact_covered [OF inv wf nz] by fastforce
  then show ?thesis using 1 by (simp add: space_allocate_at_def)
next
  case (2 r a1)
  let ?m = "lazy_region base sz perms cache" let ?a = "set_region a1 r ?m"
  have e: "space_allocate_at A F s a base sz perms cache = Inr (base, s, ?a)"
    using 2(1) lazy_finish [OF 2(3,4)] by (simp add: space_allocate_at_def)
  have "same_shape (mapped_regions a1 ! r) ?m" using 2(4) by (simp add: same_shape_def lazy_region_def)
  then have i: "space_inv ?a" by (rule space_inv_set_region [OF 2(2,3)])
  have "mset (mapped_regions ?a) = add_mset ?m (mset (mapped_regions a))"
    using 2(3-5) by (simp add: set_region_def mset_update)
  then show ?thesis using e i 2(7) by simp
qed

end


text \<open>C11. \<open>allocate_at\<close> with a page-aligned range of the user half returns the requested base when some hole
  covers the range, and then turns exactly these pages into a region; otherwise it returns either the
  base or 0, and 0 means that no page changed hands.\<close>

theorem space_allocate_at_contract:
  assumes "vm_containers F" "space_inv a" "wf_ivl base sz" "sz \<noteq> 0" "base \<noteq> 0"
  shows "\<exists>v a'. space_allocate_at A F s a base sz perms cache = Inr (v, s, a') \<and> space_inv a' \<and>
           ((\<exists>h\<in>set (memory_holes a). covers h base sz) \<longrightarrow> v = base) \<and>
           (v = base \<and> free_of (memory_holes a') + pages_of base sz = free_of (memory_holes a) \<and>
              mset (mapped_regions a') = add_mset (lazy_region base sz perms cache) (mset (mapped_regions a))
            \<or> v = 0 \<and> free_of (memory_holes a') = free_of (memory_holes a) \<and>
              mapped_regions a' = mapped_regions a)"
  by (rule vm_containers.allocate_at_eq [OF assms])

section \<open>Two defects\<close>

lemma wf_region_base_less: "wf_region m \<Longrightarrow> m_base m \<le> m_base m + m_size m * vm_page_size"
  using wf_ivl_end [of "m_base m" "m_size m"] by (simp add: wf_region_def word_le_nat_alt)

text \<open>\<open>region_for_address\<close> counts the first address after a region as part of it. When one region ends
  where the next one starts, a fault at the start of the second is handed to the first, whose fault
  handler panics.\<close>

theorem boundary_fault_panics:
  assumes "mapped_regions a = m1 # m2 # ms" "wf_region m1"
    "m_base m2 = m_base m1 + m_size m1 * vm_page_size"
  shows "region_for_address a (m_base m2) = Some 0 \<and> space_fault_hit A s a (m_base m2) = Inl Panic"
  using assms wf_region_base_less [OF assms(2)]
  by (simp add: region_for_address_def space_fault_hit_def mapping_fault_hit_def)

context vm_containers
begin

lemma unbind_top_eq:
  assumes a: "mapped_regions a = [m]" "memory_holes a = [h]"
    and w: "wf_hole h" "wf_region m" "touching h (\<lparr>h_base = m_base m, h_size = m_size m\<rparr>)"
    and nz: "h_size h \<noteq> 0"
  shows "unbind_region F a 0 = Inr (a\<lparr>mapped_regions := [],
           memory_holes := [\<lparr>h_base = m_base m, h_size = m_size m\<rparr>, h]\<rparr>)"
proof -
  let ?n = "\<lparr>h_base = m_base m, h_size = m_size m\<rparr>"
  have mb: "m_base m = h_base h + h_size h * vm_page_size"
    using w(3) by (simp add: touching_def distance_between_def)
  have wh: "wf_ivl (h_base h) (h_size h)" and wm: "wf_ivl (m_base m) (m_size m)"
    using w by (simp_all add: wf_hole_def wf_region_def)
  have u: "unat (m_base m) = unat (h_base h) + unat (h_size h) * 4096"
    using wf_ivl_end [OF wh] mb by simp
  have pos: "unat (h_size h) > 0" using nz by (simp add: unat_gt_0)
  have lt: "h_base h < m_base m" using u pos by (simp add: word_less_nat_alt)
  have put: "memory_holes (put_hole F a ?n) = [?n, h]"
    using a lt by (simp add: put_hole_def find_succ_hole_def hl.push_front)
  have "unat (m_base m + m_size m * vm_page_size) \<noteq> unat (h_base h)"
    using wf_ivl_end [OF wm] u pos by simp
  then have nt: "distance_between (m_base m) (m_size m) (h_base h) \<noteq> 0"
    by (auto simp: distance_between_def)
  have "merge_holes_loop F (Suc (Suc (Suc 0))) [?n, h] 0 = Inr [?n, h]"
    using nt by (simp add: merge_prev_def merge_next_def)
  then have "merge_holes F ((put_hole F a ?n)\<lparr>mapped_regions := []\<rparr>) =
      Inr (a\<lparr>mapped_regions := [], memory_holes := [?n, h]\<rparr>)"
    using put by (simp add: merge_holes_def numeral_3_eq_3)
  then show ?thesis using a by (simp add: unbind_region_def Let_def rl.erase_at)
qed

end

text \<open>\<open>put\<close> inserts a hole above all others at the front of the list instead of at its end. After a region
  directly above the only hole is unbound, the two adjacent holes are in the wrong order and stay
  unmerged, so a request for all of the pages, which are contiguous and free, finds no hole.\<close>

theorem top_hole_not_merged:
  assumes "vm_containers F" "mapped_regions a = [m]" "memory_holes a = [h]" "wf_hole h" "wf_region m"
    "m_base m = h_base h + h_size h * vm_page_size" "h_size h \<noteq> 0" "m_size m \<noteq> 0"
  shows "\<exists>a'. unbind_region F a 0 = Inr a' \<and> mapped_regions a' = [] \<and>
           memory_holes a' = [\<lparr>h_base = m_base m, h_size = m_size m\<rparr>, h] \<and>
           find_free_hole a' (h_size h + m_size m) = None"
proof -
  have t: "touching h \<lparr>h_base = m_base m, h_size = m_size m\<rparr>"
    using assms(6) by (simp add: touching_def distance_between_def)
  have w: "wf_ivl (h_base h) (h_size h)" "wf_ivl (m_base m) (m_size m)"
    using assms by (simp_all add: wf_hole_def wf_region_def)
  have s: "unat (h_size h + m_size m) = unat (h_size h) + unat (m_size m)"
    using w by (intro unat_add_less) (simp add: wf_ivl_def)
  have "\<not> h_size h + m_size m \<le> m_size m" "\<not> h_size h + m_size m \<le> h_size h"
    using assms(7,8) s by (simp_all add: word_le_nat_alt unat_eq_zero not_le unat_gt_0)
  then show ?thesis
    using vm_containers.unbind_top_eq [OF assms(1-5) t assms(7)] by (simp add: find_free_hole_def)
qed

section \<open>Instances\<close>

text \<open>The reference containers, a machine whose operations do nothing, and the address space of a new
  process on it.\<close>

definition ref_vm :: vm_frg where
  "ref_vm = \<lparr>region_list = ref_list, hole_list = ref_list, page_vector = ref_vector no_page\<rparr>"

interpretation refvm: vm_containers ref_vm
  by (unfold_locales) (simp_all add: ref_vm_def reflist.list_laws refvec.vec_push_back refvec.vec_resize)

definition null_arch :: "unit arch_mm_ops" where
  "null_arch = \<lparr>am_alloc_phys = (\<lambda>s n. (0, s)), am_free_phys = (\<lambda>s p n. s),
     am_map = (\<lambda>s ctx d p n fl c. Inr s), am_unmap = (\<lambda>s ctx d n. Inr s),
     am_create_context = (\<lambda>s. Inr (0, s)), am_destroy_context = (\<lambda>s c. Inr s),
     am_mapping_load = (\<lambda>s m off d n. Inr s), am_mapping_store = (\<lambda>s m off d n. Inr s)\<rparr>"

definition fresh_space :: address_space where
  "fresh_space = \<lparr>mapped_regions = [], memory_holes = [\<lparr>h_base = 0x1000, h_size = 0x7FFFFFFFF\<rparr>], vmm_ctx = 0\<rparr>"

lemma fresh_space_new: "new_address_space null_arch ref_vm () = Inr ((), fresh_space)"
  by (simp add: new_address_space_def null_arch_def fresh_space_def refvm.hl.push_back
      vm_user_base_def vm_user_end_def vm_page_size_def)

lemma fresh_space_inv: "space_inv fresh_space"
  by (rule refvm.new_address_space_inv [OF fresh_space_new])


theorem merge_holes_complete_witness:
  "vm_containers ref_vm \<and> space_inv fresh_space \<and>
   (\<exists>a'. merge_holes ref_vm fresh_space = Inr a' \<and> mapped_regions a' = [])"
  using merge_holes_complete [OF refvm.vm_containers_axioms fresh_space_inv]
    refvm.vm_containers_axioms fresh_space_inv by (auto simp: fresh_space_def)


theorem space_allocate_at_contract_witness:
  "space_inv fresh_space \<and> wf_ivl 0x5000 3 \<and>
   (\<exists>a'. space_allocate_at null_arch ref_vm () fresh_space 0x5000 3 3 0 = Inr (0x5000, (), a'))"
proof -
  have w: "wf_ivl 0x5000 3" by (simp add: wf_ivl_def)
  have "\<exists>h\<in>set (memory_holes fresh_space). covers h 0x5000 3"
    by (simp add: fresh_space_def covers_def vm_page_size_def)
  then show ?thesis
    using space_allocate_at_contract [OF refvm.vm_containers_axioms fresh_space_inv w, of null_arch "()" 3 0]
      w fresh_space_inv by auto
qed

text \<open>Two one-page regions side by side, and a one-page region above a one-page hole.\<close>

definition page_region :: "u64 \<Rightarrow> memory_mapping" where
  "page_region b = \<lparr>m_base = b, m_size = 1, m_pages = [fresh_page], m_perms = 3, m_cache_mode = 0, m_mapped = True\<rparr>"

definition two_regions :: address_space where
  "two_regions = \<lparr>mapped_regions = [page_region 0x1000, page_region 0x2000], memory_holes = [], vmm_ctx = 0\<rparr>"

definition hole_below :: address_space where
  "hole_below = \<lparr>mapped_regions = [page_region 0x2000],
     memory_holes = [\<lparr>h_base = 0x1000, h_size = 1\<rparr>], vmm_ctx = 0\<rparr>"

lemma page_region_wf: "wf_region (page_region 0x1000)" "wf_region (page_region 0x2000)"
  by (simp_all add: page_region_def wf_region_def wf_ivl_def)

theorem boundary_fault_panics_witness:
  "m_base (page_region 0x2000) = 0x2000 \<and> space_fault_hit null_arch () two_regions 0x2000 = Inl Panic"
  using boundary_fault_panics [of two_regions "page_region 0x1000" "page_region 0x2000" "[]" null_arch "()"]
    page_region_wf
  by (simp add: two_regions_def page_region_def vm_page_size_def)

theorem top_hole_not_merged_witness:
  "\<exists>a'. unbind_region ref_vm hole_below 0 = Inr a' \<and> find_free_hole a' 2 = None"
  using top_hole_not_merged [OF refvm.vm_containers_axioms, of hole_below "page_region 0x2000"
      "\<lparr>h_base = 0x1000, h_size = 1\<rparr>"] page_region_wf
  by (auto simp: hole_below_def page_region_def vm_page_size_def wf_hole_def wf_ivl_def)

end
