(* ===== verification/Frames.thy ===== *)
theory Frames
  imports Partition
begin

text \<open>
  Physical frames behind the pages of an address space. The architecture is used through a contract, the
  locale \<open>arch_memory\<close>: its frame allocator hands out free frames, and mapping, unmapping and copying
  never give a frame back. Under that contract an address space never holds a frame twice, a page fault
  on a lazily allocated page takes one fresh frame, and destroying a region returns exactly its frames.
\<close>

section \<open>The contract of the architecture\<close>

locale arch_memory = phys_allocator "am_alloc_phys A" "am_free_phys A" used ok
  for A :: "'s arch_mm_ops" and used :: "'s \<Rightarrow> u64 set" and ok :: "'s \<Rightarrow> bool" +
  assumes map_used: "ok s \<Longrightarrow> am_map A s ctx d p n fl c = Inr s' \<Longrightarrow> ok s' \<and> used s \<subseteq> used s'"
    and unmap_used: "ok s \<Longrightarrow> \<exists>s'. am_unmap A s ctx d n = Inr s' \<and> ok s' \<and> used s' = used s"
    and load_used: "ok s \<Longrightarrow> am_mapping_load A s m off data n = Inr s' \<Longrightarrow> ok s' \<and> used s \<subseteq> used s'"
    and store_used: "ok s \<Longrightarrow> am_mapping_store A s m off data n = Inr s' \<Longrightarrow> ok s' \<and> used s \<subseteq> used s'"

section \<open>Frames owned by regions\<close>

definition page_owned :: "backing_page \<Rightarrow> bool" where
  "page_owned p \<longleftrightarrow> bp_exists p \<and> bp_allocated p"

definition page_frames :: "backing_page list \<Rightarrow> u64 multiset" where
  "page_frames ps = image_mset (\<lambda>p. bp_ptr p div PAGE_SIZE) (filter_mset page_owned (mset ps))"

definition space_frames :: "memory_mapping list \<Rightarrow> u64 multiset" where
  "space_frames ms = (\<Sum>m\<in>#mset ms. page_frames (m_pages m))"

definition pages_nonnull :: "backing_page list \<Rightarrow> bool" where
  "pages_nonnull ps \<longleftrightarrow> (\<forall>p\<in>set ps. page_owned p \<longrightarrow> bp_ptr p \<noteq> 0)"

definition frames_inv :: "u64 set \<Rightarrow> memory_mapping list \<Rightarrow> bool" where
  "frames_inv U ms \<longleftrightarrow> (\<forall>m\<in>set ms. pages_nonnull (m_pages m)) \<and>
     (\<forall>f. count (space_frames ms) f \<le> 1) \<and> set_mset (space_frames ms) \<subseteq> U"

lemma page_frames_simps [simp]:
  "page_frames [] = {#}"
  "page_frames (p # ps) = (if page_owned p then {#bp_ptr p div PAGE_SIZE#} else {#}) + page_frames ps"
  by (simp_all add: page_frames_def)

lemma page_frames_none: "\<forall>p\<in>set ps. \<not> page_owned p \<Longrightarrow> page_frames ps = {#}"
  by (induction ps) simp_all

lemma page_frames_update:
  "i < length ps \<Longrightarrow> \<not> page_owned (ps ! i) \<Longrightarrow> page_owned p \<Longrightarrow>
   page_frames (ps[i := p]) = add_mset (bp_ptr p div PAGE_SIZE) (page_frames ps)"
  by (induction ps arbitrary: i) (auto simp: nth_Cons split: nat.splits)

lemma space_frames_update:
  "r < length ms \<Longrightarrow> space_frames (ms[r := m]) + page_frames (m_pages (ms ! r)) =
   space_frames ms + page_frames (m_pages m)"
proof -
  assume i: "r < length ms"
  have "mset ms = add_mset (ms ! r) (mset ms - {#ms ! r#})" using i by simp
  then have "space_frames ms =
      page_frames (m_pages (ms ! r)) + (\<Sum>m\<in>#mset ms - {#ms ! r#}. page_frames (m_pages m))"
    unfolding space_frames_def by (metis image_mset_add_mset sum_mset.insert)
  then show ?thesis using i by (simp add: space_frames_def mset_update)
qed

lemma space_frames_add: "mset ms' = add_mset m (mset ms) \<Longrightarrow>
  space_frames ms' = page_frames (m_pages m) + space_frames ms"
  by (simp add: space_frames_def)

lemma frames_inv_mono: "frames_inv U ms \<Longrightarrow> U \<subseteq> V \<Longrightarrow> frames_inv V ms"
  by (auto simp: frames_inv_def)

lemma frames_inv_same:
  assumes "frames_inv U ms" "r < length ms" "page_frames (m_pages m) = page_frames (m_pages (ms ! r))"
    "pages_nonnull (m_pages m)"
  shows "frames_inv U (ms[r := m])"
proof -
  have "space_frames (ms[r := m]) = space_frames ms"
    using space_frames_update [OF assms(2), of m] assms(3) by simp
  moreover have "\<forall>m\<in>set (ms[r := m]). pages_nonnull (m_pages m)"
    using assms by (intro ball_update) (auto simp: frames_inv_def)
  ultimately show ?thesis using assms(1) by (simp add: frames_inv_def)
qed

lemma frames_inv_new:
  assumes "frames_inv U ms" "mset ms' = add_mset m (mset ms)" "\<forall>p\<in>set (m_pages m). \<not> page_owned p"
  shows "frames_inv U ms'"
proof -
  have "set ms' = insert m (set ms)" using arg_cong [OF assms(2), of set_mset] by simp
  moreover have "pages_nonnull (m_pages m)" using assms(3) by (auto simp: pages_nonnull_def)
  ultimately show ?thesis
    using assms(1) space_frames_add [OF assms(2)] page_frames_none [OF assms(3)]
    by (simp add: frames_inv_def)
qed

lemma frames_inv_add:
  assumes "frames_inv U ms" "r < length ms" "f \<notin> U" "bp_ptr p \<noteq> 0" "f = bp_ptr p div PAGE_SIZE"
    "page_owned p" "i < length (m_pages (ms ! r))" "\<not> page_owned (m_pages (ms ! r) ! i)"
    "m_pages m = (m_pages (ms ! r))[i := p]"
  shows "frames_inv (insert f U) (ms[r := m]) \<and> space_frames (ms[r := m]) = add_mset f (space_frames ms)"
proof -
  have sf: "space_frames (ms[r := m]) = add_mset f (space_frames ms)"
    using space_frames_update [OF assms(2), of m] page_frames_update [OF assms(7,8,6)] assms(5,9) by simp
  have "f \<notin># space_frames ms" using assms(1,3) by (auto simp: frames_inv_def)
  then have "\<forall>g. count (space_frames (ms[r := m])) g \<le> 1"
    using assms(1) unfolding sf by (auto simp: frames_inv_def not_in_iff)
  moreover have "pages_nonnull (m_pages (ms ! r))" using assms(1,2) by (simp add: frames_inv_def)
  then have "pages_nonnull (m_pages m)"
    unfolding pages_nonnull_def assms(9) using assms(4) by (intro ball_update) auto
  then have "\<forall>m\<in>set (ms[r := m]). pages_nonnull (m_pages m)"
    using assms(1) by (intro ball_update) (auto simp: frames_inv_def)
  ultimately show ?thesis using sf assms(1) by (auto simp: frames_inv_def)
qed

context arch_memory
begin

lemma map_region_loop_used:
  "map_region_loop A s ctx m i n = Inr s' \<Longrightarrow> ok s \<Longrightarrow> ok s' \<and> used s \<subseteq> used s'"
proof (induction n arbitrary: s i)
  case 0
  then show ?case by simp
next
  case (Suc n)
  then show ?case
    by (fastforce simp: and_then_Inr_iff dest: map_used split: if_splits)
qed

lemma unmap_region_loop_used:
  "ok s \<Longrightarrow> unat i + n \<le> length (m_pages m) \<Longrightarrow> unat i + n < 2 ^ 64 \<Longrightarrow>
   \<exists>s'. unmap_region_loop A s ctx m i n = Inr s' \<and> ok s' \<and> used s' = used s"
proof (induction n arbitrary: s i)
  case 0
  then show ?case by simp
next
  case (Suc n)
  have u: "unat (i + 1) = unat i + 1" using Suc.prems(3) by (simp add: unat_Suc_word)
  obtain s1 where s1: "(if bp_exists (m_pages m ! unat i)
      then am_unmap A s ctx (m_base m + i * vm_page_size) 1 else Inr s) = Inr s1" "ok s1" "used s1 = used s"
    using unmap_used [OF Suc.prems(1)] Suc.prems(1) by (cases "bp_exists (m_pages m ! unat i)") fastforce+
  have "\<exists>s'. unmap_region_loop A s1 ctx m (i + 1) n = Inr s' \<and> ok s' \<and> used s' = used s1"
    using Suc.IH [OF s1(2)] Suc.prems u by simp
  then show ?case using s1 Suc.prems by auto
qed

lemma free_pages_used:
  "ok s \<Longrightarrow> pages_nonnull ps \<Longrightarrow>
   ok (free_pages A s ps) \<and> used (free_pages A s ps) = used s - set_mset (page_frames ps)"
proof (induction ps arbitrary: s)
  case Nil
  then show ?case by simp
next
  case (Cons p ps)
  let ?s = "if bp_exists p \<and> bp_allocated p \<and> bp_ptr p \<noteq> 0 then am_free_phys A s (bp_ptr p) 1 else s"
  have "ok ?s" "used ?s = used s - (if page_owned p then {bp_ptr p div PAGE_SIZE} else {})"
    using Cons.prems by (auto simp: free_ok free_used page_owned_def pages_nonnull_def)
  moreover have "pages_nonnull ps" using Cons.prems(2) by (simp add: pages_nonnull_def)
  ultimately show ?case using Cons.IH [of ?s] by auto
qed

end

lemma set_region_regions: "mapped_regions (set_region a r m) = (mapped_regions a)[r := m]"
  by (simp add: set_region_def)

lemma space_frames_remove:
  assumes "frames_inv U ms" "mset ms = add_mset m (mset ms')"
  shows "frames_inv (U - set_mset (page_frames (m_pages m))) ms'"
proof -
  have sf: "space_frames ms = page_frames (m_pages m) + space_frames ms'"
    by (rule space_frames_add [OF assms(2)])
  have sub: "set ms' \<subseteq> set ms" using arg_cong [OF assms(2), of set_mset] by auto
  have c: "count (page_frames (m_pages m)) f + count (space_frames ms') f \<le> 1" for f
    using assms(1) sf by (simp add: frames_inv_def)
  have "f \<notin># page_frames (m_pages m)" if "f \<in># space_frames ms'" for f
    using c [of f] that by (auto simp: not_in_iff count_greater_zero_iff [symmetric] simp del: count_greater_zero_iff)
  moreover have "count (space_frames ms') f \<le> 1" for f using c [of f] by simp
  ultimately show ?thesis using assms(1) sub sf by (auto simp: frames_inv_def)
qed

context arch_memory
begin

lemma mapping_touch_frames:
  assumes "mapping_touch A s (ms ! r) i = Inr (t, s', m')" "ok s" "frames_inv (used s) ms" "r < length ms"
  shows "ok s' \<and> frames_inv (used s') (ms[r := m'])"
proof -
  let ?m = "ms ! r" let ?p = "m_pages ?m ! unat i"
  have i: "unat i < length (m_pages ?m)"
    using assms(1) by (auto simp: mapping_touch_def split: if_splits)
  show ?thesis
  proof (cases "bp_exists ?p")
    case True
    then show ?thesis using assms i by (auto simp: mapping_touch_def Let_def)
  next
    case False
    obtain q s1 where al: "am_alloc_phys A s 1 = (q, s1)" by force
    have a: "bp_allocated ?p" using assms(1) False i by (simp add: mapping_touch_def Let_def kassert_Inr_iff)
    show ?thesis
    proof (cases "q = 0")
      case True
      then have "s1 = s" using alloc_fail [OF assms(2)] al by simp
      then show ?thesis using assms i False al True a by (auto simp: mapping_touch_def Let_def)
    next
      case q: False
      let ?n = "?p\<lparr>bp_exists := True, bp_ptr := q\<rparr>"
      have e: "s' = s1" "m_pages m' = (m_pages ?m)[unat i := ?n]"
        using assms(1) i False al q a by (auto simp: mapping_touch_def Let_def)
      have "frames_inv (insert (q div PAGE_SIZE) (used s)) (ms[r := m'])"
        using frames_inv_add [OF assms(3,4) alloc_fresh [OF assms(2) al q], of ?n "unat i" m'] i False e q a
        by (simp add: page_owned_def)
      then show ?thesis using e alloc_used [OF assms(2) al q] alloc_ok [OF assms(2) al] by simp
    qed
  qed
qed

lemma touch_range_frames:
  assumes "touch_range A s (ms ! r) i n b = Inr (t, s', m')" "ok s" "frames_inv (used s) ms" "r < length ms"
  shows "ok s' \<and> frames_inv (used s') (ms[r := m'])"
  using assms
proof (induction n arbitrary: s ms i b)
  case 0
  then show ?case by auto
next
  case (Suc n)
  obtain t1 s1 m1 where t: "mapping_touch A s (ms ! r) i = Inr (t1, s1, m1)"
    and rest: "touch_range A s1 m1 (i + 1) n (b \<or> t1) = Inr (t, s', m')"
    using Suc.prems(1) by (auto simp: and_then_Inr_iff)
  have f: "ok s1 \<and> frames_inv (used s1) (ms[r := m1])"
    by (rule mapping_touch_frames [OF t Suc.prems(2-4)])
  have "ok s' \<and> frames_inv (used s') ((ms[r := m1])[r := m'])"
    by (rule Suc.IH [of s1 "ms[r := m1]" "i + 1" "b \<or> t1"]) (use rest f Suc.prems(4) in simp_all)
  then show ?case by simp
qed

lemma map_region_frames:
  assumes "map_region A s a r = Inr (s', a')" "ok s" "frames_inv (used s) (mapped_regions a)"
    "r < length (mapped_regions a)"
  shows "ok s' \<and> frames_inv (used s') (mapped_regions a')"
proof -
  let ?m = "mapped_regions a ! r"
  obtain s1 where l: "map_region_loop A s (vmm_ctx a) ?m 0 (unat (m_size ?m)) = Inr s1"
    and e: "s' = s1" "mapped_regions a' = (mapped_regions a)[r := ?m\<lparr>m_mapped := True\<rparr>]"
    using assms(1) by (auto simp: map_region_def Let_def and_then_Inr_iff)
  note u = map_region_loop_used [OF l assms(2)]
  have "pages_nonnull (m_pages ?m)" using assms(3,4) by (simp add: frames_inv_def)
  then show ?thesis
    using u e frames_inv_same [OF frames_inv_mono [OF assms(3)] assms(4), of "used s1" "?m\<lparr>m_mapped := True\<rparr>"]
    by simp
qed

text \<open>The common tail of the operations that touch pages: map the region again if anything changed.\<close>

lemma remap_frames:
  assumes "and_then X (\<lambda>(t, s1, m1).
      if t then map_region A s1 (set_region a r m1) r else Inr (s1, set_region a r m1)) = Inr (s', a')"
    and X: "\<And>t s1 m1. X = Inr (t, s1, m1) \<Longrightarrow> ok s1 \<and> frames_inv (used s1) ((mapped_regions a)[r := m1])"
    and r: "r < length (mapped_regions a)"
  shows "ok s' \<and> frames_inv (used s') (mapped_regions a')"
proof -
  obtain t s1 m1 where x: "X = Inr (t, s1, m1)"
    and e: "(if t then map_region A s1 (set_region a r m1) r else Inr (s1, set_region a r m1)) = Inr (s', a')"
    using assms(1) by (auto simp: and_then_Inr_iff)
  note f = X [OF x]
  show ?thesis
  proof (cases t)
    case True
    then show ?thesis
      using e f r by (intro map_region_frames [of s1 "set_region a r m1" r]) (simp_all add: set_region_regions)
  next
    case False
    then show ?thesis using e f by (auto simp: set_region_regions)
  qed
qed

lemma ensure_frames:
  assumes "ensure_load_store A s (ms ! r) off n = Inr (t, s', m')" "ok s" "frames_inv (used s) ms" "r < length ms"
  shows "ok s' \<and> frames_inv (used s') (ms[r := m'])"
  using assms
  by (auto simp: ensure_load_store_def Let_def kassert_Inr_iff dest: touch_range_frames split: if_splits)

lemma mapping_load_frames:
  assumes "mapping_load A s (ms ! r) off d n = Inr (t, s', m')" "ok s" "frames_inv (used s) ms" "r < length ms"
  shows "ok s' \<and> frames_inv (used s') (ms[r := m'])"
  using assms
  by (auto simp: mapping_load_def and_then_Inr_iff dest: ensure_frames load_used)
     (metis ensure_frames load_used frames_inv_mono)

lemma mapping_store_frames:
  assumes "mapping_store A s (ms ! r) off d n = Inr (t, s', m')" "ok s" "frames_inv (used s) ms" "r < length ms"
  shows "ok s' \<and> frames_inv (used s') (ms[r := m'])"
  using assms
  by (auto simp: mapping_store_def and_then_Inr_iff dest: ensure_frames store_used)
     (metis ensure_frames store_used frames_inv_mono)

lemma space_touch_frames:
  assumes "space_touch A s a x = Inr (s', a')" "ok s" "frames_inv (used s) (mapped_regions a)"
  shows "ok s' \<and> frames_inv (used s') (mapped_regions a')"
proof (cases "region_for_address a x")
  case None
  then show ?thesis using assms by (simp add: space_touch_def)
next
  case (Some r)
  note r = region_for_address_less [OF Some]
  show ?thesis
    using assms Some by (auto simp: space_touch_def intro!: remap_frames [OF _ _ r] dest: mapping_touch_frames [OF _ _ _ r])
qed

end

context arch_memory
begin

lemma space_touch_all_frames:
  assumes "space_touch_all A s a x = Inr (s', a')" "ok s" "frames_inv (used s) (mapped_regions a)"
  shows "ok s' \<and> frames_inv (used s') (mapped_regions a')"
proof (cases "region_for_address a x")
  case None
  then show ?thesis using assms by (simp add: space_touch_all_def)
next
  case (Some r)
  note r = region_for_address_less [OF Some]
  show ?thesis
    using assms Some
    by (auto simp: space_touch_all_def mapping_touch_all_def intro!: remap_frames [OF _ _ r] dest: touch_range_frames [OF _ _ _ r])
qed

lemma space_load_frames:
  assumes "space_load A s a x d n = Inr (s', a')" "ok s" "frames_inv (used s) (mapped_regions a)"
  shows "ok s' \<and> frames_inv (used s') (mapped_regions a')"
proof (cases "region_for_address a x")
  case None
  then show ?thesis using assms by (simp add: space_load_def)
next
  case (Some r)
  note r = region_for_address_less [OF Some]
  show ?thesis
    using assms Some
    by (auto simp: space_load_def intro!: remap_frames [OF _ _ r] dest: mapping_load_frames [OF _ _ _ r])
qed

lemma space_store_frames:
  assumes "space_store A s a x d n = Inr (s', a')" "ok s" "frames_inv (used s) (mapped_regions a)"
  shows "ok s' \<and> frames_inv (used s') (mapped_regions a')"
proof (cases "region_for_address a x")
  case None
  then show ?thesis using assms by (simp add: space_store_def)
next
  case (Some r)
  note r = region_for_address_less [OF Some]
  show ?thesis
    using assms Some
    by (auto simp: space_store_def intro!: remap_frames [OF _ _ r] dest: mapping_store_frames [OF _ _ _ r])
qed

lemma mapping_fault_frames:
  assumes "mapping_fault_hit A s (ms ! r) x = Inr (res, s', m')" "ok s" "frames_inv (used s) ms" "r < length ms"
  shows "ok s' \<and> frames_inv (used s') (ms[r := m'])"
  using assms
  by (auto simp: mapping_fault_hit_def Let_def and_then_Inr_iff dest: mapping_touch_frames split: if_splits)

lemma space_fault_hit_frames:
  assumes "space_fault_hit A s a x = Inr (b, s', a')" "ok s" "frames_inv (used s) (mapped_regions a)"
  shows "ok s' \<and> frames_inv (used s') (mapped_regions a')"
proof (cases "region_for_address a x")
  case None
  then show ?thesis using assms by (simp add: space_fault_hit_def)
next
  case (Some r)
  note r = region_for_address_less [OF Some]
  obtain res s1 m1 where f: "mapping_fault_hit A s (mapped_regions a ! r) x = Inr (res, s1, m1)"
    using assms(1) Some by (auto simp: space_fault_hit_def and_then_Inr_iff)
  note fr = mapping_fault_frames [OF f assms(2,3) r]
  have "and_then (Inr (res = remap_valid, s1, m1)) (\<lambda>(t, s1, m1).
      if t then map_region A s1 (set_region a r m1) r else Inr (s1, set_region a r m1)) = Inr (s', a')"
    using assms(1) Some f by (cases res) (auto simp: space_fault_hit_def and_then_Inr_iff)
  from remap_frames [OF this _ r] show ?thesis using fr by simp
qed

end

locale arch_space = arch_memory A used ok + vm_containers F
  for A :: "'s arch_mm_ops" and used :: "'s \<Rightarrow> u64 set" and ok :: "'s \<Rightarrow> bool" and F :: vm_frg

lemma not_owned_no_page [simp]: "\<not> page_owned no_page"
  by (simp add: page_owned_def no_page_def)

lemma map_to_pages_not_owned: "map_to_pages x ps = Inr qs \<Longrightarrow> q \<in> set qs \<Longrightarrow> \<not> page_owned q"
  by (induction ps arbitrary: qs x) (auto simp: and_then_Inr_iff kassert_Inr_iff page_owned_def)

lemma mapping_map_to_not_owned: "mapping_map_to m x p c = Inr m' \<Longrightarrow> \<forall>q\<in>set (m_pages m'). \<not> page_owned q"
  by (auto simp: mapping_map_to_def and_then_Inr_iff dest: map_to_pages_not_owned)

lemma mapping_allocate_not_owned:
  "mapping_allocate m p c = Inr m' \<Longrightarrow> \<forall>q\<in>set (m_pages m). \<not> bp_exists q \<Longrightarrow>
   \<forall>q\<in>set (m_pages m'). \<not> page_owned q"
  by (auto simp: mapping_allocate_def and_then_Inr_iff page_owned_def dest!: allocate_pages_Inr)

context arch_space
begin

text \<open>Giving a newly bound region its pages and mapping it keeps the invariant.\<close>

lemma bind_frames:
  assumes "map_region A s (set_region a1 r mem) r = Inr (s', a')" "ok s"
    "frames_inv (used s) (mapped_regions a)" "r < length (mapped_regions a1)"
    "mset (mapped_regions a1) = add_mset (mapped_regions a1 ! r) (mset (mapped_regions a))"
    "\<forall>q\<in>set (m_pages mem). \<not> page_owned q"
  shows "ok s' \<and> frames_inv (used s') (mapped_regions a')"
proof -
  have "mset (mapped_regions (set_region a1 r mem)) = add_mset mem (mset (mapped_regions a))"
    using assms(4,5) by (simp add: set_region_def mset_update)
  then have "frames_inv (used s) (mapped_regions (set_region a1 r mem))"
    using assms(3,6) frames_inv_new by blast
  then show ?thesis using map_region_frames [OF assms(1,2)] assms(4) by simp
qed

lemma space_allocate_frames:
  assumes "space_allocate A F s a sz p c = Inr (v, s', a')" "space_inv a" "ok s" "frames_inv (used s) (mapped_regions a)"
  shows "ok s' \<and> frames_inv (used s') (mapped_regions a')"
  using space_allocate_eq [OF assms(2), of sz A s p c] assms
  by (auto simp: lazy_region_def page_owned_def intro: frames_inv_new)

lemma space_map_frames:
  assumes "space_map A F s a x sz p c = Inr (v, s', a')" "space_inv a" "ok s" "frames_inv (used s) (mapped_regions a)"
  shows "ok s' \<and> frames_inv (used s') (mapped_regions a')"
proof (cases "find_free_hole a sz")
  case None
  then show ?thesis using assms by (simp add: space_map_def)
next
  case (Some i)
  have i: "i < length (memory_holes a)" "sz \<le> h_size (memory_holes a ! i)"
    using find_free_hole_spec [of a sz] Some by (simp_all add: best_hole_def)
  from bind_hole_inv [OF assms(2) i] obtain r a1 where b: "bind_hole F a i sz = Inr (r, a1)"
    "r < length (mapped_regions a1)"
    "mset (mapped_regions a1) = add_mset (mapped_regions a1 ! r) (mset (mapped_regions a))" by blast
  then obtain mem where "mapping_map_to (mapped_regions a1 ! r) x p c = Inr mem"
    "map_region A s (set_region a1 r mem) r = Inr (s', a')"
    using assms(1) Some by (auto simp: space_map_def and_then_Inr_iff)
  then show ?thesis
    using bind_frames [OF _ assms(3,4) b(2,3)] mapping_map_to_not_owned by blast
qed

lemma destroy_region_eq:
  assumes "space_inv a" "ok s" "frames_inv (used s) (mapped_regions a)" "r < length (mapped_regions a)"
    "m_mapped (mapped_regions a ! r)"
  shows "\<exists>s' a'. destroy_region A F s a r = Inr (s', a') \<and> space_inv a' \<and> ok s' \<and>
           mset (mapped_regions a) = add_mset (mapped_regions a ! r) (mset (mapped_regions a')) \<and>
           free_of (memory_holes a') = free_of (memory_holes a) + region_pages (mapped_regions a ! r) \<and>
           used s' = used s - set_mset (page_frames (m_pages (mapped_regions a ! r))) \<and>
           frames_inv (used s') (mapped_regions a')"
proof -
  let ?m = "mapped_regions a ! r" let ?n = "?m\<lparr>m_mapped := False\<rparr>" let ?a = "set_region a r ?n"
  have "wf_region ?m" using assms(1,4) by (simp add: space_inv_def)
  then have "\<exists>s1. unmap_region_loop A s (vmm_ctx a) ?m 0 (unat (m_size ?m)) = Inr s1 \<and> ok s1 \<and> used s1 = used s"
    using unat_u64_less [of "m_size ?m"] by (intro unmap_region_loop_used assms(2)) (simp_all add: wf_region_def)
  then obtain s1 where u: "unmap_region A s a r = Inr (s1, ?a)" and s1: "ok s1" "used s1 = used s"
    using assms(5) by (auto simp: unmap_region_def Let_def set_region_def)
  have inv: "space_inv ?a" by (rule space_inv_set_region [OF assms(1,4)]) simp
  have fa: "frames_inv (used s) (mapped_regions ?a)"
    using assms(3,4) by (auto simp: set_region_regions frames_inv_def [of _ "mapped_regions a"] intro!: frames_inv_same)
  have r: "r < length (mapped_regions ?a)" using assms(4) by simp
  obtain a' where b: "unbind_region F ?a r = Inr a'" "space_inv a'"
    "mset (mapped_regions ?a) = add_mset (mapped_regions ?a ! r) (mset (mapped_regions a'))"
    "free_of (memory_holes a') = free_of (memory_holes ?a) + region_pages (mapped_regions ?a ! r)"
    using unbind_region_inv [OF inv r] by blast
  have n: "mapped_regions ?a ! r = ?n" using assms(4) by simp
  have nn: "pages_nonnull (m_pages ?n)" using assms(3,4) by (simp add: frames_inv_def)
  note fp = free_pages_used [OF s1(1) nn]
  have d: "destroy_region A F s a r = Inr (delete_mapping A s1 ?n, a')"
    using u b(1) n by (simp add: destroy_region_def)
  have ms: "mset (mapped_regions a) = add_mset ?m (mset (mapped_regions a'))"
  proof -
    have "mset (mapped_regions ?a) = add_mset ?n (mset (mapped_regions a) - {#?m#})"
      using assms(4) by (simp add: set_region_regions mset_update)
    then have "mset (mapped_regions a') = mset (mapped_regions a) - {#?m#}" using b(3) n by simp
    then show ?thesis using assms(4) by simp
  qed
  have "free_of (memory_holes a') = free_of (memory_holes a) + region_pages ?m"
    using b(4) n by (simp add: region_pages_def)
  then show ?thesis
    using d b(2) fp s1 ms space_frames_remove [OF assms(3) ms] by (simp add: delete_mapping_def)
qed

end

context arch_space
begin

lemma space_allocate_at_frames:
  assumes "space_allocate_at A F s a base sz p c = Inr (v, s', a')" "space_inv a" "wf_ivl base sz"
    "ok s" "frames_inv (used s) (mapped_regions a)"
  shows "ok s' \<and> frames_inv (used s') (mapped_regions a')"
proof -
  have nz: "sz \<noteq> 0" "base \<noteq> 0"
    using assms(1) by (auto simp: space_allocate_at_def and_then_Inr_iff bind_exact_def kassert_Inr_iff)
  show ?thesis
    using allocate_at_eq [OF assms(2,3) nz, of A s p c] assms
    by (auto simp: lazy_region_def page_owned_def intro: frames_inv_new)
qed

lemma space_map_at_frames:
  assumes "space_map_at A F s a base x sz p c = Inr (v, s', a')" "space_inv a" "wf_ivl base sz"
    "ok s" "frames_inv (used s) (mapped_regions a)"
  shows "ok s' \<and> frames_inv (used s') (mapped_regions a')"
proof -
  have nz: "sz \<noteq> 0" "base \<noteq> 0"
    using assms(1) by (auto simp: space_map_at_def and_then_Inr_iff bind_exact_def kassert_Inr_iff)
  show ?thesis
  proof (rule bind_exact_inv [OF assms(2,3) nz])
    fix a1 assume "bind_exact F a base sz = Inr (None, a1)" "mapped_regions a1 = mapped_regions a"
    then show ?thesis using assms by (simp add: space_map_at_def)
  next
    fix r a1
    assume b: "bind_exact F a base sz = Inr (Some r, a1)" "r < length (mapped_regions a1)"
      "mapped_regions a1 ! r = new_mapping F base sz"
      "mset (mapped_regions a1) = add_mset (new_mapping F base sz) (mset (mapped_regions a))"
    then obtain mem where "mapping_map_to (mapped_regions a1 ! r) x p c = Inr mem"
      "map_region A s (set_region a1 r mem) r = Inr (s', a')"
      using assms(1) by (auto simp: space_map_at_def and_then_Inr_iff)
    then show ?thesis
      using bind_frames [OF _ assms(4,5) b(2)] b(3,4) mapping_map_to_not_owned by simp
  qed
qed

end

text \<open>The machine states and address spaces reached together: from a new address space, by its operations and
  by other code that may take frames from the allocator but gives back none of this address space's.\<close>

inductive owned_reach ::
  "'s arch_mm_ops \<Rightarrow> vm_frg \<Rightarrow> ('s \<Rightarrow> u64 set) \<Rightarrow> ('s \<Rightarrow> bool) \<Rightarrow> 's \<Rightarrow> address_space \<Rightarrow> bool"
  for A F used ok where
  created: "new_address_space A F s0 = Inr (s, a) \<Longrightarrow> ok s \<Longrightarrow> owned_reach A F used ok s a"
| other: "owned_reach A F used ok s a \<Longrightarrow> ok s' \<Longrightarrow> used s \<subseteq> used s' \<Longrightarrow> owned_reach A F used ok s' a"
| allocate: "owned_reach A F used ok s a \<Longrightarrow> space_allocate A F s a sz p c = Inr (v, s', a') \<Longrightarrow>
    owned_reach A F used ok s' a'"
| map: "owned_reach A F used ok s a \<Longrightarrow> space_map A F s a x sz p c = Inr (v, s', a') \<Longrightarrow>
    owned_reach A F used ok s' a'"
| allocate_at: "owned_reach A F used ok s a \<Longrightarrow> wf_ivl base sz \<Longrightarrow>
    space_allocate_at A F s a base sz p c = Inr (v, s', a') \<Longrightarrow> owned_reach A F used ok s' a'"
| map_at: "owned_reach A F used ok s a \<Longrightarrow> wf_ivl base sz \<Longrightarrow>
    space_map_at A F s a base x sz p c = Inr (v, s', a') \<Longrightarrow> owned_reach A F used ok s' a'"
| destroy: "owned_reach A F used ok s a \<Longrightarrow> destroy_address A F s a x = Inr (s', a') \<Longrightarrow>
    owned_reach A F used ok s' a'"
| fault: "owned_reach A F used ok s a \<Longrightarrow> space_fault_hit A s a x = Inr (b, s', a') \<Longrightarrow>
    owned_reach A F used ok s' a'"
| touch: "owned_reach A F used ok s a \<Longrightarrow> space_touch A s a x = Inr (s', a') \<Longrightarrow>
    owned_reach A F used ok s' a'"
| touch_all: "owned_reach A F used ok s a \<Longrightarrow> space_touch_all A s a x = Inr (s', a') \<Longrightarrow>
    owned_reach A F used ok s' a'"
| load: "owned_reach A F used ok s a \<Longrightarrow> space_load A s a x d n = Inr (s', a') \<Longrightarrow>
    owned_reach A F used ok s' a'"
| store: "owned_reach A F used ok s a \<Longrightarrow> space_store A s a x d n = Inr (s', a') \<Longrightarrow>
    owned_reach A F used ok s' a'"

context arch_space
begin

lemma destroy_address_frames:
  assumes "destroy_address A F s a x = Inr (s', a')" "space_inv a" "ok s" "frames_inv (used s) (mapped_regions a)"
  shows "ok s' \<and> frames_inv (used s') (mapped_regions a')"
proof -
  obtain r where r: "region_for_address a x = Some r" and d: "destroy_region A F s a r = Inr (s', a')"
    using assms(1) by (auto simp: destroy_address_def split: option.splits)
  have "m_mapped (mapped_regions a ! r)"
    using d by (auto simp: destroy_region_def unmap_region_def and_then_Inr_iff kassert_Inr_iff Let_def)
  then show ?thesis
    using destroy_region_eq [OF assms(2-4) region_for_address_less [OF r]] d by auto
qed

lemma owned_reach_inv:
  "owned_reach A F used ok s a \<Longrightarrow> space_inv a \<and> ok s \<and> frames_inv (used s) (mapped_regions a)"
proof (induction rule: owned_reach.induct)
  case (created s0 s a)
  have "frames_inv (used s) (mapped_regions a)"
    using created(1) by (auto simp: new_address_space_def and_then_Inr_iff frames_inv_def space_frames_def)
  then show ?case using created(2) new_address_space_inv [OF created(1)] by simp
next
  case (other s a s')
  then show ?case using frames_inv_mono by blast
qed (blast dest: space_allocate_inv space_allocate_frames space_map_inv space_map_frames
    space_allocate_at_inv space_allocate_at_frames space_map_at_inv space_map_at_frames
    destroy_address_inv destroy_address_frames space_fault_hit_inv space_fault_hit_frames
    space_touch_inv space_touch_frames space_touch_all_inv space_touch_all_frames
    space_load_inv space_load_frames space_store_inv space_store_frames)+

end

text \<open>C2. No two pages of an address space ever share a physical frame the address space has taken from the
  allocator, and every such frame is marked as used there: no frame is handed out twice while a region
  still holds it.\<close>

theorem frames_exclusive:
  assumes "arch_space A used ok F" "owned_reach A F used ok s a"
  shows "(\<forall>f. count (\<Sum>m\<in>#mset (mapped_regions a). page_frames (m_pages m)) f \<le> 1) \<and>
         (\<forall>f. f \<in># (\<Sum>m\<in>#mset (mapped_regions a). page_frames (m_pages m)) \<longrightarrow> f \<in> used s)"
  using arch_space.owned_reach_inv [OF assms] by (auto simp: frames_inv_def space_frames_def)

text \<open>C6. Destroying a mapped region always succeeds. Its pages become free pages of the address space, the
  physical frames it had taken, and no others, go back to the allocator, and the frames of the other
  regions stay in use.\<close>

theorem destroy_region_contract:
  assumes "arch_space A used ok F" "owned_reach A F used ok s a" "r < length (mapped_regions a)"
    "m_mapped (mapped_regions a ! r)"
  shows "\<exists>s' a'. destroy_region A F s a r = Inr (s', a') \<and> space_inv a' \<and>
           mset (mapped_regions a) = add_mset (mapped_regions a ! r) (mset (mapped_regions a')) \<and>
           free_of (memory_holes a') = free_of (memory_holes a) + region_pages (mapped_regions a ! r) \<and>
           used s' = used s - set_mset (page_frames (m_pages (mapped_regions a ! r))) \<and>
           (\<forall>m\<in>set (mapped_regions a'). set_mset (page_frames (m_pages m)) \<subseteq> used s')"
proof -
  have i: "space_inv a" "ok s" "frames_inv (used s) (mapped_regions a)"
    using arch_space.owned_reach_inv [OF assms(1,2)] by simp_all
  have "set_mset (page_frames (m_pages m)) \<subseteq> U" if "m \<in> set ms" "frames_inv U ms" for m ms U
    using that by (auto simp: frames_inv_def space_frames_def)
  then show ?thesis using arch_space.destroy_region_eq [OF assms(1) i assms(3,4)] by blast
qed

lemma fault_idx_less:
  assumes "wf_region m" "m_base m \<le> x" "x < m_base m + m_size m * vm_page_size"
  shows "unat ((x - m_base m) div vm_page_size) < length (m_pages m)"
proof -
  have "unat (x - m_base m) = unat x - unat (m_base m)" using assms(2) by (rule unat_sub_le)
  moreover have "unat x < unat (m_base m) + unat (m_size m) * 4096"
    using assms(1,3) wf_ivl_end [of "m_base m" "m_size m"] by (simp add: word_less_nat_alt wf_region_def)
  ultimately show ?thesis
    using assms(1,2) by (simp add: unat_div wf_region_def word_le_nat_alt less_mult_imp_div_less)
qed

lemma region_for_address_loop_base:
  "region_for_address_loop rs i x = Some j \<Longrightarrow> m_base (rs ! (j - i)) \<le> x"
proof (induction rs i x rule: region_for_address_loop.induct)
  case (2 m rs i x)
  then show ?case
    using region_for_address_loop_less [of rs "Suc i" x j] by (auto split: if_splits simp: nth_Cons')
qed simp

lemma region_for_address_base: "region_for_address a x = Some r \<Longrightarrow> m_base (mapped_regions a ! r) \<le> x"
  unfolding region_for_address_def by (drule region_for_address_loop_base) simp

text \<open>A fault on an absent page, step by step: the page gets the new frame and the region is mapped again.\<close>

lemma space_fault_absent:
  assumes "space_inv a" and r: "region_for_address a x = Some r" "m = mapped_regions a ! r"
    and x: "x < m_base m + m_size m * vm_page_size" "idx = unat ((x - m_base m) div vm_page_size)"
    and page: "bp_allocated (m_pages m ! idx)" "\<not> bp_exists (m_pages m ! idx)"
    and alloc: "am_alloc_phys A s 1 = (p, s1)" "p \<noteq> 0"
    and fault: "space_fault_hit A s a x = Inr (b, s', a')"
    and n: "n = m\<lparr>m_pages := (m_pages m)[idx := \<lparr>bp_ptr = p, bp_exists = True, bp_allocated = True\<rparr>]\<rparr>"
  shows "b" "idx < length (m_pages m)" "wf_region n" "m_base m \<le> x"
    "map_region_loop A s1 (vmm_ctx a) n 0 (unat (m_size n)) = Inr s'"
    "mapped_regions a' = (mapped_regions a)[r := n\<lparr>m_mapped := True\<rparr>]"
proof -
  note rl = region_for_address_less [OF r(1)]
  show bs: "m_base m \<le> x" using region_for_address_base [OF r(1)] r(2) by simp
  have wf: "wf_region m" using assms(1) rl r(2) by (simp add: space_inv_def)
  show idx: "idx < length (m_pages m)" using fault_idx_less [OF wf bs x(1)] x(2) by simp
  show "wf_region n" using wf by (simp add: n wf_region_def)
  obtain q where "m_pages m ! idx = \<lparr>bp_ptr = q, bp_exists = False, bp_allocated = True\<rparr>"
    using page by (cases "m_pages m ! idx") simp
  then have "mapping_fault_hit A s m x = Inr (remap_valid, s1, n)"
    using bs x(1) idx alloc
    by (simp add: mapping_fault_hit_def mapping_touch_def Let_def not_less not_le n x(2) [symmetric])
  then have m: "map_region A s1 (set_region a r n) r = Inr (s', a')" and "b"
    using fault r by (auto simp: space_fault_hit_def and_then_Inr_iff)
  then show "b" by simp
  show "map_region_loop A s1 (vmm_ctx a) n 0 (unat (m_size n)) = Inr s'"
    using m rl by (auto simp: map_region_def Let_def and_then_Inr_iff)
  show "mapped_regions a' = (mapped_regions a)[r := n\<lparr>m_mapped := True\<rparr>]"
    using map_region_set [OF m] rl by (simp add: set_region_def)
qed


section \<open>Instances\<close>

text \<open>A machine with the frame allocator of x86_64 and no page tables.\<close>

definition pmm_arch :: "machine arch_mm_ops" where
  "pmm_arch = \<lparr>am_alloc_phys = pmm_alloc, am_free_phys = pmm_free,
     am_map = (\<lambda>s ctx d p n fl c. Inr s), am_unmap = (\<lambda>s ctx d n. Inr s),
     am_create_context = (\<lambda>s. Inr (0, s)), am_destroy_context = (\<lambda>s c. Inr s),
     am_mapping_load = (\<lambda>s m off d n. Inr s), am_mapping_store = (\<lambda>s m off d n. Inr s)\<rparr>"

lemma pmm_arch_sel [simp]:
  "am_alloc_phys pmm_arch = pmm_alloc" "am_free_phys pmm_arch = pmm_free"
  "am_map pmm_arch s ctx d p n fl c = Inr s" "am_unmap pmm_arch s ctx d n = Inr s"
  "am_create_context pmm_arch s = Inr (0, s)" "am_destroy_context pmm_arch s ctx = Inr s"
  "am_mapping_load pmm_arch s m off d n = Inr s" "am_mapping_store pmm_arch s m off d n = Inr s"
  by (simp_all add: pmm_arch_def)

interpretation pmmsp: arch_space pmm_arch pmm_used pmm_ok ref_vm
  by unfold_locales
     (auto simp: pmm.free_ok pmm.free_used
       dest: pmm.alloc_ok pmm.alloc_fail pmm.alloc_fresh pmm.alloc_used pmm.alloc_aligned)

definition page_space :: address_space where
  "page_space = \<lparr>mapped_regions = [lazy_region 0x7FFFFFFFF000 1 3 0],
     memory_holes = [\<lparr>h_base = 0x1000, h_size = 0x7FFFFFFFE\<rparr>], vmm_ctx = 0\<rparr>"

lemma fresh_space_owned: "owned_reach pmm_arch ref_vm pmm_used pmm_ok small_machine fresh_space"
proof (rule owned_reach.created)
  show "new_address_space pmm_arch ref_vm small_machine = Inr (small_machine, fresh_space)"
    by (simp add: new_address_space_def fresh_space_def refvm.hl.push_back
        vm_user_base_def vm_user_end_def vm_page_size_def)
qed (rule small_machine_ok)

lemma page_space_owned: "owned_reach pmm_arch ref_vm pmm_used pmm_ok small_machine page_space"
proof (rule owned_reach.allocate [OF fresh_space_owned])
  show "space_allocate pmm_arch ref_vm small_machine fresh_space 1 3 0 =
      Inr (0x7FFFFFFFF000, small_machine, page_space)"
    by (simp add: space_allocate_def find_free_hole_def fresh_space_def bind_hole_def put_mapping_def
        find_succ_mapping_def refvm.rl.push_back mapping_allocate_def new_mapping_def refvm.pv.vec_resize_Nil
        no_page_def map_region_def set_region_def page_space_def lazy_region_def fresh_page_def vm_page_size_def)
qed

theorem frames_exclusive_witness:
  "owned_reach pmm_arch ref_vm pmm_used pmm_ok small_machine page_space \<and>
   (\<forall>f. count (\<Sum>m\<in>#mset (mapped_regions page_space). page_frames (m_pages m)) f \<le> 1)"
  using frames_exclusive [OF pmmsp.arch_space_axioms page_space_owned] page_space_owned by simp

theorem destroy_region_contract_witness:
  "\<exists>s' a'. destroy_region pmm_arch ref_vm small_machine page_space 0 = Inr (s', a') \<and> space_inv a' \<and>
           mapped_regions a' = []"
  using destroy_region_contract [OF pmmsp.arch_space_axioms page_space_owned, of 0]
  by (auto simp: page_space_def lazy_region_def)


end
