(* ===== verification/PageTables.thy ===== *)
theory PageTables
  imports Vmm Frames
begin

text \<open>
  What the page table code guarantees. The tables of the user halves of a set of address spaces form a
  forest: every table is a page-aligned frame in use and no frame serves as two tables. Mapping, unmapping
  and creating address spaces keep the forest, change exactly the translations they are asked to change,
  and leave every other address space alone. The last part shows that the x86_64 functions keep the contract
  the address spaces rely on.
\<close>

section \<open>Cells of tables in memory\<close>

definition aligned :: "u64 \<Rightarrow> bool" where
  "aligned t \<longleftrightarrow> unat t mod 4096 = 0"

lemma aligned_obtain: assumes "aligned t" obtains k where "unat t = 4096 * k"
  using assms unfolding aligned_def by (metis dvd_def mod_eq_0_iff_dvd)

lemma aligned_bound: assumes "aligned t" shows "unat t + 4096 \<le> 2 ^ 64"
proof -
  obtain k where "unat t = 4096 * k" using aligned_obtain [OF assms] .
  moreover from this have "k < 2 ^ 52" using unat_u64_less [of t] by simp
  ultimately show ?thesis by simp
qed

lemma div_4096_iff: "(x :: nat) div 4096 = k \<longleftrightarrow> 4096 * k \<le> x \<and> x < 4096 * k + 4096"
proof
  assume "x div 4096 = k"
  then show "4096 * k \<le> x \<and> x < 4096 * k + 4096"
    using div_mult_mod_eq [of x 4096] mod_less_divisor [of 4096 x] by linarith
qed (auto intro: div_nat_eqI)

lemma unat_cell:
  assumes "aligned t" "i < 512"
  shows "unat (t + i * 8) = unat t + unat i * 8"
proof -
  have i: "unat i < 512" using assms(2) by (simp add: word_less_nat_alt)
  have "unat (i * 8) = unat i * 8" using i unat_mult_less [of i 8] by simp
  then show ?thesis
    using aligned_bound [OF assms(1)] i unat_add_less [of t "i * 8"] by simp
qed

lemma unat_cell_byte:
  assumes "aligned t" "i < 512" "k < 8"
  shows "unat (t + i * 8 + of_nat k) = unat t + unat i * 8 + k"
proof -
  have i: "unat i < 512" using assms(2) by (simp add: word_less_nat_alt)
  have "unat (of_nat k :: u64) = k" using assms(3) by (simp add: unat_of_nat)
  then show ?thesis
    using aligned_bound [OF assms(1)] i assms(3) unat_cell [OF assms(1,2)]
      unat_add_less [of "t + i * 8" "of_nat k"] by simp
qed

lemma unat_diff_cases:
  "unat (b - a :: u64) = (if unat a \<le> unat b then unat b - unat a else unat b + 2 ^ 64 - unat a)"
  by (simp add: unat_sub_if')

lemma cells_apart:
  assumes "aligned t" "aligned u" "i < 512" "j < 512" "t \<noteq> u \<or> i \<noteq> j"
  shows "apart (t + i * 8) (u + j * 8)"
proof -
  let ?A = "unat t + unat i * 8" and ?B = "unat u + unat j * 8"
  have i: "unat i < 512" "unat j < 512" using assms(3,4) by (simp_all add: word_less_nat_alt)
  obtain k l where k: "unat t = 4096 * k" and l: "unat u = 4096 * l"
    using aligned_obtain [OF assms(1)] aligned_obtain [OF assms(2)] by metis
  have ne: "?A \<noteq> ?B"
  proof
    assume e: "?A = ?B"
    then have "512 * k + unat i = 512 * l + unat j" using k l by simp
    moreover from this have "(512 * k + unat i) div 512 = (512 * l + unat j) div 512" by (rule arg_cong)
    then have "k = l" using i by simp
    ultimately have "k = l \<and> unat i = unat j" by simp
    then show False using assms(5) k l by (simp add: word_unat_eq_iff)
  qed
  have b: "?A + 8 \<le> 2 ^ 64" "?B + 8 \<le> 2 ^ 64"
    using aligned_bound [OF assms(1)] aligned_bound [OF assms(2)] i by linarith+
  have ge: "8 \<le> (if x \<le> y then y - x else y + 2 ^ 64 - x)"
    if "x = 8 * x'" "y = 8 * y'" "x \<noteq> y" "x + 8 \<le> 2 ^ 64" "y + 8 \<le> 2 ^ 64" for x y x' y' :: nat
    using that by (auto split: if_splits)
  have A: "?A = 8 * (512 * k + unat i)" and B: "?B = 8 * (512 * l + unat j)" using k l by simp_all
  have "8 \<le> unat (u + j * 8 - (t + i * 8))" "8 \<le> unat (t + i * 8 - (u + j * 8))"
    unfolding unat_diff_cases unat_cell [OF assms(1,3)] unat_cell [OF assms(2,4)]
    using ge [OF A B ne b] ge [OF B A ne [symmetric] b(2,1)] by simp_all
  then show ?thesis by (simp add: apart_def word_le_nat_alt)
qed

lemma in_page_iff:
  assumes "aligned p"
  shows "x - p < 4096 \<longleftrightarrow> unat x div 4096 = unat p div 4096"
proof -
  obtain k where k: "unat p = 4096 * k" using aligned_obtain [OF assms] .
  have b: "4096 * k + 4096 \<le> 2 ^ 64" using aligned_bound [OF assms] k by simp
  show ?thesis
  proof (cases "unat p \<le> unat x")
    case True
    then have "x - p < 4096 \<longleftrightarrow> unat x - 4096 * k < 4096"
      by (simp add: word_less_nat_alt unat_diff_cases k)
    then show ?thesis using True k by (auto simp: div_4096_iff)
  next
    case False
    then have "x - p < 4096 \<longleftrightarrow> unat x + 2 ^ 64 - 4096 * k < 4096"
      by (simp add: word_less_nat_alt unat_diff_cases k)
    moreover have "\<not> unat x + 2 ^ 64 - 4096 * k < 4096" using b by linarith
    moreover have "unat x div 4096 \<noteq> k" using False k by (auto simp: div_4096_iff)
    ultimately show ?thesis using k by simp
  qed
qed

lemma page_of_cell: "n = 4096 * q \<Longrightarrow> i < 512 \<Longrightarrow> k < 8 \<Longrightarrow> (n + i * 8 + k) div 4096 = n div (4096 :: nat)"
  by (simp add: div_4096_iff)

lemma read64_fill_other:
  assumes "aligned t" "aligned p" "t \<noteq> p" "i < 512"
  shows "read64 (fill m p v 4096) (t + i * 8) = read64 m (t + i * 8)"
proof (rule read64_cong)
  fix k :: nat assume k: "k < 8"
  have i: "unat i < 512" using assms(4) by (simp add: word_less_nat_alt)
  have "unat (t + i * 8 + of_nat k) div 4096 = unat t div 4096"
    using unat_cell_byte [OF assms(1,4) k] i k aligned_obtain [OF assms(1)]
    by (metis page_of_cell)
  moreover have "unat t div 4096 \<noteq> unat p div 4096"
    using assms(1-3) unfolding aligned_def by (metis div_mult_mod_eq word_unat_eq_iff)
  ultimately show "fill m p v 4096 (t + i * 8 + of_nat k) = m (t + i * 8 + of_nat k)"
    by (intro fill_outside) (simp add: in_page_iff [OF assms(2)])
qed

lemma read64_fill_zero:
  assumes "aligned p" "i < 512"
  shows "read64 (fill m p 0 4096) (p + i * 8) = 0"
proof (rule read64_zero)
  fix k :: nat assume k: "k < 8"
  have i: "unat i < 512" using assms(2) by (simp add: word_less_nat_alt)
  have "unat (p + i * 8 + of_nat k) div 4096 = unat p div 4096"
    using unat_cell_byte [OF assms k] i k aligned_obtain [OF assms(1)]
    by (metis page_of_cell)
  then have "p + i * 8 + of_nat k - p < 4096" unfolding in_page_iff [OF assms(1)] .
  then show "fill m p 0 4096 (p + i * 8 + of_nat k) = 0" by (rule fill_inside)
qed

lemma table_write_same [simp]: "table_read (table_write s t i v) t i = v"
  by (simp add: table_read_def table_write_def)

lemma table_write_other:
  "aligned t \<Longrightarrow> aligned u \<Longrightarrow> i < 512 \<Longrightarrow> j < 512 \<Longrightarrow> t \<noteq> u \<or> i \<noteq> j \<Longrightarrow>
   table_read (table_write s t i v) u j = table_read s u j"
  by (simp add: table_read_def table_write_def read64_write64_apart cells_apart)

lemma table_read_cong: "phys_mem s = phys_mem s' \<Longrightarrow> table_read s t i = table_read s' t i"
  by (simp add: table_read_def)

section \<open>Entries\<close>

lemma bit_VMM_ADDR_MASK: "bit VMM_ADDR_MASK n \<longleftrightarrow> 12 \<le> n \<and> n < 63"
proof -
  have e: "VMM_FLAG_MASK = mask 12 OR push_bit 63 1"
    by (simp add: VMM_FLAG_MASK_def mask_eq_exp_minus_1 push_bit_eq_mult)
  show ?thesis
    unfolding VMM_ADDR_MASK_def e bit_not_iff bit_or_iff bit_push_bit_iff bit_mask_iff bit_1_iff by auto
qed

lemma aligned_bits: "aligned p \<Longrightarrow> n < 12 \<Longrightarrow> \<not> bit p n"
proof -
  assume a: "aligned p" and n: "n < 12"
  have "unat (take_bit 12 p) = 0" using a by (simp add: aligned_def unsigned_take_bit_eq take_bit_eq_mod unat_mod)
  then have "take_bit 12 p = 0" by (simp add: unat_eq_zero)
  then have "\<not> bit (take_bit 12 p) n" by simp
  then show ?thesis using n by (simp add: bit_simps)
qed

lemma small_bits: assumes "p < 2 ^ 44" "44 \<le> n" shows "\<not> bit (p :: u64) n"
proof -
  have "unat p < 2 ^ 44" using assms(1) by (simp add: word_less_nat_alt)
  also have "(2 :: nat) ^ 44 \<le> 2 ^ n" using assms(2) by (rule power_increasing) simp
  finally have "unat p div 2 ^ n = 0" by simp
  then have "\<not> bit (unat p) n" by (simp add: bit_iff_odd)
  then show ?thesis by (simp add: bit_unsigned_iff)
qed

lemma table_entry:
  assumes "aligned p" "p < 2 ^ 44"
  shows "(p OR higher_perms OR VMM_FLAG_PRESENT) AND VMM_ADDR_MASK = p" "p AND VMM_ADDR_MASK = p"
    "(p OR higher_perms OR VMM_FLAG_PRESENT) AND VMM_FLAG_PRESENT \<noteq> 0"
proof -
  have p: "bit p n \<Longrightarrow> 12 \<le> n \<and> n < 63" for n
    using aligned_bits [OF assms(1), of n] small_bits [OF assms(2), of n] by force
  have f: "higher_perms OR VMM_FLAG_PRESENT = mask 3"
    by (simp add: higher_perms_def VMM_FLAG_WRITE_def VMM_FLAG_USER_def VMM_FLAG_PRESENT_def mask_eq_exp_minus_1)
  have or: "p OR higher_perms OR VMM_FLAG_PRESENT = p OR mask 3" by (simp add: f or.assoc)
  show "(p OR higher_perms OR VMM_FLAG_PRESENT) AND VMM_ADDR_MASK = p" unfolding or
  proof (rule bit_word_eqI)
    fix n assume "n < LENGTH(64)"
    show "bit ((p OR mask 3) AND VMM_ADDR_MASK) n = bit p n"
      using p [of n] by (auto simp: bit_simps bit_VMM_ADDR_MASK)
  qed
  show "p AND VMM_ADDR_MASK = p"
  proof (rule bit_word_eqI)
    fix n assume "n < LENGTH(64)"
    show "bit (p AND VMM_ADDR_MASK) n = bit p n"
      using p [of n] by (auto simp: bit_simps bit_VMM_ADDR_MASK)
  qed
  have "bit ((p OR mask 3) AND VMM_FLAG_PRESENT) 0" by (simp add: bit_simps VMM_FLAG_PRESENT_def)
  then show "(p OR higher_perms OR VMM_FLAG_PRESENT) AND VMM_FLAG_PRESENT \<noteq> 0" unfolding or by auto
qed

section \<open>Trees of tables\<close>

text \<open>The table reached from table \<open>t\<close> through a list of offsets.\<close>

fun table_at :: "machine \<Rightarrow> u64 \<Rightarrow> u64 list \<Rightarrow> u64 option" where
  "table_at s t [] = Some t"
| "table_at s t (i # is) =
     (if table_read s t i AND VMM_FLAG_PRESENT = 0 then None
      else table_at s (table_read s t i AND VMM_ADDR_MASK) is)"

lemma table_at_snoc:
  "table_at s t (p @ [i]) =
     (case table_at s t p of
        None \<Rightarrow> None
      | Some u \<Rightarrow> if table_read s u i AND VMM_FLAG_PRESENT = 0 then None
                  else Some (table_read s u i AND VMM_ADDR_MASK))"
  by (induction p arbitrary: t) simp_all

definition path_ok :: "u64 list \<Rightarrow> bool" where
  "path_ok p \<longleftrightarrow> length p \<le> 3 \<and> (\<forall>i\<in>set p. i < 512) \<and> (p \<noteq> [] \<longrightarrow> hd p < 256)"

lemma path_ok_Nil [simp]: "path_ok []"
  by (simp add: path_ok_def)

lemma path_ok_snocD: "path_ok (p @ [i]) \<Longrightarrow> path_ok p \<and> i < 512 \<and> length p \<le> 2"
  by (cases p) (auto simp: path_ok_def)

text \<open>The tables of the user halves of the address spaces \<open>R\<close>: page-aligned frames in use, none of which
  serves twice.\<close>

definition forest :: "machine \<Rightarrow> u64 set \<Rightarrow> bool" where
  "forest s R \<longleftrightarrow>
     (\<forall>P\<in>R. \<forall>p t. path_ok p \<longrightarrow> table_at s P p = Some t \<longrightarrow> aligned t \<and> t div PAGE_SIZE \<in> pmm_used s) \<and>
     (\<forall>P\<in>R. \<forall>Q\<in>R. \<forall>p q t. path_ok p \<longrightarrow> path_ok q \<longrightarrow>
        table_at s P p = Some t \<longrightarrow> table_at s Q q = Some t \<longrightarrow> P = Q \<and> p = q)"

lemma forestD:
  assumes "forest s R" "P \<in> R" "path_ok p" "table_at s P p = Some t"
  shows "aligned t" "t div PAGE_SIZE \<in> pmm_used s"
  using assms by (auto simp: forest_def)

lemma forest_inj:
  assumes "forest s R" "P \<in> R" "Q \<in> R" "path_ok p" "path_ok q" "table_at s P p = Some t" "table_at s Q q = Some t"
  shows "P = Q \<and> p = q"
  using assms unfolding forest_def by blast

text \<open>A new table \<open>x\<close> hung into entry \<open>off\<close> of table \<open>t\<close>.\<close>

definition hung :: "machine \<Rightarrow> machine \<Rightarrow> u64 \<Rightarrow> u64 \<Rightarrow> u64 \<Rightarrow> bool" where
  "hung s s' t off x \<longleftrightarrow>
     aligned x \<and> x < 2 ^ 44 \<and> x div PAGE_SIZE \<notin> pmm_used s \<and> pmm_used s' = insert (x div PAGE_SIZE) (pmm_used s) \<and>
     table_read s t off AND VMM_FLAG_PRESENT = 0 \<and>
     table_read s' t off AND VMM_FLAG_PRESENT \<noteq> 0 \<and> table_read s' t off AND VMM_ADDR_MASK = x \<and>
     (\<forall>u j. aligned u \<longrightarrow> u \<noteq> x \<longrightarrow> j < 512 \<longrightarrow> u \<noteq> t \<or> j \<noteq> off \<longrightarrow> table_read s' u j = table_read s u j) \<and>
     (\<forall>j. j < 512 \<longrightarrow> table_read s' x j = 0)"

lemma hung_table_at:
  assumes f: "forest s R" and P: "P \<in> R" and ok: "path_ok (p @ [off])" and t: "table_at s P p = Some t"
    and h: "hung s s' t off x" and Q: "Q \<in> R" and q: "path_ok q"
  shows "table_at s' Q q = (if Q = P \<and> q = p @ [off] then Some x else table_at s Q q)"
  using q
proof (induction q rule: rev_induct)
  case Nil
  then show ?case by simp
next
  case (snoc i q)
  note qi = path_ok_snocD [OF snoc.prems] and pk = path_ok_snocD [OF ok]
  have IH: "table_at s' Q q = (if Q = P \<and> q = p @ [off] then Some x else table_at s Q q)"
    using snoc.IH qi by blast
  have none: "table_at s P (p @ [off]) = None" using t h by (simp add: table_at_snoc hung_def)
  show ?case
  proof (cases "Q = P \<and> q = p @ [off]")
    case True
    then have "table_at s' Q q = Some x" using IH by simp
    then have "table_at s' Q (q @ [i]) = None" using h qi by (simp add: table_at_snoc hung_def)
    moreover have "table_at s Q (q @ [i]) = None" using True none by (simp only: table_at_snoc) simp
    ultimately show ?thesis using True by simp
  next
    case F: False
    have e: "table_at s' Q q = table_at s Q q" by (simp only: IH if_not_P [OF F])
    show ?thesis
    proof (cases "table_at s Q q")
      case None
      then have "\<not> (Q = P \<and> q @ [i] = p @ [off])" using t by auto
      then show ?thesis using None e by (simp add: table_at_snoc)
    next
      case (Some u)
      have u: "aligned u" "u div PAGE_SIZE \<in> pmm_used s" using forestD [OF f Q _ Some] qi by blast+
      have ux: "u \<noteq> x" using u(2) h by (auto simp: hung_def)
      show ?thesis
      proof (cases "u = t \<and> i = off")
        case True
        then have "Q = P \<and> q = p" using forest_inj [OF f Q P _ _ Some, of p] t qi pk by blast
        then show ?thesis using Some e True h by (simp add: table_at_snoc hung_def)
      next
        case False
        then have "table_read s' u i = table_read s u i" using h u(1) ux qi by (auto simp: hung_def)
        then have "table_at s' Q (q @ [i]) = table_at s Q (q @ [i])" using Some e by (simp add: table_at_snoc)
        moreover have N: "\<not> (Q = P \<and> q @ [i] = p @ [off])" using False t Some by auto
        ultimately show ?thesis by (simp only: N if_False)
      qed
    qed
  qed
qed

lemma hung_forest:
  assumes f: "forest s R" and P: "P \<in> R" and ok: "path_ok (p @ [off])" and t: "table_at s P p = Some t"
    and h: "hung s s' t off x"
  shows "forest s' R"
proof -
  note at = hung_table_at [OF f P ok t h]
  have x: "aligned x" "x div PAGE_SIZE \<notin> pmm_used s" "pmm_used s' = insert (x div PAGE_SIZE) (pmm_used s)"
    using h by (simp_all add: hung_def)
  have old: "u \<noteq> x" if "Q \<in> R" "path_ok q" "table_at s Q q = Some u" for Q q u
    using forestD [OF f that] x(2) by auto
  have "aligned u \<and> u div PAGE_SIZE \<in> pmm_used s'" if "Q \<in> R" "path_ok q" "table_at s' Q q = Some u" for Q q u
    using that at [OF that(1,2)] forestD [OF f that(1,2)] x by (auto split: if_splits)
  moreover have "Q = Q' \<and> q = q'"
    if "Q \<in> R" "Q' \<in> R" "path_ok q" "path_ok q'" "table_at s' Q q = Some u" "table_at s' Q' q' = Some u" for Q Q' q q' u
    using that at [OF that(1,3)] at [OF that(2,4)] old [OF that(1,3)] old [OF that(2,4)]
      forest_inj [OF f that(1-4)] by (auto split: if_splits)
  ultimately show ?thesis unfolding forest_def by blast
qed

section \<open>Entries of virtual addresses\<close>

definition vpath :: "u64 \<Rightarrow> u64 list" where
  "vpath v = [pml4_off (vmm_virt_to_offs v), pdp_off (vmm_virt_to_offs v), pd_off (vmm_virt_to_offs v)]"

definition vleaf :: "u64 \<Rightarrow> u64" where
  "vleaf v = pt_off (vmm_virt_to_offs v)"

definition user_addr :: "u64 \<Rightarrow> bool" where
  "user_addr v \<longleftrightarrow> v < 2 ^ 47"

definition entry :: "machine \<Rightarrow> u64 \<Rightarrow> u64 \<Rightarrow> u64" where
  "entry s P v = (case table_at s P (vpath v) of None \<Rightarrow> 0 | Some t \<Rightarrow> table_read s t (vleaf v))"

lemma offset_bits: "drop_bit k (addr AND push_bit k 0x1FF) = take_bit 9 (drop_bit k addr :: u64)"
proof -
  have "push_bit k 0x1FF = push_bit k (mask 9 :: u64)" by (simp add: mask_eq_exp_minus_1)
  then show ?thesis using bit_imp_le_length [of addr] by (auto intro!: bit_word_eqI simp: bit_simps)
qed

lemma take_bit_9_less: "take_bit 9 (x :: u64) < 512"
  using take_bit_nat_less_exp [of 9 "unat x"]
  by (simp add: word_less_nat_alt unsigned_take_bit_eq)

lemma offs_eq:
  "pml4_off (vmm_virt_to_offs v) = take_bit 9 (drop_bit 39 v)"
  "pdp_off (vmm_virt_to_offs v) = take_bit 9 (drop_bit 30 v)"
  "pd_off (vmm_virt_to_offs v) = take_bit 9 (drop_bit 21 v)"
  "pt_off (vmm_virt_to_offs v) = take_bit 9 (drop_bit 12 v)"
  unfolding vmm_virt_to_offs_def by (simp_all only: pt_off_t.select_convs offset_bits)

lemma user_bits: "user_addr v \<Longrightarrow> 47 \<le> n \<Longrightarrow> \<not> bit v n"
proof -
  assume u: "user_addr v" and n: "47 \<le> n"
  have "unat v < 2 ^ 47" using u by (simp add: user_addr_def word_less_nat_alt)
  also have "(2 :: nat) ^ 47 \<le> 2 ^ n" using n by (rule power_increasing) simp
  finally have "unat v div 2 ^ n = 0" by simp
  then have "\<not> bit (unat v) n" by (simp add: bit_iff_odd)
  then show ?thesis by (simp add: bit_unsigned_iff)
qed

lemma user_pml4_less: "user_addr v \<Longrightarrow> pml4_off (vmm_virt_to_offs v) < 256"
proof -
  assume u: "user_addr v"
  have "unat v < 2 ^ 47" using u by (simp add: user_addr_def word_less_nat_alt)
  then have "unat v div 2 ^ 39 < 256" by (simp add: less_mult_imp_div_less)
  then have "take_bit 9 (unat v div 2 ^ 39) < 256" by (metis take_bit_nat_less_eq_self le_less_trans)
  then show ?thesis unfolding offs_eq
    by (simp add: word_less_nat_alt unsigned_take_bit_eq unsigned_drop_bit_eq drop_bit_eq_div unat_div)
qed

lemma vleaf_less: "vleaf v < 512"
  by (simp add: vleaf_def offs_eq take_bit_9_less)

lemma vpath_ok: "user_addr v \<Longrightarrow> path_ok (vpath v)"
  using user_pml4_less [of v] by (simp add: path_ok_def vpath_def) (simp add: offs_eq take_bit_9_less)

lemma length_vpath [simp]: "length (vpath v) = 3"
  by (simp add: vpath_def)

lemma same_page_iff:
  assumes "user_addr v" "user_addr w"
  shows "vpath v = vpath w \<and> vleaf v = vleaf w \<longleftrightarrow> v div 4096 = w div 4096"
proof
  assume eq: "vpath v = vpath w \<and> vleaf v = vleaf w"
  have e: "bit v n = bit w n" if "12 \<le> n" for n
  proof -
    have t: "bit (take_bit 9 (drop_bit k v)) m = bit (take_bit 9 (drop_bit k w)) m" if "k \<in> {12, 21, 30, 39}" for k m
      using eq that by (auto simp: vpath_def vleaf_def offs_eq)
    consider "n < 21" | "21 \<le> n" "n < 30" | "30 \<le> n" "n < 39" | "39 \<le> n" "n < 48" | "48 \<le> n" by linarith
    then show ?thesis
    proof cases
      case 1 then show ?thesis using t [of 12 "n - 12"] that by (simp add: bit_simps less_diff_conv2)
    next
      case 2 then show ?thesis using t [of 21 "n - 21"] by (simp add: bit_simps less_diff_conv2)
    next
      case 3 then show ?thesis using t [of 30 "n - 30"] by (simp add: bit_simps less_diff_conv2)
    next
      case 4 then show ?thesis using t [of 39 "n - 39"] by (simp add: bit_simps less_diff_conv2)
    next
      case 5 then show ?thesis using user_bits assms by simp
    qed
  qed
  have "drop_bit 12 v = drop_bit 12 w" by (rule bit_word_eqI) (simp add: bit_simps e)
  then show "v div 4096 = w div 4096" by (simp add: drop_bit_eq_div)
next
  assume "v div 4096 = w div 4096"
  then have d: "drop_bit 12 v = drop_bit 12 w" by (simp add: drop_bit_eq_div)
  have "drop_bit (12 + k) v = drop_bit (12 + k) w" for k
    using arg_cong [OF d, of "drop_bit k"] by (simp add: drop_bit_drop_bit add.commute)
  from this [of 0] this [of 9] this [of 18] this [of 27]
  show "vpath v = vpath w \<and> vleaf v = vleaf w" by (simp add: vpath_def vleaf_def offs_eq)
qed

lemma vmm_walk_table_at:
  "vmm_walk s P offs = Inr (table_at s P [pml4_off offs, pdp_off offs, pd_off offs])"
  by (simp add: vmm_walk_def vmm_get_or_null_ent_def Let_def)

lemma user_addr_not_kernel: "user_addr v \<Longrightarrow> \<not> 0xFFFF800000000000 \<le> v \<and> \<not> 0xFFFFFFFF80000000 \<le> v"
  by (simp add: user_addr_def word_less_nat_alt word_le_nat_alt)

lemma vmm_get_entry_user: "user_addr v \<Longrightarrow> vmm_get_entry s P v = Inr (entry s P v)"
  using user_addr_not_kernel [of v]
  by (simp add: vmm_get_entry_def Let_def vmm_walk_table_at entry_def vpath_def vleaf_def split: option.split)

section \<open>One step of a walk that allocates\<close>

lemma pmm_alloc_1_cases:
  assumes "pmm_ok s"
  obtains (empty) "pmm_alloc s 1 = (0, s)" "pmm_free_set s = {}"
  | (found) p s1 where "pmm_alloc s 1 = (p, s1)" "p \<noteq> 0" "aligned p" "p < 2 ^ 44"
      "p div PAGE_SIZE \<in> pmm_free_set s" "pmm_used s1 = insert (p div PAGE_SIZE) (pmm_used s)"
      "phys_mem s1 = fill (phys_mem s) p 0 4096" "pmm_bitmap_len s1 = pmm_bitmap_len s"
      "kernel_pml4 s1 = kernel_pml4 s" "cr3 s1 = cr3 s"
  using assms
proof (cases rule: pmm_alloc_contract_cases [of s 1])
  case none
  then show thesis using empty by (force simp: pmm_free_set_def)
next
  case (some idx)
  note pa = page_addr [OF some(4)]
  show thesis
    by (rule found [OF some(1)])
      (use some pa in \<open>simp_all add: aligned_def pmm_free_set_def pmm_used_take PAGE_SIZE_def\<close>)
qed

lemma pmm_used_mem [simp]: "pmm_used (s\<lparr>phys_mem := m\<rparr>) = pmm_used s"
  by (simp add: pmm_used_def)

lemma table_write_frame [simp]:
  "pmm_used (table_write s t i v) = pmm_used s" "pmm_bitmap_len (table_write s t i v) = pmm_bitmap_len s"
  "kernel_pml4 (table_write s t i v) = kernel_pml4 s" "cr3 (table_write s t i v) = cr3 s"
  by (simp_all add: table_write_def)

text \<open>The fields a walk leaves alone, and the frames it may take.\<close>

definition grows :: "machine \<Rightarrow> machine \<Rightarrow> bool" where
  "grows s s' \<longleftrightarrow> pmm_used s \<subseteq> pmm_used s' \<and> pmm_bitmap_len s' = pmm_bitmap_len s \<and>
     kernel_pml4 s' = kernel_pml4 s \<and> cr3 s' = cr3 s"

lemma grows_refl [simp]: "grows s s"
  by (simp add: grows_def)

lemma grows_trans: "grows s t \<Longrightarrow> grows t u \<Longrightarrow> grows s u"
  by (auto simp: grows_def)

lemma grows_ok: "grows s s' \<Longrightarrow> pmm_ok s \<Longrightarrow> pmm_ok s'"
  by (simp add: grows_def pmm_ok_def)

lemma get_or_alloc_cases:
  assumes "pmm_ok s" "aligned t" "off < 512" "t div PAGE_SIZE \<in> pmm_used s"
    "vmm_get_or_alloc_ent s (Some t) off higher_perms = Inr (r, s')"
  obtains (oom) "r = None" "pmm_free_set s = {}" "grows s s'"
  | (present) "r = Some (table_read s t off AND VMM_ADDR_MASK)" "s' = s"
      "table_read s t off AND VMM_FLAG_PRESENT \<noteq> 0"
  | (fresh) x where "r = Some x" "hung s s' t off x" "grows s s'" "card (pmm_free_set s) \<le> Suc (card (pmm_free_set s'))"
proof (cases "table_read s t off AND VMM_FLAG_PRESENT = 0")
  case False
  then have "r = Some (table_read s t off AND VMM_ADDR_MASK)" "s' = s"
    using assms(5) by (auto simp: vmm_get_or_alloc_ent_def Let_def)
  then show thesis using False by (rule present)
next
  case True
  show thesis
  proof (cases rule: pmm_alloc_1_cases [OF assms(1)])
    case 1
    then have "r = None" "grows s s'"
      using True assms(5) by (auto simp: vmm_get_or_alloc_ent_def Let_def grows_def)
    then show thesis using 1(2) by (intro oom)
  next
    case (2 x s1)
    let ?s2 = "table_write s1 t off x"
    let ?s3 = "table_write ?s2 t off (x OR higher_perms OR VMM_FLAG_PRESENT)"
    let ?s4 = "?s3\<lparr>phys_mem := fill (phys_mem ?s3) x 0 4096\<rparr>"
    have "x OR (higher_perms OR VMM_FLAG_PRESENT) = x OR higher_perms OR VMM_FLAG_PRESENT" by (simp add: or.assoc)
    then have r: "r = Some x" "s' = ?s4"
      using True assms(5) 2 table_entry(2) [OF 2(3,4)]
      by (auto simp: vmm_get_or_alloc_ent_def Let_def memset_fill)
    have tx: "t \<noteq> x" using assms(4) 2(5) by (auto simp: pmm_free_set_def)
    have rd: "table_read s' u j = (if u = t \<and> j = off then x OR higher_perms OR VMM_FLAG_PRESENT else table_read s u j)"
      if u: "aligned u" "u \<noteq> x" "j < 512" for u j
    proof -
      have "table_read s' u j = table_read ?s3 u j"
        unfolding r table_read_def using read64_fill_other [OF u(1) 2(3) u(2,3)] by simp
      moreover have "table_read s1 u j = table_read s u j"
        unfolding table_read_def 2(7) by (rule read64_fill_other [OF u(1) 2(3) u(2,3)])
      ultimately show ?thesis
        using u assms(2,3) table_write_other [of t u off j] by (cases "u = t \<and> j = off") auto
    qed
    have "table_read s' x j = 0" if "j < 512" for j
      unfolding r table_read_def using read64_fill_zero [OF 2(3) that] by simp
    then have h: "hung s s' t off x"
      using 2 True rd tx assms(2,3) table_entry [OF 2(3,4)]
      by (auto simp: hung_def r pmm_free_set_def)
    have g: "grows s s'" using 2 by (auto simp: grows_def r)
    have "pmm_free_set s' = pmm_free_set s - {x div PAGE_SIZE}"
      using 2 by (auto simp: pmm_free_set_def r)
    then have "card (pmm_free_set s) \<le> Suc (card (pmm_free_set s'))"
      using 2(5) by (simp add: card_Diff_singleton)
    then show thesis using fresh [OF r(1) h g] by blast
  qed
qed

definition same_entries :: "machine \<Rightarrow> machine \<Rightarrow> u64 set \<Rightarrow> bool" where
  "same_entries s s' R \<longleftrightarrow> (\<forall>Q\<in>R. \<forall>v. user_addr v \<longrightarrow> entry s' Q v = entry s Q v)"

lemma same_entries_refl [simp]: "same_entries s s R"
  by (simp add: same_entries_def)

lemma same_entries_trans: "same_entries s t R \<Longrightarrow> same_entries t u R \<Longrightarrow> same_entries s u R"
  by (simp add: same_entries_def)

lemma hung_same_entries:
  assumes f: "forest s R" and P: "P \<in> R" and ok: "path_ok (p @ [off])" and t: "table_at s P p = Some t"
    and h: "hung s s' t off x"
  shows "same_entries s s' R"
  unfolding same_entries_def
proof (intro ballI allI impI)
  fix Q v assume Q: "Q \<in> R" and v: "user_addr v"
  note at = hung_table_at [OF f P ok t h Q vpath_ok [OF v]]
  show "entry s' Q v = entry s Q v"
  proof (cases "Q = P \<and> vpath v = p @ [off]")
    case True
    then have "table_at s Q (vpath v) = None" using t h by (simp add: table_at_snoc hung_def)
    moreover have "table_read s' x (vleaf v) = 0" using h vleaf_less by (simp add: hung_def)
    ultimately show ?thesis using at True by (simp add: entry_def)
  next
    case False
    then have at': "table_at s' Q (vpath v) = table_at s Q (vpath v)" using at by (simp only: if_False)
    show ?thesis
    proof (cases "table_at s Q (vpath v)")
      case None
      then show ?thesis using at' by (simp add: entry_def)
    next
      case (Some u)
      note pk = path_ok_snocD [OF ok]
      have "u \<noteq> t"
      proof
        assume "u = t"
        then have "vpath v = p" using forest_inj [OF f Q P vpath_ok [OF v] _ Some, of p] pk t by simp
        then show False using pk length_vpath [of v] by simp
      qed
      moreover have "aligned u" "u \<noteq> x"
        using forestD [OF f Q vpath_ok [OF v] Some] h by (auto simp: hung_def)
      ultimately have "table_read s' u (vleaf v) = table_read s u (vleaf v)"
        using h vleaf_less by (simp add: hung_def)
      then show ?thesis using Some at' by (simp add: entry_def)
    qed
  qed
qed

lemma walk_step:
  assumes f: "forest s R" and o: "pmm_ok s" and P: "P \<in> R" and ok: "path_ok (p @ [off])"
    and t: "table_at s P p = Some t" and g: "vmm_get_or_alloc_ent s (Some t) off higher_perms = Inr (r, s')"
  shows "r = None \<and> pmm_free_set s = {} \<or>
    (\<exists>u. r = Some u \<and> table_at s' P (p @ [off]) = Some u \<and> forest s' R \<and> grows s s' \<and> same_entries s s' R \<and>
         card (pmm_free_set s) \<le> Suc (card (pmm_free_set s')))"
proof -
  note pk = path_ok_snocD [OF ok]
  have al: "aligned t" "t div PAGE_SIZE \<in> pmm_used s" using forestD [OF f P _ t] pk by blast+
  have off: "off < 512" using pk by blast
  show ?thesis
  proof (cases rule: get_or_alloc_cases [OF o al(1) off al(2) g])
    case 1
    then show ?thesis by simp
  next
    case 2
    then show ?thesis using f t by (simp add: table_at_snoc)
  next
    case (3 x)
    then show ?thesis
      using hung_forest [OF f P ok t 3(2)] hung_same_entries [OF f P ok t 3(2)]
        hung_table_at [OF f P ok t 3(2) P ok] by simp
  qed
qed

lemma get_or_alloc_Some: "\<exists>r s'. vmm_get_or_alloc_ent s (Some t) off fl = Inr (r, s')"
  by (auto simp: vmm_get_or_alloc_ent_def Let_def split: prod.splits)

lemma get_or_alloc_None [simp]: "vmm_get_or_alloc_ent s None off fl = Inl NullDeref"
  by (simp add: vmm_get_or_alloc_ent_def)

lemma leaf_table_at:
  assumes f: "forest s R" and P: "P \<in> R" and p: "path_ok p" "length p = 3" and t: "table_at s P p = Some t"
    and d: "d < 512" and Q: "Q \<in> R" and q: "path_ok q"
  shows "table_at (table_write s t d v) Q q = table_at s Q q"
  using q
proof (induction q rule: rev_induct)
  case Nil
  then show ?case by simp
next
  case (snoc i q)
  note qi = path_ok_snocD [OF snoc.prems]
  have IH: "table_at (table_write s t d v) Q q = table_at s Q q" using snoc.IH qi by blast
  show ?case
  proof (cases "table_at s Q q")
    case None
    then show ?thesis using IH by (simp add: table_at_snoc)
  next
    case (Some u)
    have "u \<noteq> t"
    proof
      assume "u = t"
      then have "q = p" using forest_inj [OF f Q P _ p(1) Some] qi t by simp
      then show False using qi p(2) by simp
    qed
    then have "table_read (table_write s t d v) u i = table_read s u i"
      using forestD [OF f Q _ Some] forestD [OF f P p(1) t] qi d by (intro table_write_other) auto
    then show ?thesis using Some IH by (simp add: table_at_snoc)
  qed
qed

lemma leaf_write:
  fixes e :: u64
  assumes f: "forest s R" and P: "P \<in> R" and v: "user_addr virt" and t: "table_at s P (vpath virt) = Some t"
  defines "s' \<equiv> table_write s t (vleaf virt) e"
  shows "forest s' R"
    "\<forall>Q\<in>R. \<forall>w. user_addr w \<longrightarrow> entry s' Q w = (if Q = P \<and> w div 4096 = virt div 4096 then e else entry s Q w)"
proof -
  have at: "table_at s' Q q = table_at s Q q" if "Q \<in> R" "path_ok q" for Q q
    unfolding s'_def by (rule leaf_table_at [OF f P vpath_ok [OF v] length_vpath t vleaf_less that])
  have u: "pmm_used s' = pmm_used s" by (simp add: s'_def)
  have a: "aligned t" using forestD [OF f P vpath_ok [OF v] t] by simp
  show "forest s' R" using f at unfolding forest_def u by simp
  show "\<forall>Q\<in>R. \<forall>w. user_addr w \<longrightarrow> entry s' Q w = (if Q = P \<and> w div 4096 = virt div 4096 then e else entry s Q w)"
  proof (intro ballI allI impI)
    fix Q w assume Q: "Q \<in> R" and w: "user_addr w"
    note aw = at [OF Q vpath_ok [OF w]]
    show "entry s' Q w = (if Q = P \<and> w div 4096 = virt div 4096 then e else entry s Q w)"
    proof (cases "Q = P \<and> w div 4096 = virt div 4096")
      case True
      then have "vpath w = vpath virt" "vleaf w = vleaf virt" using same_page_iff [OF w v] by blast+
      then show ?thesis using True aw t by (simp add: entry_def s'_def)
    next
      case F: False
      have "entry s' Q w = entry s Q w"
      proof (cases "table_at s Q (vpath w)")
        case None
        then show ?thesis using aw by (simp add: entry_def)
      next
        case (Some u)
        have "u \<noteq> t \<or> vleaf w \<noteq> vleaf virt"
          using forest_inj [OF f Q P vpath_ok [OF w] vpath_ok [OF v] Some] t F same_page_iff [OF w v] by auto
        then have "table_read s' u (vleaf w) = table_read s u (vleaf w)"
          using a forestD [OF f Q vpath_ok [OF w] Some] vleaf_less unfolding s'_def
          by (intro table_write_other) auto
        then show ?thesis using aw Some by (simp add: entry_def)
      qed
      then show ?thesis by (simp only: F if_False)
    qed
  qed
qed

lemma vmm_map_page_eq:
  "vmm_map_page s P virt phys perms =
     and_then (vmm_get_or_alloc_ent s (Some P) (vpath virt ! 0) higher_perms) (\<lambda>(pdp, s).
     and_then (vmm_get_or_alloc_ent s pdp (vpath virt ! 1) higher_perms) (\<lambda>(pd, s).
     and_then (vmm_get_or_alloc_ent s pd (vpath virt ! 2) higher_perms) (\<lambda>(pt, s).
       set_ent s pt (vleaf virt) (phys OR perms OR VMM_FLAG_PRESENT))))"
  by (simp add: vmm_map_page_def Let_def vpath_def vleaf_def)

lemma walk_cases:
  assumes "forest s R" "pmm_ok s" "P \<in> R" "path_ok (p @ [i])" "table_at s P p = Some t"
  obtains (n) s' where "vmm_get_or_alloc_ent s (Some t) i higher_perms = Inr (None, s')" "pmm_free_set s = {}"
  | (y) t' s' where "vmm_get_or_alloc_ent s (Some t) i higher_perms = Inr (Some t', s')" "table_at s' P (p @ [i]) = Some t'"
      "forest s' R" "pmm_ok s'" "grows s s'" "same_entries s s' R" "card (pmm_free_set s) \<le> Suc (card (pmm_free_set s'))"
proof -
  obtain r s' where g: "vmm_get_or_alloc_ent s (Some t) i higher_perms = Inr (r, s')"
    using get_or_alloc_Some by blast
  show thesis
    using walk_step [OF assms(1-5) g] g n y grows_ok [OF _ assms(2)] by blast
qed

lemma vmm_map_page_spec:
  assumes f: "forest s R" and o: "pmm_ok s" and P: "P \<in> R" and v: "user_addr virt"
  shows "vmm_map_page s P virt phys perms = Inl NullDeref \<and> card (pmm_free_set s) < 3 \<or>
    (\<exists>s'. vmm_map_page s P virt phys perms = Inr s' \<and> forest s' R \<and> grows s s' \<and>
       card (pmm_free_set s) \<le> 3 + card (pmm_free_set s') \<and>
       (\<forall>Q\<in>R. \<forall>w. user_addr w \<longrightarrow> entry s' Q w =
          (if Q = P \<and> w div 4096 = virt div 4096 then phys OR perms OR VMM_FLAG_PRESENT else entry s Q w)))"
proof -
  let ?a = "vpath virt ! 0" and ?b = "vpath virt ! 1" and ?c = "vpath virt ! 2"
  have vp: "vpath virt = [?a, ?b, ?c]" by (simp add: vpath_def)
  have ok: "path_ok ([] @ [?a])" "path_ok ([?a] @ [?b])" "path_ok ([?a, ?b] @ [?c])"
    using vpath_ok [OF v] by (subst (asm) vp, simp add: path_ok_def)+
  have root: "table_at s P [] = Some P" by simp
  show ?thesis
  proof (cases rule: walk_cases [OF f o P ok(1) root])
    case 1
    then show ?thesis by (simp add: vmm_map_page_eq)
  next
    case y1: (2 t1 s1)
    have t1: "table_at s1 P [?a] = Some t1" using y1(2) by simp
    show ?thesis
    proof (cases rule: walk_cases [OF y1(3,4) P ok(2) t1])
      case 1
      then show ?thesis using y1 by (simp add: vmm_map_page_eq)
    next
      case y2: (2 t2 s2)
      have t2: "table_at s2 P [?a, ?b] = Some t2" using y2(2) by simp
      show ?thesis
      proof (cases rule: walk_cases [OF y2(3,4) P ok(3) t2])
        case 1
        then show ?thesis using y1 y2 by (simp add: vmm_map_page_eq set_ent_def)
      next
        case y3: (2 t3 s3)
        let ?e = "phys OR perms OR VMM_FLAG_PRESENT" let ?s = "table_write s3 t3 (vleaf virt) ?e"
        have m: "vmm_map_page s P virt phys perms = Inr ?s"
          using y1(1) y2(1) y3(1) by (simp add: vmm_map_page_eq set_ent_def)
        note lw = leaf_write [OF y3(3) P v, of t3 ?e]
        have t3: "table_at s3 P (vpath virt) = Some t3" using y3(2) by (subst vp) simp
        have se: "same_entries s s3 R" using y1(6) y2(6) y3(6) by (meson same_entries_trans)
        have gr: "grows s ?s" using grows_trans [OF y1(5) grows_trans [OF y2(5) y3(5)]] by (simp add: grows_def)
        have "pmm_free_set ?s = pmm_free_set s3" by (simp add: pmm_free_set_def)
        then have "card (pmm_free_set s) \<le> 3 + card (pmm_free_set ?s)" using y1(7) y2(7) y3(7) by simp
        then show ?thesis using m lw(1) [OF t3] lw(2) [OF t3] gr se unfolding same_entries_def by simp
      qed
    qed
  qed
qed

section \<open>Mapping and unmapping ranges\<close>

text \<open>\<open>k\<close> pages above a page-aligned user address.\<close>

lemma page_step:
  assumes "unat virt mod 4096 = 0" "unat virt + Suc n * 4096 \<le> 2 ^ 47"
  shows "unat (virt + 0x1000) = unat virt + 4096" "user_addr virt"
proof -
  show "unat (virt + 0x1000) = unat virt + 4096" using assms(2) unat_add_less [of virt "0x1000"] by simp
  show "user_addr virt" using assms(2) by (simp add: user_addr_def word_less_nat_alt)
qed

definition pages_from :: "u64 \<Rightarrow> nat \<Rightarrow> u64 \<Rightarrow> bool" where
  "pages_from virt n w \<longleftrightarrow> unat virt div 4096 \<le> unat w div 4096 \<and> unat w div 4096 < unat virt div 4096 + n"

lemma page_eq_iff: "(w :: u64) div 4096 = v div 4096 \<longleftrightarrow> unat w div 4096 = unat v div 4096"
  by (simp add: word_unat_eq_iff unat_div)

lemma pages_from_Suc:
  assumes "unat virt mod 4096 = 0" "unat virt + Suc n * 4096 \<le> 2 ^ 47"
  shows "pages_from virt (Suc n) w \<longleftrightarrow> w div 4096 = virt div 4096 \<or> pages_from (virt + 0x1000) n w"
proof -
  have "w div 4096 = virt div 4096 \<longleftrightarrow> unat w div 4096 = unat virt div 4096"
    by (simp add: word_unat_eq_iff unat_div)
  moreover have "unat (virt + 0x1000) div 4096 = unat virt div 4096 + 1"
    using page_step(1) [OF assms] by simp
  ultimately show ?thesis by (auto simp: pages_from_def)
qed

text \<open>The value of the entry of \<open>w\<close> when the \<open>n\<close> pages at \<open>virt\<close> are mapped to the frames at \<open>phys\<close>, \<open>e\<close> being its value before.\<close>

definition range_entry :: "u64 \<Rightarrow> u64 \<Rightarrow> nat \<Rightarrow> u64 \<Rightarrow> u64 \<Rightarrow> u64 \<Rightarrow> u64" where
  "range_entry virt phys n perms w e =
     (if pages_from virt n w
      then (phys + of_nat (unat w div 4096 - unat virt div 4096) * 0x1000) OR perms OR VMM_FLAG_PRESENT else e)"

lemma range_entry_Suc:
  assumes "unat virt mod 4096 = 0" "unat virt + Suc n * 4096 \<le> 2 ^ 47"
  shows "range_entry virt phys (Suc n) perms w e = range_entry (virt + 0x1000) (phys + 0x1000) n perms w
    (if w div 4096 = virt div 4096 then phys OR perms OR VMM_FLAG_PRESENT else e)"
proof (cases "pages_from (virt + 0x1000) n w")
  case True
  have "unat (virt + 0x1000) div 4096 = Suc (unat virt div 4096)" using page_step(1) [OF assms] by simp
  then have "unat w div 4096 - unat virt div 4096 = Suc (unat w div 4096 - unat (virt + 0x1000) div 4096)"
    using True unfolding pages_from_def by arith
  then show ?thesis using True pages_from_Suc [OF assms] by (simp add: range_entry_def algebra_simps)
next
  case False
  then show ?thesis using pages_from_Suc [OF assms] by (simp add: range_entry_def page_eq_iff)
qed

lemma vmm_map_pages_range:
  assumes "forest s R" "pmm_ok s" "P \<in> R" "unat virt mod 4096 = 0" "unat virt + n * 4096 \<le> 2 ^ 47"
  shows "vmm_map_pages s P virt phys n perms = Inl NullDeref \<and> card (pmm_free_set s) < 3 * n \<or>
    (\<exists>s'. vmm_map_pages s P virt phys n perms = Inr s' \<and> forest s' R \<and> grows s s' \<and>
       (\<forall>Q\<in>R. \<forall>w. user_addr w \<longrightarrow> entry s' Q w =
          (if Q = P then range_entry virt phys n perms w (entry s Q w) else entry s Q w)))"
  using assms
proof (induction n arbitrary: s virt phys)
  case 0
  then show ?case by (auto simp: pages_from_def range_entry_def)
next
  case (Suc n)
  note st = page_step [OF Suc.prems(4,5)]
  have al: "unat (virt + 0x1000) mod 4096 = 0" "unat (virt + 0x1000) + n * 4096 \<le> 2 ^ 47"
    using Suc.prems(4,5) st(1) by simp_all
  from vmm_map_page_spec [OF Suc.prems(1-3) st(2), of phys perms]
  consider (n) "vmm_map_page s P virt phys perms = Inl NullDeref" "card (pmm_free_set s) < 3"
    | (y) s1 where "vmm_map_page s P virt phys perms = Inr s1" "forest s1 R" "grows s s1"
       "card (pmm_free_set s) \<le> 3 + card (pmm_free_set s1)"
       "\<forall>Q\<in>R. \<forall>w. user_addr w \<longrightarrow> entry s1 Q w =
          (if Q = P \<and> w div 4096 = virt div 4096 then phys OR perms OR VMM_FLAG_PRESENT else entry s Q w)"
    by blast
  then show ?case
  proof cases
    case n
    then show ?thesis by simp
  next
    case y
    from Suc.IH [OF y(2) grows_ok [OF y(3) Suc.prems(2)] Suc.prems(3) al, of "phys + 0x1000"] show ?thesis
    proof (elim disjE conjE exE)
      fix s'
      assume "vmm_map_pages s1 P (virt + 0x1000) (phys + 0x1000) n perms = Inr s'" "forest s' R" "grows s1 s'"
        "\<forall>Q\<in>R. \<forall>w. user_addr w \<longrightarrow> entry s' Q w = (if Q = P
           then range_entry (virt + 0x1000) (phys + 0x1000) n perms w (entry s1 Q w) else entry s1 Q w)"
      then show ?thesis using y(1,5) grows_trans [OF y(3)] range_entry_Suc [OF Suc.prems(4,5)] by simp
    qed (use y in simp)
  qed
qed

lemma vmm_map_pages_spec:
  assumes "forest s R" "pmm_ok s" "P \<in> R" "unat virt mod 4096 = 0" "unat virt + n * 4096 \<le> 2 ^ 47"
  shows "vmm_map_pages s P virt phys n perms = Inl NullDeref \<and> card (pmm_free_set s) < 3 * n \<or>
    (\<exists>s'. vmm_map_pages s P virt phys n perms = Inr s' \<and> forest s' R \<and> grows s s' \<and>
       (\<forall>Q\<in>R. \<forall>w. user_addr w \<longrightarrow> entry s' Q w =
          (if Q = P \<and> pages_from virt n w
           then (phys + of_nat (unat w div 4096 - unat virt div 4096) * 0x1000) OR perms OR VMM_FLAG_PRESENT
           else entry s Q w)))"
  using vmm_map_pages_range [OF assms, of phys perms]
  by (auto simp: range_entry_def)

lemma user_addr_num: "user_addr v \<longleftrightarrow> v < 0x800000000000"
  by (simp add: user_addr_def)

lemma vmm_get_entry_num: "v < 0x800000000000 \<Longrightarrow> vmm_get_entry s P v = Inr (entry s P v)"
  by (rule vmm_get_entry_user) (simp add: user_addr_num)

lemmas user_num = user_addr_num vmm_get_entry_num

text \<open>C3. After a successful \<open>vmm_map_pages\<close> every page of the range translates to its frame with the requested
  flags, and no other translation changes, neither in this address space nor in any other whose tables are
  kept apart. It can only fail when the frame allocator has fewer than three free frames per page left.\<close>

theorem vmm_map_pages_isolated:
  assumes "forest s R" "pmm_ok s" "P \<in> R" "unat virt mod 4096 = 0" "unat virt + n * 4096 \<le> 2 ^ 47"
    "3 * n \<le> card (pmm_free_set s)"
  shows "\<exists>s'. vmm_map_pages s P virt phys n perms = Inr s' \<and> forest s' R \<and> pmm_used s \<subseteq> pmm_used s' \<and>
    (\<forall>Q\<in>R. \<forall>w. w < 2 ^ 47 \<longrightarrow>
       (if Q = P \<and> pages_from virt n w
        then vmm_get_entry s' Q w =
          Inr ((phys + of_nat (unat w div 4096 - unat virt div 4096) * 0x1000) OR perms OR VMM_FLAG_PRESENT)
        else vmm_get_entry s' Q w = vmm_get_entry s Q w))"
proof -
  obtain s' where s': "vmm_map_pages s P virt phys n perms = Inr s'" "forest s' R" "grows s s'"
    "\<forall>Q\<in>R. \<forall>w. user_addr w \<longrightarrow> entry s' Q w =
          (if Q = P \<and> pages_from virt n w
           then (phys + of_nat (unat w div 4096 - unat virt div 4096) * 0x1000) OR perms OR VMM_FLAG_PRESENT
           else entry s Q w)"
    using vmm_map_pages_spec [OF assms(1-5), of phys perms] assms(6) by fastforce
  then show ?thesis
    by (auto simp: grows_def user_num)
qed

section \<open>Unmapping\<close>

lemma vmm_walk_vpath: "vmm_walk s P (vmm_virt_to_offs v) = Inr (table_at s P (vpath v))"
  by (simp only: vmm_walk_table_at vpath_def)

lemma vmm_unmap_1:
  "vmm_unmap_pages s P virt 1 =
     (case table_at s P (vpath virt) of
        None \<Rightarrow> Inr (False, s) | Some t \<Rightarrow> Inr (True, table_write s t (vleaf virt) 0))"
  by (simp add: vmm_walk_vpath Let_def set_ent_def vleaf_def split: option.split)

lemma vmm_unmap_1_spec:
  assumes "forest s R" "P \<in> R" "user_addr virt"
  shows "\<exists>b s'. vmm_unmap_pages s P virt 1 = Inr (b, s') \<and> forest s' R \<and>
    (\<forall>Q\<in>R. \<forall>w. user_addr w \<longrightarrow> entry s' Q w =
       (if Q = P \<and> w div 4096 = virt div 4096 then 0 else entry s Q w))"
proof (cases "table_at s P (vpath virt)")
  case None
  have "entry s P w = 0" if "user_addr w" "w div 4096 = virt div 4096" for w
    using same_page_iff [OF that(1) assms(3)] that None by (simp add: entry_def)
  then show ?thesis
    unfolding vmm_unmap_1 using None assms(1) by auto
next
  case (Some t)
  then show ?thesis
    unfolding vmm_unmap_1 using leaf_write [OF assms(1-3) Some, of 0] by auto
qed

text \<open>C16. Mapping a page and unmapping it again leaves it without an entry and every other translation of every
  address space as it was.\<close>

theorem vmm_map_unmap_roundtrip:
  assumes "forest s R" "pmm_ok s" "P \<in> R" "virt < 2 ^ 47" "vmm_map_page s P virt phys perms = Inr s1"
    "vmm_unmap_pages s1 P virt 1 = Inr (b, s2)"
  shows "vmm_get_entry s1 P virt = Inr (phys OR perms OR VMM_FLAG_PRESENT) \<and>
    forest s2 R \<and> vmm_get_entry s2 P virt = Inr 0 \<and>
    (\<forall>Q\<in>R. \<forall>w. w < 2 ^ 47 \<and> (Q \<noteq> P \<or> w div 4096 \<noteq> virt div 4096) \<longrightarrow>
       vmm_get_entry s2 Q w = vmm_get_entry s Q w)"
proof -
  have u: "user_addr virt" using assms(4) by (simp add: user_addr_def)
  have m: "forest s1 R" "\<forall>Q\<in>R. \<forall>w. user_addr w \<longrightarrow> entry s1 Q w =
      (if Q = P \<and> w div 4096 = virt div 4096 then phys OR perms OR VMM_FLAG_PRESENT else entry s Q w)"
    using vmm_map_page_spec [OF assms(1-3) u, of phys perms] assms(5) by auto
  have n: "forest s2 R" "\<forall>Q\<in>R. \<forall>w. user_addr w \<longrightarrow> entry s2 Q w =
      (if Q = P \<and> w div 4096 = virt div 4096 then 0 else entry s1 Q w)"
    using vmm_unmap_1_spec [OF m(1) assms(3) u] assms(6) by auto
  show ?thesis
    using m n assms(3) u by (auto simp: user_num)
qed

section \<open>New address spaces\<close>

lemma memcpy_outside: "\<not> x - d < n \<Longrightarrow> memcpy m d sr n x = m x"
proof -
  assume x: "\<not> x - d < n"
  have "fold (\<lambda>i m. m(d + of_nat i := m (sr + of_nat i))) [0..<k] m x = m x" if "k \<le> unat n" for k
    using that
  proof (induction k)
    case (Suc k)
    have "x \<noteq> d + of_nat k"
    proof
      assume "x = d + of_nat k"
      then have "x - d = of_nat k" by simp
      moreover have "(of_nat k :: u64) < n"
        using Suc.prems unat_u64_less [of n] by (simp add: word_less_nat_alt unat_of_nat)
      ultimately show False using x by simp
    qed
    then show ?case using Suc by simp
  qed simp
  then show ?thesis by (simp add: memcpy_def)
qed

lemma lower_half_outside:
  assumes "aligned x" "i < 256" "k < 8"
  shows "\<not> x + i * 8 + of_nat k - (x + 2048) < 2048"
proof -
  have i: "unat i < 256" "i < 512" using assms(2) by (simp_all add: word_less_nat_alt)
  have b: "unat (x + i * 8 + of_nat k) = unat x + unat i * 8 + k"
    by (rule unat_cell_byte [OF assms(1) i(2) assms(3)])
  have c: "unat (x + 2048) = unat x + 2048"
    using aligned_bound [OF assms(1)] unat_add_less [of x 2048] by simp
  have "unat (x + i * 8 + of_nat k - (x + 2048)) = unat x + unat i * 8 + k + 2 ^ 64 - (unat x + 2048)"
    unfolding unat_diff_cases b c using i assms(3) by simp
  also have "\<dots> = 2 ^ 64 + unat i * 8 + k - 2048" by simp
  finally show ?thesis by (simp add: word_less_nat_alt)
qed

lemma upper_half_inside:
  assumes "\<not> y - x < 4096"
  shows "\<not> y - (x + 2048) < (2048 :: u64)"
proof
  assume d: "y - (x + 2048) < 2048"
  then have "unat (y - (x + 2048) + 2048) = unat (y - (x + 2048)) + 2048"
    using unat_add_less [of "y - (x + 2048)" 2048] by (simp add: word_less_nat_alt)
  moreover have "y - (x + 2048) + 2048 = y - x" by simp
  ultimately have "y - x < 4096" using d by (simp add: word_less_nat_alt)
  then show False using assms by simp
qed

text \<open>A frame that is cleared and whose upper half is then copied from another table: its lower half is empty and every other table
  is as before.\<close>

definition new_root :: "mem \<Rightarrow> u64 \<Rightarrow> u64 \<Rightarrow> mem" where
  "new_root m x k = memcpy (fill m x 0 4096) (x + 2048) (k + 2048) 2048"

lemma new_root_other:
  assumes "aligned x" "aligned u" "u \<noteq> x" "j < 512"
  shows "read64 (new_root m x k) (u + j * 8) = read64 m (u + j * 8)"
proof -
  have j: "unat j < 512" using assms(4) by (simp add: word_less_nat_alt)
  have "new_root m x k (u + j * 8 + of_nat i) = fill m x 0 4096 (u + j * 8 + of_nat i)" if i: "i < 8" for i :: nat
    unfolding new_root_def
  proof (rule memcpy_outside)
    have pg: "unat (u + j * 8 + of_nat i) div 4096 = unat u div 4096"
      using unat_cell_byte [OF assms(2,4) i] j i aligned_obtain [OF assms(2)] by (metis page_of_cell)
    have "unat u div 4096 \<noteq> unat x div 4096"
      using assms(1-3) unfolding aligned_def by (metis div_mult_mod_eq word_unat_eq_iff)
    then have "\<not> u + j * 8 + of_nat i - x < 4096" using pg by (simp add: in_page_iff [OF assms(1)])
    then show "\<not> u + j * 8 + of_nat i - (x + 2048) < 2048" by (rule upper_half_inside)
  qed
  then have "read64 (new_root m x k) (u + j * 8) = read64 (fill m x 0 4096) (u + j * 8)" by (intro read64_cong) simp
  then show ?thesis using read64_fill_other [OF assms(2,1,3,4)] by simp
qed

lemma new_root_empty:
  assumes "aligned x" "i < 256"
  shows "read64 (new_root m x k) (x + i * 8) = 0"
proof -
  have i': "i < 512" using assms(2) by (rule less_trans) simp
  have "read64 (new_root m x k) (x + i * 8) = read64 (fill m x 0 4096) (x + i * 8)"
    unfolding new_root_def using memcpy_outside [OF lower_half_outside [OF assms]] by (intro read64_cong) simp
  then show ?thesis using read64_fill_zero [OF assms(1) i'] by simp
qed

text \<open>A forest gains an empty root in a frame that was not in use.\<close>

lemma table_at_kept:
  assumes "forest s R" "x div PAGE_SIZE \<notin> pmm_used s" "Q \<in> R" "path_ok q"
    "\<forall>u j. aligned u \<and> u \<noteq> x \<and> j < 512 \<longrightarrow> table_read s' u j = table_read s u j"
  shows "table_at s' Q q = table_at s Q q"
  using assms(4)
proof (induction q rule: rev_induct)
  case (snoc i q)
  note qi = path_ok_snocD [OF snoc.prems]
  have IH: "table_at s' Q q = table_at s Q q" using snoc.IH qi by blast
  show ?case
  proof (cases "table_at s Q q")
    case (Some u)
    then have "aligned u" "u \<noteq> x" using forestD [OF assms(1,3) _ Some] qi assms(2) by auto
    then show ?thesis using assms(5) qi IH Some by (simp add: table_at_snoc)
  qed (simp add: table_at_snoc IH)
qed simp

lemma forest_add_root:
  assumes "forest s R" "x div PAGE_SIZE \<notin> pmm_used s" "aligned x" "pmm_used s' = insert (x div PAGE_SIZE) (pmm_used s)"
    "\<forall>u j. aligned u \<and> u \<noteq> x \<and> j < 512 \<longrightarrow> table_read s' u j = table_read s u j" "\<forall>i<256. table_read s' x i = 0"
  shows "x \<notin> R" "forest s' (insert x R)" "user_addr w \<Longrightarrow> entry s' x w = 0"
    "Q \<in> R \<Longrightarrow> user_addr w \<Longrightarrow> entry s' Q w = entry s Q w"
proof -
  note at = table_at_kept [OF assms(1,2) _ _ assms(5)]
  have atx: "table_at s' x q = (if q = [] then Some x else None)" if "path_ok q" for q
    using that assms(6) by (cases q) (auto simp: path_ok_def)
  show xR: "x \<notin> R" using forestD(2) [OF assms(1), of x "[]" x] assms(2) by auto
  have old: "u \<noteq> x" if "Q \<in> R" "path_ok q" "table_at s Q q = Some u" for Q q u
    using forestD [OF assms(1) that] assms(2) by auto
  show "forest s' (insert x R)"
    unfolding forest_def
  proof (intro conjI ballI allI impI)
    fix P p t
    assume "P \<in> insert x R" "path_ok p" "table_at s' P p = Some t"
    then show "aligned t" "t div PAGE_SIZE \<in> pmm_used s'"
      using at atx assms(3,4) forestD [OF assms(1)] by (auto split: if_splits)
  next
    fix P Q p q t
    assume a: "P \<in> insert x R" "Q \<in> insert x R" "path_ok p" "path_ok q"
      "table_at s' P p = Some t" "table_at s' Q q = Some t"
    then show "P = Q" "p = q"
      using at atx old forest_inj [OF assms(1)] xR by (auto split: if_splits) metis+
  qed
  show "entry s' x w = 0" if "user_addr w" for w
    using atx [OF vpath_ok [OF that]] by (simp add: entry_def vpath_def)
  show "entry s' Q w = entry s Q w" if "Q \<in> R" "user_addr w" for Q w
    using at [OF that(1) vpath_ok [OF that(2)]] forestD [OF assms(1) that(1) vpath_ok [OF that(2)]]
      old [OF that(1) vpath_ok [OF that(2)]] assms(5) vleaf_less by (auto simp: entry_def split: option.split)
qed

text \<open>C17. A new address space made after the kernel's own exists has an empty user half, its table is a frame
  that was free, and no translation of an existing address space changes.\<close>

theorem vmm_new_address_space_empty:
  assumes "forest s R" "pmm_ok s" "kernel_pml4 s \<noteq> 0" "pmm_free_set s \<noteq> {}"
  shows "\<exists>P s'. vmm_new_address_space ehdr s = Inr (P, s') \<and> P \<notin> R \<and> P div PAGE_SIZE \<notin> pmm_used s \<and>
    forest s' (insert P R) \<and>
    (\<forall>w. w < 2 ^ 47 \<longrightarrow> vmm_get_entry s' P w = Inr 0) \<and>
    (\<forall>Q\<in>R. \<forall>w. w < 2 ^ 47 \<longrightarrow> vmm_get_entry s' Q w = vmm_get_entry s Q w)"
proof (cases rule: pmm_alloc_1_cases [OF assms(2)])
  case 1
  then show ?thesis using assms(4) by simp
next
  case (2 x s1)
  define s' where "s' = s1\<lparr>phys_mem := new_root (phys_mem s1) x (kernel_pml4 s)\<rparr>"
  have new: "vmm_new_address_space ehdr s = Inr (x, s')"
    using 2 assms(3) by (simp add: vmm_new_address_space_def Let_def memset_fill s'_def new_root_def)
  have used: "pmm_used s' = insert (x div PAGE_SIZE) (pmm_used s)" using 2 by (simp add: s'_def)
  have fresh: "x div PAGE_SIZE \<notin> pmm_used s" using 2(5) by (simp add: pmm_free_set_def)
  have rd: "\<forall>u j. aligned u \<and> u \<noteq> x \<and> j < 512 \<longrightarrow> table_read s' u j = table_read s u j"
    using new_root_other [OF 2(3)] read64_fill_other [OF _ 2(3)] 2(7) by (simp add: table_read_def s'_def)
  have zero: "\<forall>i<256. table_read s' x i = 0" using new_root_empty [OF 2(3)] by (simp add: table_read_def s'_def)
  show ?thesis using new fresh forest_add_root [OF assms(1) fresh 2(3) used rd zero] by (auto simp: user_num)
qed

section \<open>The contract of the address spaces\<close>

lemma pmm_alloc_grows: "pmm_alloc s n = (p, s1) \<Longrightarrow> grows s s1"
  by (cases rule: pmm_alloc_cases [of s n]) (auto simp: grows_def pmm_used_take)

lemma grows_mem [simp]: "grows s (s'\<lparr>phys_mem := m\<rparr>) = grows s s'"
  by (simp add: grows_def)

lemma grows_write [simp]: "grows s (table_write s' t i v) = grows s s'"
  by (simp add: grows_def)

lemma get_or_alloc_grows: "vmm_get_or_alloc_ent s t off fl = Inr (r, s') \<Longrightarrow> grows s s'"
  by (auto simp: vmm_get_or_alloc_ent_def Let_def dest: pmm_alloc_grows
      split: option.splits if_splits prod.splits)

lemma set_ent_grows: "set_ent s t off v = Inr s' \<Longrightarrow> grows s s'"
  by (auto simp: set_ent_def split: option.splits)

lemma vmm_map_page_grows: "vmm_map_page s P virt phys perms = Inr s' \<Longrightarrow> grows s s'"
  by (auto simp: vmm_map_page_def Let_def and_then_Inr_iff dest!: get_or_alloc_grows set_ent_grows
      intro: grows_trans)

lemma vmm_map_pages_grows: "vmm_map_pages s P virt phys n perms = Inr s' \<Longrightarrow> grows s s'"
  by (induction n arbitrary: s virt phys)
     (auto simp: and_then_Inr_iff dest: vmm_map_page_grows intro: grows_trans)

text \<open>Unmapping never fails and takes and returns no frame.\<close>

definition keeps :: "machine \<Rightarrow> machine \<Rightarrow> bool" where
  "keeps s s' \<longleftrightarrow> grows s s' \<and> pmm_used s' = pmm_used s"

lemma keeps_refl [simp]: "keeps s s"
  by (simp add: keeps_def)

lemma keeps_trans: "keeps s t \<Longrightarrow> keeps t u \<Longrightarrow> keeps s u"
  by (auto simp: keeps_def intro: grows_trans)

lemma keeps_write: "keeps s (table_write s t i v)"
  by (simp add: keeps_def)

lemma vmm_unmap_pages_keeps: "\<exists>b s'. vmm_unmap_pages s P virt n = Inr (b, s') \<and> keeps s s'"
proof (induction n arbitrary: s virt)
  case 0
  then show ?case by auto
next
  case (Suc n)
  show ?case
  proof (cases "table_at s P (vpath virt)")
    case None
    then show ?thesis by (auto simp: Let_def vmm_walk_vpath)
  next
    case (Some t)
    let ?s = "table_write s t (pt_off (vmm_virt_to_offs virt)) 0"
    obtain b s' where "vmm_unmap_pages ?s P (virt + 0x1000) n = Inr (b, s')" "keeps ?s s'"
      using Suc.IH by blast
    then show ?thesis
      using Some keeps_trans [OF keeps_write] by (simp add: Let_def vmm_walk_vpath set_ent_def)
  qed
qed

lemma vmm_unmap_pages_grows: "vmm_unmap_pages s P virt n = Inr (b, s') \<Longrightarrow> grows s s'"
  using vmm_unmap_pages_keeps [of s P virt n] by (auto simp: keeps_def)

lemma window_map_grows: "window_map s m i virt n = Inr s' \<Longrightarrow> grows s s'"
  by (induction n arbitrary: s i virt)
     (auto simp: and_then_Inr_iff dest: vmm_map_page_grows intro: grows_trans split: if_splits)

lemma window_unmap_grows: "window_unmap s virt n = Inr s' \<Longrightarrow> grows s s'"
proof (induction n arbitrary: s virt)
  case (Suc n)
  then obtain b s1 where "vmm_unmap_pages s (kernel_pml4 s) virt 1 = Inr (b, s1)"
    "window_unmap s1 (virt + 0x1000) n = Inr s'"
    by (auto simp: and_then_Inr_iff simp del: vmm_unmap_pages.simps)
  then show ?case using Suc.IH vmm_unmap_pages_grows grows_trans by blast
qed simp

lemma virt_memcpy_grows: "virt_memcpy s d x n = Inr s' \<Longrightarrow> grows s s'"
proof (induction n arbitrary: s d x)
  case (Suc n)
  then obtain a b where "virt_memcpy (s\<lparr>phys_mem := (phys_mem s)(a := phys_mem s b)\<rparr>) (d + 1) (x + 1) n = Inr s'"
    by (auto split: option.splits)
  from Suc.IH [OF this] show ?case by (simp add: grows_def)
qed simp

lemma mapping_copy_grows:
  "arch_mm_mapping_load s m off data n = Inr s' \<Longrightarrow> grows s s'"
  "arch_mm_mapping_store s m off data n = Inr s' \<Longrightarrow> grows s s'"
  by (auto simp: arch_mm_mapping_load_def arch_mm_mapping_store_def and_then_Inr_iff
      dest!: window_map_grows virt_memcpy_grows window_unmap_grows intro: grows_trans)

lemma x86_64_mm_sel [simp]:
  "am_alloc_phys (x86_64_mm ehdr) = pmm_alloc" "am_free_phys (x86_64_mm ehdr) = pmm_free"
  "am_map (x86_64_mm ehdr) = arch_mm_map" "am_unmap (x86_64_mm ehdr) = arch_mm_unmap"
  "am_create_context (x86_64_mm ehdr) = arch_mm_create_context ehdr"
  "am_mapping_load (x86_64_mm ehdr) = arch_mm_mapping_load"
  "am_mapping_store (x86_64_mm ehdr) = arch_mm_mapping_store"
  by (auto simp: x86_64_mm_def arch_mm_alloc_phys_def arch_mm_free_phys_def intro!: ext)

interpretation x86: arch_memory "x86_64_mm ehdr" pmm_used pmm_ok for ehdr
proof
  fix s s' ctx d p n fl c m off data
  assume ok: "pmm_ok s"
  show "am_map (x86_64_mm ehdr) s ctx d p n fl c = Inr s' \<Longrightarrow> pmm_ok s' \<and> pmm_used s \<subseteq> pmm_used s'"
    using ok by (auto simp: arch_mm_map_def grows_def pmm_ok_def dest!: vmm_map_pages_grows)
  show "\<exists>s'. am_unmap (x86_64_mm ehdr) s ctx d n = Inr s' \<and> pmm_ok s' \<and> pmm_used s' = pmm_used s"
    using ok vmm_unmap_pages_keeps [of s ctx d "unat n"]
    by (auto simp: arch_mm_unmap_def keeps_def grows_def pmm_ok_def)
  show "am_mapping_load (x86_64_mm ehdr) s m off data n = Inr s' \<Longrightarrow> pmm_ok s' \<and> pmm_used s \<subseteq> pmm_used s'"
    using ok by (auto simp: grows_def pmm_ok_def dest!: mapping_copy_grows)
  show "am_mapping_store (x86_64_mm ehdr) s m off data n = Inr s' \<Longrightarrow> pmm_ok s' \<and> pmm_used s \<subseteq> pmm_used s'"
    using ok by (auto simp: grows_def pmm_ok_def dest!: mapping_copy_grows)
qed (auto simp: pmm.free_ok pmm.free_used
    dest: pmm.alloc_ok pmm.alloc_fail pmm.alloc_fresh pmm.alloc_used pmm.alloc_aligned)

interpretation x86sp: arch_space "x86_64_mm ehdr" pmm_used pmm_ok ref_vm for ehdr
  by unfold_locales

section \<open>Page faults on x86_64\<close>

lemma forest_cong:
  assumes f: "forest s R" and u: "pmm_used s \<subseteq> pmm_used s'"
    and rd: "\<And>t j. aligned t \<Longrightarrow> t div PAGE_SIZE \<in> pmm_used s \<Longrightarrow> j < 512 \<Longrightarrow> table_read s' t j = table_read s t j"
  shows "forest s' R \<and> same_entries s s' R"
proof -
  have at: "table_at s' Q q = table_at s Q q" if Q: "Q \<in> R" and q: "path_ok q" for Q q
    using q
  proof (induction q rule: rev_induct)
    case (snoc i q)
    note qi = path_ok_snocD [OF snoc.prems]
    have IH: "table_at s' Q q = table_at s Q q" using snoc.IH qi by blast
    show ?case
    proof (cases "table_at s Q q")
      case (Some t)
      then show ?thesis using rd [of t i] forestD [OF f Q _ Some] qi IH by (simp add: table_at_snoc)
    qed (simp add: table_at_snoc IH)
  qed simp
  have "forest s' R" using f u at unfolding forest_def by (simp add: subset_iff)
  moreover have "entry s' Q w = entry s Q w" if Q: "Q \<in> R" and w: "user_addr w" for Q w
    using at [OF Q vpath_ok [OF w]] forestD [OF f Q vpath_ok [OF w]] rd vleaf_less
    by (auto simp: entry_def split: option.split)
  ultimately show ?thesis by (simp add: same_entries_def)
qed

lemma pmm_alloc_forest:
  assumes "forest s R" "pmm_ok s" "pmm_alloc s 1 = (p, s1)" "p \<noteq> 0"
  shows "forest s1 R \<and> same_entries s s1 R"
proof (cases rule: pmm_alloc_1_cases [OF assms(2)])
  case 1
  then show ?thesis using assms by simp
next
  case (2 q s2)
  then have e: "q = p" "s2 = s1" using assms(3) by simp_all
  show ?thesis
  proof (rule forest_cong [OF assms(1)])
    fix t j assume "aligned t" "t div PAGE_SIZE \<in> pmm_used s" "(j :: u64) < 512"
    moreover from this have "t \<noteq> p" using 2(5) e by (auto simp: pmm_free_set_def)
    ultimately show "table_read s1 t j = table_read s t j"
      using 2 e read64_fill_other [of t p j] by (simp add: table_read_def)
  qed (use 2 e in auto)
qed

abbreviation mapping_perms :: "memory_mapping \<Rightarrow> u64" where
  "mapping_perms m \<equiv> scast (vmm_arch_to_vmm_flags (m_perms m) (m_cache_mode m))"

lemma arch_mm_map_1: "arch_mm_map s ctx d p 1 fl c = vmm_map_page s ctx d p (scast (vmm_arch_to_vmm_flags fl c))"
proof -
  have "and_then r (\<lambda>x. Inr x) = r" for r :: "machine result" by (cases r) simp_all
  then show ?thesis by (simp add: arch_mm_map_def)
qed

text \<open>Mapping the pages of a region from index \<open>i\<close> on.\<close>

lemma map_region_loop_entries:
  assumes "map_region_loop (x86_64_mm ehdr) s ctx m i n = Inr s'" "forest s R" "pmm_ok s" "ctx \<in> R"
    "unat i + n \<le> unat (m_size m)" "wf_region m"
  shows "forest s' R \<and> pmm_ok s' \<and>
    (\<forall>Q\<in>R. \<forall>w. user_addr w \<longrightarrow> entry s' Q w =
       (let k = unat w div 4096 - unat (m_base m) div 4096 in
        if Q = ctx \<and> unat (m_base m) div 4096 + unat i \<le> unat w div 4096 \<and>
           unat w div 4096 < unat (m_base m) div 4096 + unat i + n \<and> bp_exists (m_pages m ! k)
        then bp_ptr (m_pages m ! k) OR mapping_perms m OR VMM_FLAG_PRESENT else entry s Q w))"
  using assms(1-5)
proof (induction n arbitrary: s i)
  case 0
  then show ?case by (auto simp: Let_def)
next
  case (Suc n)
  let ?d = "m_base m + i * vm_page_size" and ?b = "unat (m_base m) div 4096"
  have wf: "wf_ivl (m_base m) (m_size m)" and len: "length (m_pages m) = unat (m_size m)"
    using assms(6) by (simp_all add: wf_region_def)
  have i: "unat i < unat (m_size m)" using Suc.prems(5) by simp
  have i1: "unat (i + 1) = unat i + 1"
    using i unat_u64_less [of "m_size m"] by (intro unat_Suc_word) simp
  have d: "unat ?d = unat (m_base m) + unat i * 4096"
    using wf i by (intro unat_end) (simp add: wf_ivl_def)
  have ud: "user_addr ?d" using wf i d by (simp add: user_addr_num word_less_nat_alt wf_ivl_def)
  have dd: "unat ?d div 4096 = ?b + unat i" using d by simp
  let ?p = "m_pages m ! unat i"
  obtain s1 where s1: "(if bp_exists ?p then arch_mm_map s ctx ?d (bp_ptr ?p) 1 (m_perms m) (m_cache_mode m) else Inr s) = Inr s1"
    and rest: "map_region_loop (x86_64_mm ehdr) s1 ctx m (i + 1) n = Inr s'"
    using Suc.prems(1) by (auto simp: and_then_Inr_iff split: if_splits)
  have step: "forest s1 R \<and> pmm_ok s1 \<and> (\<forall>Q\<in>R. \<forall>w. user_addr w \<longrightarrow> entry s1 Q w =
      (if Q = ctx \<and> unat w div 4096 = ?b + unat i \<and> bp_exists ?p
       then bp_ptr ?p OR mapping_perms m OR VMM_FLAG_PRESENT else entry s Q w))"
  proof (cases "bp_exists ?p")
    case True
    then have "vmm_map_page s ctx ?d (bp_ptr ?p) (mapping_perms m) = Inr s1" using s1 by (simp add: arch_mm_map_1)
    then show ?thesis
      using vmm_map_page_spec [OF Suc.prems(2-4) ud, of "bp_ptr ?p" "mapping_perms m"] True Suc.prems(3)
      by (auto simp: page_eq_iff dd intro: grows_ok)
  next
    case False
    then show ?thesis using s1 Suc.prems by auto
  qed
  have le: "unat (i + 1) + n \<le> unat (m_size m)" using Suc.prems(5) i1 by simp
  have f1: "forest s1 R" "pmm_ok s1" using step by simp_all
  note ih = Suc.IH [OF rest f1 Suc.prems(4) le]
  have "entry s' Q w = (let k = unat w div 4096 - ?b in
        if Q = ctx \<and> ?b + unat i \<le> unat w div 4096 \<and> unat w div 4096 < ?b + unat i + Suc n \<and> bp_exists (m_pages m ! k)
        then bp_ptr (m_pages m ! k) OR mapping_perms m OR VMM_FLAG_PRESENT else entry s Q w)"
    if Q: "Q \<in> R" and w: "user_addr w" for Q w
  proof (cases "unat w div 4096 = ?b + unat i")
    case True
    then show ?thesis using ih step Q w i1 by (simp add: Let_def)
  next
    case False
    then have "(?b + unat i \<le> unat w div 4096 \<and> unat w div 4096 < ?b + unat i + Suc n) =
        (?b + unat (i + 1) \<le> unat w div 4096 \<and> unat w div 4096 < ?b + unat (i + 1) + n)" using i1 by auto
    then show ?thesis using ih step Q w False unfolding Let_def by (metis (no_types, lifting))
  qed
  then show ?case using ih by blast
qed

lemma sub_page_div: "((a::nat) - 4096 * q) div 4096 = a div 4096 - q"
proof (cases "4096 * q \<le> a")
  case True
  then obtain d where "a = 4096 * q + d" using le_Suc_ex by blast
  then show ?thesis by simp
next
  case False
  then have "a div 4096 \<le> q" by (simp add: div_le_mono less_imp_le_nat less_mult_imp_div_less mult.commute not_le)
  then show ?thesis using False by simp
qed

text \<open>C4. A page fault resolved on x86_64: after the handler of an address space took a frame for an absent page,
  the page tables translate the faulting page to that frame with the region's flags, and the page tables of
  every other address space are as before.\<close>

theorem x86_64_fault_resolved:
  assumes "vm_containers F" "owned_reach (x86_64_mm ehdr) F pmm_used pmm_ok s a"
    and forest: "forest s R" "vmm_ctx a \<in> R"
    and r: "region_for_address a x = Some r" "m = mapped_regions a ! r"
    and x: "x < m_base m + m_size m * vm_page_size" "idx = unat ((x - m_base m) div vm_page_size)"
    and page: "bp_allocated (m_pages m ! idx)" "\<not> bp_exists (m_pages m ! idx)"
    and alloc: "pmm_alloc s 1 = (p, s1)" "p \<noteq> 0"
    and fault: "space_fault_hit (x86_64_mm ehdr) s a x = Inr (b, s', a')"
  shows "b \<and> p div PAGE_SIZE \<notin> pmm_used s \<and> forest s' R \<and>
    vmm_get_entry s' (vmm_ctx a) x =
      Inr (p OR scast (vmm_arch_to_vmm_flags (m_perms m) (m_cache_mode m)) OR VMM_FLAG_PRESENT) \<and>
    (\<forall>Q\<in>R. \<forall>w. w < 2 ^ 47 \<and> Q \<noteq> vmm_ctx a \<longrightarrow> vmm_get_entry s' Q w = vmm_get_entry s Q w)"
proof -
  have sp: "arch_space (x86_64_mm ehdr) pmm_used pmm_ok F"
    using assms(1) x86.arch_memory_axioms by (simp add: arch_space_def)
  have i: "space_inv a" "pmm_ok s" using arch_space.owned_reach_inv [OF sp assms(2)] by simp_all
  have al: "am_alloc_phys (x86_64_mm ehdr) s 1 = (p, s1)" using alloc(1) by simp
  note f = space_fault_absent [OF i(1) r x page al alloc(2) fault refl]
  let ?n = "m\<lparr>m_pages := (m_pages m)[idx := \<lparr>bp_ptr = p, bp_exists = True, bp_allocated = True\<rparr>]\<rparr>"
  have s1: "forest s1 R" "same_entries s s1 R" using pmm_alloc_forest [OF forest(1) i(2) alloc] by simp_all
  note e = map_region_loop_entries [OF f(5) s1(1) pmm.alloc_ok [OF i(2) alloc(1)] forest(2) _ f(3)]
  have wf: "wf_ivl (m_base m) (m_size m)" using f(3) by (simp add: wf_region_def)
  have xs: "unat x < unat (m_base m) + unat (m_size m) * 4096"
    using x(1) wf_ivl_end [OF wf] by (simp add: word_less_nat_alt)
  have ux: "user_addr x" using xs wf by (simp add: user_addr_num word_less_nat_alt wf_ivl_def)
  obtain q where q: "unat (m_base m) = 4096 * q" using wf by (auto simp: wf_ivl_def)
  have le: "unat (m_base m) \<le> unat x" using f(4) by (simp add: word_le_nat_alt)
  have idx: "idx = unat x div 4096 - unat (m_base m) div 4096"
  proof -
    have "idx = (unat x - 4096 * q) div 4096" using x(2) q f(4) by (simp add: unat_div unat_sub_le)
    also have "\<dots> = unat x div 4096 - q" by (rule sub_page_div)
    finally show ?thesis using q by simp
  qed
  have lt: "unat x div 4096 < unat (m_base m) div 4096 + unat (m_size m)"
    using xs q by (simp add: less_mult_imp_div_less)
  have "entry s' (vmm_ctx a) x = p OR mapping_perms m OR VMM_FLAG_PRESENT"
    using e forest(2) ux lt f(2) le by (simp add: Let_def idx [symmetric] div_le_mono)
  moreover have "entry s' Q w = entry s Q w" if "Q \<in> R" "user_addr w" "Q \<noteq> vmm_ctx a" for Q w
    using e s1(2) that by (simp add: Let_def same_entries_def)
  moreover have "p div PAGE_SIZE \<notin> pmm_used s" by (rule pmm.alloc_fresh [OF i(2) alloc])
  ultimately show ?thesis using f(1) e ux by (auto simp: user_num)
qed

section \<open>A machine to run on\<close>

text \<open>A machine whose memory is zero, with the frames from 0x2002 to 0x200F free: 0x2000 holds the kernel's
  top table and 0x2001 that of one address space.\<close>

definition table_machine :: machine where
  "table_machine =
     \<lparr>phys_mem = (\<lambda>_. 0), pmm_bitmap = (\<lambda>off. if off = 0x80 then 3 else 0),
      pmm_bitmap_len = 0x2010, pmm_free_pages = 14, pmm_total_pages = 14, kernel_pml4 = 0x2000000,
      cr3 = 0x2000000, cur_cpu = 0, saved_vmm_ctx = (\<lambda>_. 0)\<rparr>"

lemma table_machine_ok: "pmm_ok table_machine"
  by (simp add: pmm_ok_def table_machine_def)

lemma table_machine_read: "pmm_bit_read table_machine i \<longleftrightarrow> i = 0x2000 \<or> i = 0x2001"
proof -
  have b: "bit (3 :: u64) n \<longleftrightarrow> n = 0 \<or> n = 1" for n
    by (auto simp: bit_numeral_rec bit_1_iff simp flip: numeral_3_eq_3 split: nat.split)
  have "i = 0x2000" if "i div 64 = 0x80" "unat (i mod 64) = 0"
    using that div_mod_64_inj [of i "0x2000"] by simp
  moreover have "i = 0x2001" if "i div 64 = 0x80" "unat (i mod 64) = 1"
    using that div_mod_64_inj [of i "0x2001"] by (simp add: word_unat_eq_iff)
  ultimately show ?thesis
    using b [of "unat (i mod 64)"] by (auto simp: pmm_bit_read_bit table_machine_def)
qed

lemma table_machine_used: "pmm_used table_machine = {0x2000, 0x2001}"
  by (auto simp: pmm_used_def table_machine_read)

lemma table_machine_free:
  "{0x2002, 0x2003, 0x2004, 0x2005, 0x2006, 0x2007} \<subseteq> pmm_free_set table_machine"
  by (simp add: pmm_free_set_def table_machine_used) (simp add: table_machine_def)

lemma card_free_ge:
  assumes "A \<subseteq> pmm_free_set s" "card A = n" shows "n \<le> card (pmm_free_set s)"
  using card_mono [OF finite assms(1)] assms(2) by simp

lemma table_machine_many: "6 \<le> card (pmm_free_set table_machine)"
  by (rule card_free_ge [OF table_machine_free]) simp

lemma table_machine_zero: "table_read table_machine t i = 0"
  by (simp add: table_read_def table_machine_def read64_zero)

lemma table_machine_table: "table_at table_machine P p = (if p = [] then Some P else None)"
  by (cases p) (simp_all add: table_machine_zero)

lemma table_machine_forest: "forest table_machine {0x2000000, 0x2001000}"
  by (auto simp: forest_def table_machine_table aligned_def table_machine_used PAGE_SIZE_def split: if_splits)

lemma table_machine_entry: "w < 0x800000000000 \<Longrightarrow> vmm_get_entry table_machine P w = Inr 0"
  by (simp add: user_num entry_def table_machine_table table_machine_zero split: option.split)

theorem vmm_map_pages_isolated_witness:
  "\<exists>s'. vmm_map_pages table_machine 0x2001000 0x400000 0x2006000 2 VMM_FLAG_USER = Inr s' \<and>
     vmm_get_entry s' 0x2001000 0x401008 = Inr 0x2007005 \<and> vmm_get_entry s' 0x2001000 0x402000 = Inr 0 \<and>
     vmm_get_entry s' 0x2000000 0x401008 = Inr 0"
proof -
  obtain s' where s': "vmm_map_pages table_machine 0x2001000 0x400000 0x2006000 2 VMM_FLAG_USER = Inr s'" and
    e: "\<forall>Q\<in>{0x2000000, 0x2001000}. \<forall>w. w < 2 ^ 47 \<longrightarrow>
       (if Q = 0x2001000 \<and> pages_from 0x400000 2 w
        then vmm_get_entry s' Q w = Inr ((0x2006000 + of_nat (unat w div 4096 - unat (0x400000 :: u64) div 4096) * 0x1000)
          OR VMM_FLAG_USER OR VMM_FLAG_PRESENT)
        else vmm_get_entry s' Q w = vmm_get_entry table_machine Q w)"
    using vmm_map_pages_isolated [OF table_machine_forest table_machine_ok,
        of "0x2001000" "0x400000" 2 "0x2006000" VMM_FLAG_USER] table_machine_many by auto
  have "vmm_get_entry s' 0x2001000 0x401008 = Inr 0x2007005"
    using e [THEN bspec, of "0x2001000", THEN spec, of "0x401008"]
    by (simp add: pages_from_def VMM_FLAG_USER_def VMM_FLAG_PRESENT_def)
  moreover have "vmm_get_entry s' 0x2001000 0x402000 = Inr 0"
    using e [THEN bspec, of "0x2001000", THEN spec, of "0x402000"]
    by (simp add: pages_from_def table_machine_entry)
  moreover have "vmm_get_entry s' 0x2000000 0x401008 = Inr 0"
    using e [THEN bspec, of "0x2000000", THEN spec, of "0x401008"] by (simp add: table_machine_entry)
  ultimately show ?thesis using s' by blast
qed

theorem vmm_map_unmap_roundtrip_witness:
  "\<exists>s1 b s2. vmm_map_page table_machine 0x2001000 0x400000 0x2006000 VMM_FLAG_USER = Inr s1 \<and>
     vmm_unmap_pages s1 0x2001000 0x400000 1 = Inr (b, s2) \<and>
     vmm_get_entry s1 0x2001000 0x400000 = Inr 0x2006005 \<and> vmm_get_entry s2 0x2001000 0x400000 = Inr 0"
proof -
  have u: "user_addr 0x400000" by (simp add: user_addr_num)
  obtain s1 where s1: "vmm_map_page table_machine 0x2001000 0x400000 0x2006000 VMM_FLAG_USER = Inr s1" "forest s1 {0x2000000, 0x2001000}"
    using vmm_map_page_spec [OF table_machine_forest table_machine_ok _ u, of "0x2001000" "0x2006000" VMM_FLAG_USER]
      table_machine_many by auto
  obtain b s2 where s2: "vmm_unmap_pages s1 0x2001000 0x400000 1 = Inr (b, s2)"
    using vmm_unmap_1_spec [OF s1(2) _ u, of "0x2001000"] by auto
  show ?thesis
    using vmm_map_unmap_roundtrip [OF table_machine_forest table_machine_ok _ _ s1(1) s2] s1 s2
    by (simp add: VMM_FLAG_USER_def VMM_FLAG_PRESENT_def)
qed

theorem vmm_new_address_space_empty_witness:
  "\<exists>P s'. vmm_new_address_space None table_machine = Inr (P, s') \<and> P \<notin> {0x2000000, 0x2001000} \<and>
     vmm_get_entry s' P 0x400000 = Inr 0"
proof -
  have "kernel_pml4 table_machine \<noteq> 0" by (simp add: table_machine_def)
  moreover have "pmm_free_set table_machine \<noteq> {}" using table_machine_free by auto
  ultimately show ?thesis
    using vmm_new_address_space_empty [OF table_machine_forest table_machine_ok, of None] by auto
qed

text \<open>The address space whose top table is frame 0x2001, with one page that is allocated and not present.\<close>

definition table_space :: address_space where
  "table_space = page_space\<lparr>vmm_ctx := 0x2001000\<rparr>"

lemma table_space_owned: "owned_reach (x86_64_mm None) ref_vm pmm_used pmm_ok table_machine table_space"
proof -
  let ?s0 = "small_machine\<lparr>kernel_pml4 := 0x2000000\<rparr>" and ?a0 = "fresh_space\<lparr>vmm_ctx := 0x2001000\<rparr>"
  have rd: "pmm_bit_read ?s0 i \<longleftrightarrow> i = 0x2000" for i
    using small_machine_read [of i] pmm_bit_read_cong [of ?s0 small_machine i] by simp
  have "pmm_scan ?s0 1 1 0x2004 0x2000 = Some (Some 0x2001)"
    by (subst pmm_scan.simps, subst pmm_scan.simps) (simp add: rd)
  then have al: "pmm_alloc ?s0 1 = (0x2001000, pmm_take ?s0 0x2001 1)"
    by (simp add: pmm_alloc_def pmm_alloc_ex_def pmm_max_idx_def PAGE_SIZE_def PMM_MEMORY_BASE_def)
  obtain m where n: "new_address_space (x86_64_mm None) ref_vm ?s0 =
      Inr ((pmm_take ?s0 0x2001 1)\<lparr>phys_mem := m\<rparr>, ?a0)"
    using al by (simp add: new_address_space_def arch_mm_create_context_def vmm_new_address_space_def
        fresh_space_def refvm.hl.push_back vm_user_base_def vm_user_end_def vm_page_size_def)
  have u: "pmm_used (pmm_take ?s0 0x2001 1) = {0x2000, 0x2001}"
    by (auto simp: pmm_used_def rd word_less_1)
  have "owned_reach (x86_64_mm None) ref_vm pmm_used pmm_ok table_machine ?a0"
  proof (rule owned_reach.other [OF owned_reach.created [OF n]])
    show "pmm_ok ((pmm_take ?s0 0x2001 1)\<lparr>phys_mem := m\<rparr>)" by (simp add: pmm_ok_def)
  qed (simp_all add: table_machine_ok table_machine_used u)
  moreover have "space_allocate (x86_64_mm None) ref_vm table_machine ?a0 1 3 0 =
      Inr (0x7FFFFFFFF000, table_machine, table_space)"
    by (simp add: space_allocate_def find_free_hole_def fresh_space_def bind_hole_def put_mapping_def
        find_succ_mapping_def refvm.rl.push_back mapping_allocate_def new_mapping_def refvm.pv.vec_resize_Nil
        no_page_def map_region_def set_region_def table_space_def page_space_def lazy_region_def fresh_page_def
        vm_page_size_def)
  ultimately show ?thesis by (rule owned_reach.allocate)
qed

lemma table_machine_alloc: "pmm_alloc table_machine 1 = (0x2002000, pmm_take table_machine 0x2002 1)"
proof -
  have "pmm_scan table_machine 1 1 0x2010 0x2000 = Some (Some 0x2002)"
    by (subst pmm_scan.simps, subst pmm_scan.simps, subst pmm_scan.simps) (simp add: table_machine_read)
  moreover have "pmm_bitmap_len table_machine = 0x2010" by (simp add: table_machine_def)
  ultimately show ?thesis
    by (simp add: pmm_alloc_def pmm_alloc_ex_def pmm_max_idx_def PAGE_SIZE_def PMM_MEMORY_BASE_def)
qed

theorem x86_64_fault_resolved_witness:
  "\<exists>s' a'. space_fault_hit (x86_64_mm None) table_machine table_space 0x7FFFFFFFF008 = Inr (True, s', a') \<and>
     vmm_get_entry s' 0x2001000 0x7FFFFFFFF008 = Inr 0x2002003"
proof -
  let ?s1 = "pmm_take table_machine 0x2002 1" and ?R = "{0x2000000, 0x2001000} :: u64 set"
  let ?m = "lazy_region 0x7FFFFFFFF000 1 3 0"
  have f1: "forest ?s1 ?R" and ok1: "pmm_ok ?s1"
    using pmm_alloc_forest [OF table_machine_forest table_machine_ok table_machine_alloc]
      pmm.alloc_ok [OF table_machine_ok table_machine_alloc] by simp_all
  have "{0x2003, 0x2004, 0x2005} \<subseteq> pmm_free_set ?s1"
    using table_machine_free by (auto simp: pmm_free_set_def pmm_used_def)
  then have "3 \<le> card (pmm_free_set ?s1)" by (rule card_free_ge) simp
  then obtain s' where s': "vmm_map_page ?s1 0x2001000 0x7FFFFFFFF000 0x2002000 (mapping_perms ?m) = Inr s'"
    using vmm_map_page_spec [OF f1 ok1, of "0x2001000" "0x7FFFFFFFF000" "0x2002000" "mapping_perms ?m"]
    by (auto simp: user_addr_num)
  have r: "region_for_address table_space 0x7FFFFFFFF008 = Some 0"
    by (simp add: region_for_address_def table_space_def page_space_def lazy_region_def vm_page_size_def)
  have f: "\<exists>a'. space_fault_hit (x86_64_mm None) table_machine table_space 0x7FFFFFFFF008 = Inr (True, s', a')"
    using r table_machine_alloc s'
    by (simp add: space_fault_hit_def table_space_def page_space_def mapping_fault_hit_def mapping_touch_def
        lazy_region_def vm_page_size_def fresh_page_def no_page_def map_region_def set_region_def arch_mm_map_1)
  then obtain a' where f: "space_fault_hit (x86_64_mm None) table_machine table_space 0x7FFFFFFFF008 = Inr (True, s', a')" ..
  have "vmm_ctx table_space \<in> ?R" by (simp add: table_space_def)
  from x86_64_fault_resolved [OF refvm.vm_containers_axioms table_space_owned table_machine_forest this
      r refl _ refl _ _ table_machine_alloc _ f]
  have "vmm_get_entry s' 0x2001000 0x7FFFFFFFF008 = Inr (0x2002000 OR mapping_perms ?m OR VMM_FLAG_PRESENT)"
    by (simp add: table_space_def page_space_def lazy_region_def vm_page_size_def no_page_def fresh_page_def)
  moreover have "mapping_perms ?m OR VMM_FLAG_PRESENT = 3"
    by (simp add: lazy_region_def vmm_arch_to_vmm_flags_def VMM_FLAG_PRESENT_def VMM_FLAG_WRITE_def VMM_FLAG_NX_def)
  ultimately show ?thesis using f by (auto simp: or.assoc)
qed

text \<open>The flags of a mapping are collected in an \<open>int\<close>: whatever permissions and cache mode are asked for, the
  no-execute bit never reaches the page table entry, so every present user page is executable.\<close>

theorem no_execute_lost:
  "(scast (vmm_arch_to_vmm_flags flags cache) :: u64) AND VMM_FLAG_NX = 0"
  by (simp add: vmm_arch_to_vmm_flags_def Let_def VMM_FLAG_WRITE_def VMM_FLAG_USER_def VMM_FLAG_NX_def
      VMM_FLAG_PAT0_def VMM_FLAG_PAT1_def VMM_FLAG_PAT2_def)

end
