(* ===== verification/Scheduler.thy ===== *)
theory Scheduler
  imports AddressSpace Spinlock
begin

text \<open>
  Tasks and the scheduler: \<open>arch/x86_64/task/task.cpp\<close>, \<open>proc/scheduler.h\<close>, \<open>proc/scheduler.cpp\<close> and
  \<open>generic_irq.cpp\<close>. Threads live in a heap of slots, a pointer to a thread is its slot. What a handler does to
  the CPU (dropping the address space, acknowledging the interrupt, entering a task, idling) is returned as a list
  of calls, in order; entering a task and idling do not return.
\<close>

section \<open>Tasks\<close>

record ctx_cpu_state_t =
  c_r15 :: u64   c_r14 :: u64   c_r13 :: u64   c_r12 :: u64
  c_r11 :: u64   c_r10 :: u64   c_r9 :: u64    c_r8 :: u64
  c_rdi :: u64   c_rsi :: u64   c_rbp :: u64   c_rdx :: u64
  c_rcx :: u64   c_rbx :: u64   c_rax :: u64
  c_ss :: u64    c_rsp :: u64   c_rflags :: u64
  c_cs :: u64    c_rip :: u64

record irq_cpu_state_t =
  i_ds :: u64
  i_r15 :: u64   i_r14 :: u64   i_r13 :: u64   i_r12 :: u64
  i_r11 :: u64   i_r10 :: u64   i_r9 :: u64    i_r8 :: u64
  i_rdi :: u64   i_rsi :: u64   i_rbp :: u64   i_rdx :: u64
  i_rcx :: u64   i_rbx :: u64   i_rax :: u64
  i_int_no :: u64   i_err :: u64
  i_rip :: u64   i_cs :: u64    i_rflags :: u64
  i_rsp :: u64   i_ss :: u64

record arch_task =
  t_state :: ctx_cpu_state_t
  t_vmm_ctx :: u64
  t_io_bitmap :: "u8 list"

text \<open>The constructor sets five registers; the rest of the new object keeps what its memory held.\<close>

definition new_arch_task :: "arch_task \<Rightarrow> arch_task" where
  "new_arch_task garbage =
     garbage\<lparr>t_state := (t_state garbage)\<lparr>c_ss := 0x1b, c_rsp := 0, c_rflags := 0x202, c_cs := 0x13, c_rip := 0\<rparr>\<rparr>"

definition set_ip :: "arch_task \<Rightarrow> u64 \<Rightarrow> arch_task" where
  "set_ip t v = t\<lparr>t_state := (t_state t)\<lparr>c_rip := v\<rparr>\<rparr>"

definition set_sp :: "arch_task \<Rightarrow> u64 \<Rightarrow> arch_task" where
  "set_sp t v = t\<lparr>t_state := (t_state t)\<lparr>c_rsp := v\<rparr>\<rparr>"

definition load_irq_state :: "arch_task \<Rightarrow> irq_cpu_state_t \<Rightarrow> arch_task" where
  "load_irq_state t s =
     t\<lparr>t_state := (t_state t)
         \<lparr>c_r15 := i_r15 s, c_r14 := i_r14 s, c_r13 := i_r13 s, c_r12 := i_r12 s,
          c_r11 := i_r11 s, c_r10 := i_r10 s, c_r9 := i_r9 s, c_r8 := i_r8 s,
          c_rdi := i_rdi s, c_rsi := i_rsi s, c_rbp := i_rbp s, c_rdx := i_rdx s,
          c_rcx := i_rcx s, c_rbx := i_rbx s, c_rax := i_rax s,
          c_ss := i_ss s, c_rsp := i_rsp s, c_cs := i_cs s, c_rip := i_rip s, c_rflags := i_rflags s\<rparr>\<rparr>"

section \<open>Threads and the scheduler's state\<close>

datatype thread_state = stopped | running | blocked_ipc | blocked_irq

text \<open>The name of a thread is a \<open>frg::string\<close>: its buffer and its length.\<close>

type_synonym frg_string = "u64 \<times> u64"

record thread =
  th_task :: arch_task
  th_addr_space :: address_space
  th_id :: u64
  th_state :: thread_state
  th_running_on :: cint
  th_access_lock :: bool
  th_identity :: frg_string

definition new_thread :: "arch_task \<Rightarrow> address_space \<Rightarrow> frg_string \<Rightarrow> thread" where
  "new_thread task space ident =
     \<lparr>th_task = task, th_addr_space = space, th_id = 0, th_state = stopped, th_running_on = -1,
      th_access_lock = False, th_identity = ident\<rparr>"

record sched_cpu_data =
  current_thread :: u64
  cpu_running :: bool

type_synonym thread_heap = "thread option list"

record sched =
  sc_lock :: bool
  sc_threads :: "u64 \<rightharpoonup> nat option"
  sc_schedule :: "nat list"
  sc_next_id :: u64
  sc_idx :: u64
  sc_procs :: "sched_cpu_data list"
  sc_ready :: bool
  sc_heap :: thread_heap

record sched_frg =
  thread_map :: "(u64, nat option) frg_map_ops"
  sched_list :: "nat frg_list_ops"
  procs_vector :: "sched_cpu_data frg_vector_ops"

datatype arch_call = DropContext | AckInterrupt u8 | EnterTask arch_task | IdleCpu

definition boot_sched :: sched where
  "boot_sched = \<lparr>sc_lock = False, sc_threads = Map.empty, sc_schedule = [], sc_next_id = 0, sc_idx = 0, sc_procs = [],
     sc_ready = False, sc_heap = []\<rparr>"

definition get_thread :: "thread_heap \<Rightarrow> nat \<Rightarrow> thread result" where
  "get_thread h p =
     (if length h \<le> p then Inl UseAfterFree else (case h ! p of None \<Rightarrow> Inl UseAfterFree | Some t \<Rightarrow> Inr t))"

definition put_thread :: "sched \<Rightarrow> nat \<Rightarrow> thread \<Rightarrow> sched" where
  "put_thread s p t = s\<lparr>sc_heap := (sc_heap s)[p := Some t]\<rparr>"

text \<open>\<open>threads[id]->\<close>: the entry of the map, which appears if it was missing, and the thread it points to.\<close>

definition thread_at :: "sched_frg \<Rightarrow> sched \<Rightarrow> u64 \<Rightarrow> (nat \<times> thread \<times> sched) result" where
  "thread_at F s k =
     (let (ptr, m) = fm_index (thread_map F) (sc_threads s) k
      in (case ptr of
            None \<Rightarrow> Inl NullDeref
          | Some p \<Rightarrow> and_then (get_thread (sc_heap s) p) (\<lambda>t. Inr (p, t, s\<lparr>sc_threads := m\<rparr>))))"

section \<open>Choosing a thread\<close>

fun scan_schedule :: "thread_heap \<Rightarrow> nat list \<Rightarrow> u64 \<Rightarrow> u64 \<Rightarrow> (u64 \<times> u64) option result" where
  "scan_schedule h [] i idx = Inr None"
| "scan_schedule h (p # ps) i idx =
     and_then (get_thread h p) (\<lambda>t.
       if i < idx then scan_schedule h ps (i + 1) idx
       else if th_running_on t = -1 then Inr (Some (i, th_id t))
       else scan_schedule h ps (i + 1) idx)"

definition get_next_thread_to_run :: "sched \<Rightarrow> (u64 option \<times> sched) result" where
  "get_next_thread_to_run s =
     and_then (scan_schedule (sc_heap s) (sc_schedule s) 0 (sc_idx s)) (\<lambda>r.
       (case r of
          Some (i, tid) \<Rightarrow> Inr (Some tid, s\<lparr>sc_idx := i\<rparr>)
        | None \<Rightarrow>
            and_then (scan_schedule (sc_heap s) (sc_schedule s) 0 0) (\<lambda>r.
              (case r of
                 Some (i, tid) \<Rightarrow> Inr (Some tid, s\<lparr>sc_idx := i\<rparr>)
               | None \<Rightarrow> Inr (None, s\<lparr>sc_idx := 0\<rparr>)))))"

section \<open>Starting\<close>

fun push_procs :: "sched_frg \<Rightarrow> sched_cpu_data list \<Rightarrow> nat \<Rightarrow> sched_cpu_data list" where
  "push_procs F v 0 = v"
| "push_procs F v (Suc n) = push_procs F (fv_push_back (procs_vector F) v \<lparr>current_thread = 0, cpu_running = False\<rparr>) n"

definition sched_init :: "sched_frg \<Rightarrow> sched \<Rightarrow> cint \<Rightarrow> sched result" where
  "sched_init F s n_cpus =
     (if n_cpus = 0 then Inl Panic
      else Inr (s\<lparr>sc_procs := push_procs F (sc_procs s) (nat (sint n_cpus)), sc_ready := True\<rparr>))"

definition sched_ready :: "sched \<Rightarrow> bool" where
  "sched_ready s = sc_ready s"

section \<open>Switching\<close>

text \<open>The first part of \<open>sched_resched\<close>: the interrupted thread is saved.\<close>

definition save_current :: "sched_frg \<Rightarrow> sched \<Rightarrow> u64 \<Rightarrow> irq_cpu_state_t \<Rightarrow> sched result" where
  "save_current F s k irq_state =
     and_then (thread_at F s k) (\<lambda>(p, t, s).
       let s = put_thread s p (t\<lparr>th_task := load_irq_state (th_task t) irq_state\<rparr>)
       in and_then (thread_at F s k) (\<lambda>(p, t, s). Inr (put_thread s p (t\<lparr>th_running_on := -1\<rparr>))))"

definition sched_resched ::
  "sched_frg \<Rightarrow> nat \<Rightarrow> sched \<Rightarrow> u8 \<Rightarrow> irq_cpu_state_t \<Rightarrow> cint \<Rightarrow> (arch_call list \<times> sched) result" where
  "sched_resched F cpu s irq irq_state resched =
     (if length (sc_procs s) \<le> cpu then Inl OutOfBounds
      else
        let data = sc_procs s ! cpu
        in and_then (spin_lock (sc_lock s)) (\<lambda>l.
           and_then (if cpu_running data \<and> resched = 0 then save_current F (s\<lparr>sc_lock := l\<rparr>) (current_thread data) irq_state
                     else Inr (s\<lparr>sc_lock := l\<rparr>)) (\<lambda>s.
           and_then (get_next_thread_to_run s) (\<lambda>(next, s).
             if next = Some (current_thread data) \<and> cpu_running data
             then and_then (thread_at F (s\<lparr>sc_procs := (sc_procs s)[cpu := data\<lparr>cpu_running := True\<rparr>]\<rparr>) (current_thread data))
               (\<lambda>(p, t, s). Inr ([], (put_thread s p (t\<lparr>th_running_on := of_nat cpu\<rparr>))\<lparr>sc_lock := False\<rparr>))
             else
               (case next of
                  Some k \<Rightarrow>
                    and_then (thread_at F
                      (s\<lparr>sc_procs := (sc_procs s)[cpu := \<lparr>current_thread = k, cpu_running = True\<rparr>]\<rparr>) k) (\<lambda>(p, t, s).
                    let s = (put_thread s p (t\<lparr>th_running_on := of_nat cpu\<rparr>))\<lparr>sc_lock := False\<rparr>
                    in and_then (thread_at F s k) (\<lambda>(p, t, s).
                         Inr ([DropContext, AckInterrupt irq, EnterTask (th_task t)], s)))
                | None \<Rightarrow>
                    Inr ([DropContext, AckInterrupt irq, IdleCpu],
                      s\<lparr>sc_procs := (sc_procs s)[cpu := data\<lparr>cpu_running := False\<rparr>], sc_lock := False\<rparr>))))))"

definition timer_irq_sink ::
  "sched_frg \<Rightarrow> nat \<Rightarrow> sched \<Rightarrow> u8 \<Rightarrow> irq_cpu_state_t \<Rightarrow> (arch_call list \<times> sched) result" where
  "timer_irq_sink F cpu s irq irq_state =
     (if sched_ready s then sched_resched F cpu s irq irq_state 0 else Inr ([], s))"

definition resched_signal_sink ::
  "sched_frg \<Rightarrow> nat \<Rightarrow> sched \<Rightarrow> u8 \<Rightarrow> irq_cpu_state_t \<Rightarrow> (arch_call list \<times> sched) result" where
  "resched_signal_sink F cpu s irq irq_state = sched_resched F cpu s irq irq_state 1"

section \<open>Adding, removing, running and blocking threads\<close>

definition sched_add :: "sched_frg \<Rightarrow> sched \<Rightarrow> nat \<Rightarrow> (u64 \<times> sched) result" where
  "sched_add F s p =
     and_then (spin_lock (sc_lock s)) (\<lambda>l.
     and_then (get_thread (sc_heap s) p) (\<lambda>t.
       kassert (th_state t = stopped)
         (let tid = sc_next_id s;
              m = (snd (fm_index (thread_map F) (sc_threads s) tid))(tid \<mapsto> Some p)
          in Inr (tid, s\<lparr>sc_next_id := tid + 1, sc_threads := m, sc_lock := spin_unlock l\<rparr>))))"

text \<open>The loop over the schedule that \<open>sched_remove\<close> and \<open>sched_block\<close> share: the position of the first thread with the
  identifier.\<close>

fun find_scheduled :: "thread_heap \<Rightarrow> nat list \<Rightarrow> nat \<Rightarrow> u64 \<Rightarrow> nat option result" where
  "find_scheduled h [] i k = Inr None"
| "find_scheduled h (p # ps) i k =
     and_then (get_thread h p) (\<lambda>t. if th_id t = k then Inr (Some i) else find_scheduled h ps (Suc i) k)"

definition unschedule :: "sched_frg \<Rightarrow> sched \<Rightarrow> u64 \<Rightarrow> sched result" where
  "unschedule F s k =
     and_then (find_scheduled (sc_heap s) (sc_schedule s) 0 k) (\<lambda>r.
       (case r of
          None \<Rightarrow> Inr s
        | Some i \<Rightarrow> Inr (s\<lparr>sc_schedule := fl_erase (sched_list F) (sc_schedule s) i\<rparr>)))"

definition delete_thread ::
  "'s arch_mm_ops \<Rightarrow> vm_frg \<Rightarrow> 's \<Rightarrow> sched \<Rightarrow> nat option \<Rightarrow> ('s \<times> sched) result" where
  "delete_thread A V st s ptr =
     (case ptr of
        None \<Rightarrow> Inr (st, s)
      | Some p \<Rightarrow>
          and_then (get_thread (sc_heap s) p) (\<lambda>t.
          and_then (delete_address_space A V st (th_addr_space t)) (\<lambda>(st, _).
            Inr (st, s\<lparr>sc_heap := (sc_heap s)[p := None]\<rparr>))))"

definition sched_remove ::
  "'s arch_mm_ops \<Rightarrow> vm_frg \<Rightarrow> sched_frg \<Rightarrow> 's \<Rightarrow> sched \<Rightarrow> u64 \<Rightarrow> ('s \<times> sched) result" where
  "sched_remove A V F st s k =
     and_then (spin_lock (sc_lock s)) (\<lambda>l.
     and_then (unschedule F (s\<lparr>sc_lock := l\<rparr>) k) (\<lambda>s.
       let (item, m) = fm_remove (thread_map F) (sc_threads s) k;
           s = s\<lparr>sc_threads := m\<rparr>
       in and_then (case item of None \<Rightarrow> Inr (st, s) | Some ptr \<Rightarrow> delete_thread A V st s ptr) (\<lambda>(st, s).
            Inr (st, s\<lparr>sc_lock := spin_unlock (sc_lock s)\<rparr>))))"

definition sched_run :: "sched_frg \<Rightarrow> sched \<Rightarrow> u64 \<Rightarrow> sched result" where
  "sched_run F s k =
     and_then (spin_lock (sc_lock s)) (\<lambda>l.
     and_then (thread_at F (s\<lparr>sc_lock := l\<rparr>) k) (\<lambda>(p, t, s).
       Inr (s\<lparr>sc_schedule := fl_push_back (sched_list F) (sc_schedule s) p, sc_lock := spin_unlock (sc_lock s)\<rparr>)))"

text \<open>\<open>sched_stop(id)\<close> is \<open>sched_block(id, state::stopped)\<close>, and \<open>sched_block\<close> calls \<open>sched_stop\<close> with the lock held.\<close>

function sched_block :: "sched_frg \<Rightarrow> sched \<Rightarrow> u64 \<Rightarrow> thread_state \<Rightarrow> sched result" where
  "sched_block F s k reason =
     (case spin_lock (sc_lock s) of
        Inl e \<Rightarrow> Inl e
      | Inr l \<Rightarrow>
          (case unschedule F (s\<lparr>sc_lock := l\<rparr>) k of
             Inl e \<Rightarrow> Inl e
           | Inr s \<Rightarrow>
               (case sched_block F s k stopped of
                  Inl e \<Rightarrow> Inl e
                | Inr s \<Rightarrow>
                    and_then (thread_at F s k) (\<lambda>(p, t, s).
                      Inr ((put_thread s p (t\<lparr>th_state := reason\<rparr>))\<lparr>sc_lock := spin_unlock (sc_lock s)\<rparr>)))))"
  by pat_completeness auto
termination
  by (relation "measure (\<lambda>(F, s, k, reason). if sc_lock s then 0 else 1)")
     (auto simp: spin_lock_def unschedule_def and_then_Inr_iff split: if_splits option.splits)

definition sched_stop :: "sched_frg \<Rightarrow> sched \<Rightarrow> u64 \<Rightarrow> sched result" where
  "sched_stop F s k = sched_block F s k stopped"

section \<open>Access to threads\<close>

definition sched_page_fault ::
  "'s arch_mm_ops \<Rightarrow> sched_frg \<Rightarrow> nat \<Rightarrow> 's \<Rightarrow> sched \<Rightarrow> u64 \<Rightarrow> ('s \<times> sched) result" where
  "sched_page_fault A F cpu st s address =
     (if length (sc_procs s) \<le> cpu then Inl OutOfBounds
      else kassert (cpu_running (sc_procs s ! cpu))
        (and_then (thread_at F s (current_thread (sc_procs s ! cpu))) (\<lambda>(p, t, s).
         and_then (space_fault_hit A st (th_addr_space t) address) (\<lambda>(b, st, a).
           if \<not> b then Inl Panic else Inr (st, put_thread s p (t\<lparr>th_addr_space := a\<rparr>))))))"

definition page_fault_sink ::
  "'s arch_mm_ops \<Rightarrow> sched_frg \<Rightarrow> nat \<Rightarrow> 's \<Rightarrow> sched \<Rightarrow> u64 \<Rightarrow> ('s \<times> sched) result" where
  "page_fault_sink A F cpu st s address = sched_page_fault A F cpu st s address"

text \<open>\<open>sched_get\<close> returns a guard: the thread with its access lock held, to be released by \<open>guard_release\<close>.\<close>

definition sched_get :: "sched_frg \<Rightarrow> sched \<Rightarrow> u64 \<Rightarrow> (nat \<times> sched) result" where
  "sched_get F s k =
     (let (ptr, m) = fm_index (thread_map F) (sc_threads s) k
      in (case ptr of
            None \<Rightarrow> Inl AssertFailed
          | Some p \<Rightarrow>
              and_then (get_thread (sc_heap s) p) (\<lambda>t.
              and_then (spin_lock (th_access_lock t)) (\<lambda>l.
                Inr (p, put_thread (s\<lparr>sc_threads := m\<rparr>) p (t\<lparr>th_access_lock := l\<rparr>))))))"

definition guard_release :: "sched \<Rightarrow> nat \<Rightarrow> sched result" where
  "guard_release s p =
     and_then (get_thread (sc_heap s) p) (\<lambda>t.
       Inr (put_thread s p (t\<lparr>th_access_lock := spin_unlock (th_access_lock t)\<rparr>)))"

definition sched_this :: "sched_frg \<Rightarrow> nat \<Rightarrow> sched \<Rightarrow> (nat \<times> sched) result" where
  "sched_this F cpu s =
     (if length (sc_procs s) \<le> cpu then Inl OutOfBounds
      else kassert (cpu_running (sc_procs s ! cpu)) (sched_get F s (current_thread (sc_procs s ! cpu))))"

section \<open>The contract of the containers\<close>

locale sched_containers =
  tm: frg_map "thread_map F" None + sl: frg_list "sched_list F" +
  pv: frg_vector "procs_vector F" "\<lparr>current_thread = 0, cpu_running = False\<rparr>"
  for F :: sched_frg

definition ref_sched :: sched_frg where
  "ref_sched = \<lparr>thread_map = ref_map None, sched_list = ref_list,
     procs_vector = ref_vector \<lparr>current_thread = 0, cpu_running = False\<rparr>\<rparr>"

interpretation refsched: sched_containers ref_sched
  by unfold_locales
     (simp_all add: ref_sched_def refvec.vec_push_back refvec.vec_resize refmap.index_present refmap.index_missing
       refmap.insert_entry refmap.remove_entry reflist.list_laws)

section \<open>Threads in the heap\<close>

lemma get_thread_put:
  "get_thread h p = Inr t \<Longrightarrow> get_thread (h[p := Some t']) q = (if q = p then Inr t' else get_thread h q)"
  by (auto simp: get_thread_def split: if_splits option.splits)

lemma put_thread_sel [simp]:
  "sc_threads (put_thread s p t) = sc_threads s" "sc_schedule (put_thread s p t) = sc_schedule s"
  "sc_procs (put_thread s p t) = sc_procs s" "sc_lock (put_thread s p t) = sc_lock s"
  "sc_idx (put_thread s p t) = sc_idx s" "sc_heap (put_thread s p t) = (sc_heap s)[p := Some t]"
  "sc_next_id (put_thread s p t) = sc_next_id s" "sc_ready (put_thread s p t) = sc_ready s"
  by (simp_all add: put_thread_def)

context sched_containers
begin

lemma thread_at_present:
  assumes "sc_threads s k = Some (Some p)" "get_thread (sc_heap s) p = Inr t"
  shows "thread_at F s k = Inr (p, t, s)"
proof -
  have "fm_index (thread_map F) (sc_threads s) k = (Some p, sc_threads s)"
    by (rule tm.index_present) (rule assms(1))
  then show ?thesis using assms(2) by (simp add: thread_at_def)
qed

lemma thread_at_Inr:
  assumes "thread_at F s k = Inr (p, t, s')"
  shows "sc_threads s k = Some (Some p)" "get_thread (sc_heap s) p = Inr t" "s' = s"
proof -
  obtain x m where i: "fm_index (thread_map F) (sc_threads s) k = (x, m)" by fastforce
  then obtain q where q: "x = Some q" using assms by (cases x) (auto simp: thread_at_def)
  have k: "sc_threads s k = Some (Some q)"
    using i q tm.index_missing [of "sc_threads s" k] tm.index_present [of "sc_threads s" k]
    by (cases "sc_threads s k") auto
  then have m: "m = sc_threads s" using i tm.index_present [of "sc_threads s" k] by fastforce
  show "sc_threads s k = Some (Some p)" "get_thread (sc_heap s) p = Inr t" "s' = s"
    using assms i q k m by (auto simp: thread_at_def and_then_Inr_iff)
qed

end

section \<open>Choosing the next thread\<close>

text \<open>A thread that is scheduled and waits for a CPU.\<close>

definition waiting :: "thread_heap \<Rightarrow> nat \<Rightarrow> bool" where
  "waiting h p \<longleftrightarrow> (\<exists>t. get_thread h p = Inr t \<and> th_running_on t = -1)"

definition live :: "thread_heap \<Rightarrow> nat \<Rightarrow> bool" where
  "live h p \<longleftrightarrow> (\<exists>t. get_thread h p = Inr t)"

lemma scan_schedule_spec:
  assumes "\<forall>p\<in>set ps. live h p" "unat i + length ps < 2 ^ 64"
  shows "scan_schedule h ps i idx = Inr None \<and>
      (\<forall>j<length ps. unat idx \<le> unat i + j \<longrightarrow> \<not> waiting h (ps ! j)) \<or>
    (\<exists>j t. j < length ps \<and> scan_schedule h ps i idx = Inr (Some (i + of_nat j, th_id t)) \<and> unat idx \<le> unat i + j \<and>
       get_thread h (ps ! j) = Inr t \<and> th_running_on t = -1 \<and>
       (\<forall>k<j. unat idx \<le> unat i + k \<longrightarrow> \<not> waiting h (ps ! k)))"
  using assms
proof (induction ps arbitrary: i)
  case (Cons p ps)
  obtain t where t: "get_thread h p = Inr t" using Cons.prems(1) by (auto simp: live_def)
  have i1: "unat (i + 1) = unat i + 1" using Cons.prems(2) unat_add_less [of i 1] by simp
  have first: "\<not> waiting h p" if "\<not> i < idx" "th_running_on t \<noteq> -1" using t that by (simp add: waiting_def)
  show ?case
  proof (cases "\<not> i < idx \<and> th_running_on t = -1")
    case True
    then show ?thesis using t by (intro disjI2 exI [of _ 0] exI [of _ t]) (auto simp: word_less_nat_alt)
  next
    case False
    then have step: "scan_schedule h (p # ps) i idx = scan_schedule h ps (i + 1) idx" using t by auto
    have nw: "unat idx \<le> unat i \<Longrightarrow> \<not> waiting h p" using False first by (auto simp: word_less_nat_alt)
    have IH: "scan_schedule h ps (i + 1) idx = Inr None \<and>
        (\<forall>j<length ps. unat idx \<le> unat (i + 1) + j \<longrightarrow> \<not> waiting h (ps ! j)) \<or>
      (\<exists>j t. j < length ps \<and> scan_schedule h ps (i + 1) idx = Inr (Some (i + 1 + of_nat j, th_id t)) \<and>
        unat idx \<le> unat (i + 1) + j \<and> get_thread h (ps ! j) = Inr t \<and> th_running_on t = -1 \<and>
        (\<forall>k<j. unat idx \<le> unat (i + 1) + k \<longrightarrow> \<not> waiting h (ps ! k)))"
      using Cons.prems i1 by (intro Cons.IH) simp_all
    then show ?thesis
    proof (elim disjE conjE exE)
      assume "scan_schedule h ps (i + 1) idx = Inr None"
        "\<forall>j<length ps. unat idx \<le> unat (i + 1) + j \<longrightarrow> \<not> waiting h (ps ! j)"
      then show ?thesis using step nw i1 by (auto simp: less_Suc_eq_0_disj nth_Cons')
    next
      fix j t
      assume j: "j < length ps" "scan_schedule h ps (i + 1) idx = Inr (Some (i + 1 + of_nat j, th_id t))"
        "unat idx \<le> unat (i + 1) + j" "get_thread h (ps ! j) = Inr t" "th_running_on t = -1"
        "\<forall>k<j. unat idx \<le> unat (i + 1) + k \<longrightarrow> \<not> waiting h (ps ! k)"
      then show ?thesis
        using step nw i1 by (intro disjI2 exI [of _ "Suc j"] exI [of _ t]) (auto simp: less_Suc_eq_0_disj)
    qed
  qed
qed simp

lemma get_next_spec:
  assumes "\<forall>p\<in>set (sc_schedule s). live (sc_heap s) p" "length (sc_schedule s) < 2 ^ 64"
  shows "get_next_thread_to_run s = Inr (None, s\<lparr>sc_idx := 0\<rparr>) \<and>
      (\<forall>p\<in>set (sc_schedule s). \<not> waiting (sc_heap s) p) \<or>
    (\<exists>j t. j < length (sc_schedule s) \<and>
       get_next_thread_to_run s = Inr (Some (th_id t), s\<lparr>sc_idx := of_nat j\<rparr>) \<and>
       get_thread (sc_heap s) (sc_schedule s ! j) = Inr t \<and> th_running_on t = -1 \<and>
       (\<forall>k<j. waiting (sc_heap s) (sc_schedule s ! k) \<longrightarrow> k < unat (sc_idx s)) \<and>
       (j < unat (sc_idx s) \<longrightarrow>
          (\<forall>k<length (sc_schedule s). waiting (sc_heap s) (sc_schedule s ! k) \<longrightarrow> k < unat (sc_idx s))))"
proof -
  let ?h = "sc_heap s" and ?ps = "sc_schedule s"
  have b: "unat (0 :: u64) + length ?ps < 2 ^ 64" using assms(2) by simp
  note A = scan_schedule_spec [OF assms(1) b, of "sc_idx s"] and B = scan_schedule_spec [OF assms(1) b, of 0]
  from A show ?thesis
  proof (elim disjE conjE exE)
    assume n: "scan_schedule ?h ?ps 0 (sc_idx s) = Inr None"
      "\<forall>j<length ?ps. unat (sc_idx s) \<le> unat (0 :: u64) + j \<longrightarrow> \<not> waiting ?h (?ps ! j)"
    from B show ?thesis
    proof (elim disjE conjE exE)
      assume "scan_schedule ?h ?ps 0 0 = Inr None"
        "\<forall>j<length ?ps. unat (0 :: u64) \<le> unat (0 :: u64) + j \<longrightarrow> \<not> waiting ?h (?ps ! j)"
      then show ?thesis using n by (auto simp: get_next_thread_to_run_def in_set_conv_nth)
    next
      fix j t
      assume j: "j < length ?ps" "scan_schedule ?h ?ps 0 0 = Inr (Some (0 + of_nat j, th_id t))"
        "get_thread ?h (?ps ! j) = Inr t" "th_running_on t = -1"
        "\<forall>k<j. unat (0 :: u64) \<le> unat (0 :: u64) + k \<longrightarrow> \<not> waiting ?h (?ps ! k)"
      then show ?thesis using n
        by (intro disjI2 exI [of _ j] exI [of _ t]) (auto simp: get_next_thread_to_run_def not_le [symmetric])
    qed
  next
    fix j t
    assume j: "j < length ?ps" "scan_schedule ?h ?ps 0 (sc_idx s) = Inr (Some (0 + of_nat j, th_id t))"
      "unat (sc_idx s) \<le> unat (0 :: u64) + j" "get_thread ?h (?ps ! j) = Inr t" "th_running_on t = -1"
      "\<forall>k<j. unat (sc_idx s) \<le> unat (0 :: u64) + k \<longrightarrow> \<not> waiting ?h (?ps ! k)"
    then show ?thesis
      by (intro disjI2 exI [of _ j] exI [of _ t]) (auto simp: get_next_thread_to_run_def not_le [symmetric])
  qed
qed

text \<open>C19. The choice of the next thread always comes to an end: it finds none exactly when every scheduled thread is on some
  CPU, and otherwise the first waiting thread at or after the remembered position, or failing that the first from
  the start, whose position it remembers.\<close>

theorem next_thread_found:
  assumes "\<forall>p\<in>set (sc_schedule s). live (sc_heap s) p" "length (sc_schedule s) < 2 ^ 64"
  shows "get_next_thread_to_run s = Inr (None, s\<lparr>sc_idx := 0\<rparr>) \<and>
      (\<forall>p\<in>set (sc_schedule s). \<not> waiting (sc_heap s) p) \<or>
    (\<exists>j t. j < length (sc_schedule s) \<and>
       get_next_thread_to_run s = Inr (Some (th_id t), s\<lparr>sc_idx := of_nat j\<rparr>) \<and>
       get_thread (sc_heap s) (sc_schedule s ! j) = Inr t \<and> th_running_on t = -1 \<and>
       (\<forall>k<j. waiting (sc_heap s) (sc_schedule s ! k) \<longrightarrow> k < unat (sc_idx s)) \<and>
       (j < unat (sc_idx s) \<longrightarrow>
          (\<forall>k<length (sc_schedule s). waiting (sc_heap s) (sc_schedule s ! k) \<longrightarrow> k < unat (sc_idx s))))"
  by (rule get_next_spec [OF assms])

section \<open>Blocking\<close>

lemma find_scheduled_live:
  "\<forall>p\<in>set ps. live h p \<Longrightarrow> \<exists>r. find_scheduled h ps i k = Inr r \<and> (\<forall>j. r = Some j \<longrightarrow> j < i + length ps)"
proof (induction ps arbitrary: i)
  case (Cons p ps)
  then obtain t where "get_thread h p = Inr t" by (auto simp: live_def)
  then show ?case using Cons.IH [of "Suc i"] Cons.prems by auto
qed simp

text \<open>\<open>sched_block\<close> and \<open>sched_stop\<close> call each other with the scheduler's lock held: every call of either deadlocks, so no
  thread can ever be blocked or stopped.\<close>

theorem block_deadlocks:
  assumes "\<forall>p\<in>set (sc_schedule s). live (sc_heap s) p"
  shows "sched_block F s k reason = Inl Deadlock \<and> sched_stop F s k = Inl Deadlock"
proof -
  have held: "sched_block F s k r = Inl Deadlock" if "sc_lock s" for s r
    using that by (simp add: spin_lock_def)
  obtain r where "find_scheduled (sc_heap s) (sc_schedule s) 0 k = Inr r"
    using find_scheduled_live [OF assms] by blast
  then obtain s' where s': "unschedule F (s\<lparr>sc_lock := True\<rparr>) k = Inr s'" "sc_lock s'"
    by (cases r) (auto simp: unschedule_def)
  have "sched_block F s k r = Inl Deadlock" for r
  proof (cases "sc_lock s")
    case False
    then show ?thesis using s' held [of s' stopped] by (subst sched_block.simps) (simp add: spin_lock_def del: sched_block.simps)
  qed (rule held)
  then show ?thesis by (simp add: sched_stop_def del: sched_block.simps)
qed

section \<open>One thread, one CPU\<close>

text \<open>The identifier stored in a scheduled thread leads back to it. A CPU that runs a thread is the one the thread
  records.\<close>

definition ids_ok :: "sched \<Rightarrow> bool" where
  "ids_ok s \<longleftrightarrow> (\<forall>p\<in>set (sc_schedule s). \<exists>t. get_thread (sc_heap s) p = Inr t \<and>
     sc_threads s (th_id t) = Some (Some p))"

definition cpu_inv :: "sched \<Rightarrow> nat set \<Rightarrow> bool" where
  "cpu_inv s C \<longleftrightarrow> length (sc_procs s) \<le> 2 ^ 31 \<and>
     (\<forall>c\<in>C. c < length (sc_procs s) \<longrightarrow> cpu_running (sc_procs s ! c) \<longrightarrow>
       (\<exists>p t. sc_threads s (current_thread (sc_procs s ! c)) = Some (Some p) \<and> get_thread (sc_heap s) p = Inr t \<and>
          th_running_on t = of_nat c))"

lemma ids_ok_put:
  assumes "ids_ok s" "get_thread (sc_heap s) p = Inr t" "th_id t' = th_id t"
  shows "ids_ok (put_thread s p t')"
  using assms by (fastforce simp: ids_ok_def get_thread_put [OF assms(2)])

lemma of_nat_cint_inj:
  "c < 2 ^ 31 \<Longrightarrow> d < 2 ^ 31 \<Longrightarrow> (of_nat c :: cint) = of_nat d \<longleftrightarrow> c = d"
  by (simp add: word_of_nat_eq_iff take_bit_nat_eq_self)

lemma of_nat_cint_not_m1:
  assumes "c < 2 ^ 31" shows "(of_nat c :: cint) \<noteq> -1"
proof
  assume "(of_nat c :: cint) = -1"
  then have "unat (of_nat c :: cint) = unat (-1 :: cint)" by simp
  then show False using assms by (simp add: unat_of_nat unsigned_minus_1_eq_mask mask_eq_exp_minus_1)
qed

text \<open>Changing a thread that no CPU of the set runs, or one that none but \<open>c\<close> runs, keeps the others.\<close>

lemma cpu_inv_put:
  assumes inv: "cpu_inv s C" and t: "get_thread (sc_heap s) p = Inr t"
    and free: "\<And>c. c \<in> C \<Longrightarrow> c < length (sc_procs s) \<Longrightarrow> th_running_on t \<noteq> of_nat c"
  shows "cpu_inv (put_thread s p t') C"
  unfolding cpu_inv_def
proof (intro conjI ballI impI)
  show "length (sc_procs (put_thread s p t')) \<le> 2 ^ 31" using inv by (simp add: cpu_inv_def)
next
  fix c assume c: "c \<in> C" "c < length (sc_procs (put_thread s p t'))" "cpu_running (sc_procs (put_thread s p t') ! c)"
  then obtain q u where q: "sc_threads s (current_thread (sc_procs s ! c)) = Some (Some q)"
    "get_thread (sc_heap s) q = Inr u" "th_running_on u = of_nat c"
    using inv by (auto simp: cpu_inv_def)
  then have "q \<noteq> p" using t free [of c] c by auto
  then show "\<exists>q u. sc_threads (put_thread s p t') (current_thread (sc_procs (put_thread s p t') ! c)) = Some (Some q) \<and>
      get_thread (sc_heap (put_thread s p t')) q = Inr u \<and> th_running_on u = of_nat c"
    using q by (simp add: get_thread_put [OF t])
qed

lemma cpu_inv_mono: "cpu_inv s C \<Longrightarrow> D \<subseteq> C \<Longrightarrow> cpu_inv s D"
  by (auto simp: cpu_inv_def)

lemma cpu_inv_cong:
  "sc_threads s' = sc_threads s \<Longrightarrow> sc_procs s' = sc_procs s \<Longrightarrow> sc_heap s' = sc_heap s \<Longrightarrow> cpu_inv s' C = cpu_inv s C"
  by (simp add: cpu_inv_def)

lemma ids_ok_cong:
  "sc_threads s' = sc_threads s \<Longrightarrow> sc_schedule s' = sc_schedule s \<Longrightarrow> sc_heap s' = sc_heap s \<Longrightarrow> ids_ok s' = ids_ok s"
  by (simp add: ids_ok_def)

lemma ids_ok_live: "ids_ok s \<Longrightarrow> \<forall>p\<in>set (sc_schedule s). live (sc_heap s) p"
  by (auto simp: ids_ok_def live_def)

text \<open>Giving CPU \<open>c\<close> a thread that no other CPU runs.\<close>

lemma cpu_inv_assign:
  assumes inv: "cpu_inv s (- {c})" and c: "c < length (sc_procs s)"
    and k: "sc_threads s k = Some (Some p)" "get_thread (sc_heap s) p = Inr t" "th_running_on t = -1"
  shows "cpu_inv (put_thread (s\<lparr>sc_procs := (sc_procs s)[c := \<lparr>current_thread = k, cpu_running = True\<rparr>]\<rparr>) p
    (t\<lparr>th_running_on := of_nat c\<rparr>)) UNIV"
proof -
  let ?s1 = "s\<lparr>sc_procs := (sc_procs s)[c := \<lparr>current_thread = k, cpu_running = True\<rparr>]\<rparr>"
  let ?s2 = "put_thread ?s1 p (t\<lparr>th_running_on := of_nat c\<rparr>)"
  have l: "length (sc_procs s) \<le> 2 ^ 31" using inv by (simp add: cpu_inv_def)
  have "cpu_inv ?s1 (- {c})" using inv by (auto simp: cpu_inv_def)
  then have o: "cpu_inv ?s2 (- {c})"
  proof (rule cpu_inv_put)
    fix d assume "d < length (sc_procs ?s1)"
    then show "th_running_on t \<noteq> of_nat d" using k(3) l of_nat_cint_not_m1 [of d] by auto
  qed (simp add: k)
  then show ?thesis using k c l unfolding cpu_inv_def
    by (auto simp: get_thread_put [OF k(2)] nth_list_update)
qed

context sched_containers
begin

lemma save_current_inv:
  assumes "ids_ok s" "cpu_inv s UNIV" "c < length (sc_procs s)" "cpu_running (sc_procs s ! c)"
  shows "\<exists>s'. save_current F s (current_thread (sc_procs s ! c)) st = Inr s' \<and> ids_ok s' \<and> cpu_inv s' (- {c}) \<and>
    sc_procs s' = sc_procs s \<and> sc_schedule s' = sc_schedule s \<and> sc_lock s' = sc_lock s \<and> sc_threads s' = sc_threads s \<and>
    sc_idx s' = sc_idx s"
proof -
  let ?k = "current_thread (sc_procs s ! c)"
  obtain p t where p: "sc_threads s ?k = Some (Some p)" "get_thread (sc_heap s) p = Inr t" "th_running_on t = of_nat c"
    using assms by (auto simp: cpu_inv_def)
  have l: "length (sc_procs s) \<le> 2 ^ 31" using assms(2) by (simp add: cpu_inv_def)
  let ?t1 = "t\<lparr>th_task := load_irq_state (th_task t) st\<rparr>"
  let ?s1 = "put_thread s p ?t1"
  let ?s2 = "put_thread ?s1 p (?t1\<lparr>th_running_on := -1\<rparr>)"
  have t1: "get_thread (sc_heap ?s1) p = Inr ?t1" using p(2) by (simp add: get_thread_put)
  have "save_current F s ?k st = Inr ?s2"
    using thread_at_present [OF p(1,2)] thread_at_present [of ?s1 ?k p ?t1] p(1) t1 by (simp add: save_current_def)
  moreover have "ids_ok ?s1" by (rule ids_ok_put [OF assms(1) p(2)]) simp
  then have "ids_ok ?s2" by (rule ids_ok_put [OF _ t1]) simp
  moreover have "cpu_inv ?s2 (- {c})"
  proof (intro cpu_inv_put [of ?s1, OF _ t1] cpu_inv_put [of s, OF _ p(2)])
    show "cpu_inv s (- {c})" using assms(2) cpu_inv_mono by blast
  next
    fix d assume d: "d \<in> - {c}" "d < length (sc_procs s)"
    then show "th_running_on t \<noteq> of_nat d" using p(3) assms(3) l of_nat_cint_inj [of c d] by auto
  next
    fix d assume d: "d \<in> - {c}" "d < length (sc_procs ?s1)"
    then show "th_running_on ?t1 \<noteq> of_nat d" using p(3) assms(3) l of_nat_cint_inj [of c d] by auto
  qed
  ultimately show ?thesis by auto
qed

lemma resched_assign:
  assumes "ids_ok s" "cpu_inv s (- {c})" "c < length (sc_procs s)" "p \<in> set (sc_schedule s)"
    "get_thread (sc_heap s) p = Inr t" "th_running_on t = -1"
  defines "s1 \<equiv> s\<lparr>sc_procs := (sc_procs s)[c := \<lparr>current_thread = th_id t, cpu_running = True\<rparr>]\<rparr>"
  defines "s2 \<equiv> (put_thread s1 p (t\<lparr>th_running_on := of_nat c\<rparr>))\<lparr>sc_lock := False\<rparr>"
  shows "thread_at F s1 (th_id t) = Inr (p, t, s1)"
    "thread_at F s2 (th_id t) = Inr (p, t\<lparr>th_running_on := of_nat c\<rparr>, s2)" "ids_ok s2" "cpu_inv s2 UNIV"
proof -
  have k: "sc_threads s (th_id t) = Some (Some p)" using assms(1,4,5) by (auto simp: ids_ok_def)
  show "thread_at F s1 (th_id t) = Inr (p, t, s1)"
    using k assms(5) by (intro thread_at_present) (simp_all add: s1_def)
  show "thread_at F s2 (th_id t) = Inr (p, t\<lparr>th_running_on := of_nat c\<rparr>, s2)"
    using k assms(5) by (intro thread_at_present) (simp_all add: s2_def s1_def get_thread_put)
  have "ids_ok s1" using assms(1) by (simp add: s1_def ids_ok_def)
  then have "ids_ok (put_thread s1 p (t\<lparr>th_running_on := of_nat c\<rparr>))"
    by (rule ids_ok_put [where t = t]) (simp_all add: s1_def assms(5))
  then show "ids_ok s2" by (simp add: s2_def ids_ok_def)
  show "cpu_inv s2 UNIV"
    using cpu_inv_assign [OF assms(2,3) k assms(5,6)] by (simp add: s2_def s1_def cpu_inv_def)
qed

text \<open>A reschedule once the lock is taken and the state of the interrupted thread saved.\<close>

lemma resched_saved:
  assumes "\<not> sc_lock s" "c < length (sc_procs s)"
    "(if cpu_running (sc_procs s ! c) \<and> r = 0
      then save_current F (s\<lparr>sc_lock := True\<rparr>) (current_thread (sc_procs s ! c)) st else Inr (s\<lparr>sc_lock := True\<rparr>)) = Inr s1"
  shows "sched_resched F c s irq st r = and_then (get_next_thread_to_run s1) (\<lambda>(nxt, s').
      if nxt = Some (current_thread (sc_procs s ! c)) \<and> cpu_running (sc_procs s ! c)
      then and_then (thread_at F (s'\<lparr>sc_procs := (sc_procs s')[c := (sc_procs s ! c)\<lparr>cpu_running := True\<rparr>]\<rparr>) (current_thread (sc_procs s ! c)))
        (\<lambda>(p, t, s). Inr ([], (put_thread s p (t\<lparr>th_running_on := of_nat c\<rparr>))\<lparr>sc_lock := False\<rparr>))
      else (case nxt of
          Some k \<Rightarrow> and_then (thread_at F (s'\<lparr>sc_procs := (sc_procs s')[c := \<lparr>current_thread = k, cpu_running = True\<rparr>]\<rparr>) k)
            (\<lambda>(p, t, s). let s = (put_thread s p (t\<lparr>th_running_on := of_nat c\<rparr>))\<lparr>sc_lock := False\<rparr>
              in and_then (thread_at F s k) (\<lambda>(p, t, s). Inr ([DropContext, AckInterrupt irq, EnterTask (th_task t)], s)))
        | None \<Rightarrow> Inr ([DropContext, AckInterrupt irq, IdleCpu],
            s'\<lparr>sc_procs := (sc_procs s')[c := (sc_procs s ! c)\<lparr>cpu_running := False\<rparr>], sc_lock := False\<rparr>)))"
  using assms by (simp add: sched_resched_def spin_lock_def Let_def)

lemma resched_inv:
  assumes "ids_ok s" "cpu_inv s UNIV" "\<not> sc_lock s" "c < length (sc_procs s)" "length (sc_schedule s) < 2 ^ 64"
  shows "\<exists>calls s'. sched_resched F c s irq st r = Inr (calls, s') \<and> ids_ok s' \<and> cpu_inv s' UNIV \<and> \<not> sc_lock s' \<and>
    length (sc_procs s') = length (sc_procs s) \<and>
    (IdleCpu \<in> set calls \<longrightarrow> (\<forall>p\<in>set (sc_schedule s'). \<not> waiting (sc_heap s') p))"
proof -
  let ?d = "sc_procs s ! c" and ?s0 = "s\<lparr>sc_lock := True\<rparr>"
  let ?first = "if cpu_running ?d \<and> r = 0 then save_current F ?s0 (current_thread ?d) st else Inr ?s0"
  have i0: "ids_ok ?s0" "cpu_inv ?s0 UNIV" using assms(1,2) by (simp_all add: ids_ok_def cpu_inv_def)
  obtain s1 where s1: "?first = Inr s1" and i1: "ids_ok s1" "cpu_inv s1 (- {c})" and
    eq: "sc_procs s1 = sc_procs s" "sc_schedule s1 = sc_schedule s"
  proof (cases "cpu_running ?d \<and> r = 0")
    case True
    then show ?thesis using save_current_inv [OF i0, of c st] assms(4) that by auto
  next
    case False
    show ?thesis using that [of ?s0] False i0 cpu_inv_mono [OF i0(2), of "- {c}"] by (simp only: if_False) simp
  qed
  note unf = resched_saved [OF assms(3,4) s1, of irq]
  have len: "length (sc_schedule s1) < 2 ^ 64" using eq assms(5) by simp
  from get_next_spec [OF ids_ok_live [OF i1(1)] len] show ?thesis
  proof (elim disjE conjE exE)
    assume n: "get_next_thread_to_run s1 = Inr (None, s1\<lparr>sc_idx := 0\<rparr>)"
      "\<forall>p\<in>set (sc_schedule s1). \<not> waiting (sc_heap s1) p"
    let ?s2 = "s1\<lparr>sc_idx := 0, sc_procs := (sc_procs s)[c := ?d\<lparr>cpu_running := False\<rparr>], sc_lock := False\<rparr>"
    have "sched_resched F c s irq st r = Inr ([DropContext, AckInterrupt irq, IdleCpu], ?s2)"
      unfolding unf using n eq by simp
    moreover have "cpu_inv ?s2 UNIV" using i1(2) eq assms(4) by (auto simp: cpu_inv_def nth_list_update)
    moreover have "ids_ok ?s2" using i1(1) by (simp add: ids_ok_def)
    ultimately show ?thesis using n eq by auto
  next
    fix j t
    assume j: "j < length (sc_schedule s1)"
      "get_next_thread_to_run s1 = Inr (Some (th_id t), s1\<lparr>sc_idx := of_nat j\<rparr>)"
      "get_thread (sc_heap s1) (sc_schedule s1 ! j) = Inr t" "th_running_on t = -1"
    let ?s2 = "s1\<lparr>sc_idx := of_nat j\<rparr>" and ?p = "sc_schedule s1 ! j"
    let ?s3 = "?s2\<lparr>sc_procs := (sc_procs ?s2)[c := \<lparr>current_thread = th_id t, cpu_running = True\<rparr>]\<rparr>"
    let ?s4 = "(put_thread ?s3 ?p (t\<lparr>th_running_on := of_nat c\<rparr>))\<lparr>sc_lock := False\<rparr>"
    have i2: "ids_ok ?s2" "cpu_inv ?s2 (- {c})" "c < length (sc_procs ?s2)" "?p \<in> set (sc_schedule ?s2)"
      "get_thread (sc_heap ?s2) ?p = Inr t"
      using i1 j eq assms(4) by (simp_all add: ids_ok_def cpu_inv_def)
    note as = resched_assign [OF i2 j(4)]
    have "\<exists>calls. sched_resched F c s irq st r = Inr (calls, ?s4) \<and> IdleCpu \<notin> set calls"
    proof (cases "th_id t = current_thread ?d \<and> cpu_running ?d")
      case True
      then have "?d = \<lparr>current_thread = th_id t, cpu_running = True\<rparr>" by (cases ?d) simp
      then show ?thesis unfolding unf using j(2) as(1) by simp
    next
      case False
      then show ?thesis unfolding unf using j(2) as(1,2) by (auto simp: Let_def)
    qed
    then show ?thesis using as(3,4) eq by (auto simp del: put_thread_sel) (simp add: eq)
  qed
qed

end


section \<open>Identifiers are never stored\<close>

text \<open>The states of the scheduler: threads are created and added, run, removed and scheduled, their page faults are
  handled and they are looked up.\<close>

inductive sched_reach :: "'s arch_mm_ops \<Rightarrow> vm_frg \<Rightarrow> sched_frg \<Rightarrow> sched \<Rightarrow> bool" for A V F where
  boot: "sched_reach A V F boot_sched"
| init: "sched_reach A V F s \<Longrightarrow> sched_init F s n = Inr s' \<Longrightarrow> sched_reach A V F s'"
| create: "sched_reach A V F s \<Longrightarrow> sched_reach A V F (s\<lparr>sc_heap := sc_heap s @ [Some (new_thread task sp ident)]\<rparr>)"
| add: "sched_reach A V F s \<Longrightarrow> sched_add F s p = Inr (k, s') \<Longrightarrow> sched_reach A V F s'"
| run: "sched_reach A V F s \<Longrightarrow> sched_run F s k = Inr s' \<Longrightarrow> sched_reach A V F s'"
| remove: "sched_reach A V F s \<Longrightarrow> sched_remove A V F st s k = Inr (st', s') \<Longrightarrow> sched_reach A V F s'"
| resched: "sched_reach A V F s \<Longrightarrow> sched_resched F c s irq ist r = Inr (calls, s') \<Longrightarrow> sched_reach A V F s'"
| page_fault: "sched_reach A V F s \<Longrightarrow> sched_page_fault A F c st s x = Inr (st', s') \<Longrightarrow> sched_reach A V F s'"
| get: "sched_reach A V F s \<Longrightarrow> sched_get F s k = Inr (p, s') \<Longrightarrow> sched_reach A V F s'"
| release: "sched_reach A V F s \<Longrightarrow> guard_release s p = Inr s' \<Longrightarrow> sched_reach A V F s'"

definition zero_inv :: "sched \<Rightarrow> bool" where
  "zero_inv s \<longleftrightarrow> (\<forall>t. Some t \<in> set (sc_heap s) \<longrightarrow> th_id t = 0) \<and> (\<forall>d\<in>set (sc_procs s). current_thread d = 0)"

lemma get_thread_in: "get_thread h p = Inr t \<Longrightarrow> Some t \<in> set h"
  by (auto simp: get_thread_def split: if_splits option.splits) (metis nth_mem not_le)

lemma zero_inv_thread: "zero_inv s \<Longrightarrow> get_thread (sc_heap s) p = Inr t \<Longrightarrow> th_id t = 0"
  using get_thread_in by (auto simp: zero_inv_def)

lemma zero_inv_put: "zero_inv s \<Longrightarrow> th_id t = 0 \<Longrightarrow> zero_inv (put_thread s p t)"
  by (auto simp: zero_inv_def dest: set_update_subset_insert [THEN subsetD])

lemma zero_inv_cong: "sc_heap s' = sc_heap s \<Longrightarrow> sc_procs s' = sc_procs s \<Longrightarrow> zero_inv s' = zero_inv s"
  by (simp add: zero_inv_def)

lemma zero_inv_procs:
  "zero_inv s \<Longrightarrow> current_thread d = 0 \<Longrightarrow> zero_inv (s\<lparr>sc_procs := (sc_procs s)[c := d]\<rparr>)"
  by (auto simp: zero_inv_def dest: set_update_subset_insert [THEN subsetD])

lemma scan_schedule_zero:
  assumes "\<forall>t. Some t \<in> set h \<longrightarrow> th_id t = 0" "scan_schedule h ps i idx = Inr (Some (w, tid))"
  shows "tid = 0"
  using assms(2) by (induction ps arbitrary: i) (use assms(1) get_thread_in in \<open>force simp: and_then_Inr_iff split: if_splits\<close>)+

lemma get_next_zero:
  assumes "zero_inv s" "get_next_thread_to_run s = Inr (r, s')"
  shows "zero_inv s' \<and> (\<forall>tid. r = Some tid \<longrightarrow> tid = 0) \<and> sc_threads s' = sc_threads s"
proof -
  have z: "\<forall>t. Some t \<in> set (sc_heap s) \<longrightarrow> th_id t = 0" using assms(1) by (simp add: zero_inv_def)
  show ?thesis
    using assms scan_schedule_zero [OF z]
    by (fastforce simp: get_next_thread_to_run_def and_then_Inr_iff zero_inv_def split: option.splits prod.splits)
qed

context sched_containers
begin

lemma push_procs_zero: "\<forall>d\<in>set v. current_thread d = 0 \<Longrightarrow> \<forall>d\<in>set (push_procs F v n). current_thread d = 0"
proof (induction n arbitrary: v)
  case (Suc n)
  have "\<forall>d\<in>set (v @ [\<lparr>current_thread = 0, cpu_running = False\<rparr>]). current_thread d = 0" using Suc.prems by simp
  from Suc.IH [OF this] show ?case by (simp add: pv.vec_push_back)
qed simp

lemma save_current_zero:
  assumes "zero_inv s" "save_current F s k st = Inr s'"
  shows "zero_inv s'"
proof -
  obtain p t s1 where 1: "thread_at F s k = Inr (p, t, s1)"
    "and_then (thread_at F (put_thread s1 p (t\<lparr>th_task := load_irq_state (th_task t) st\<rparr>)) k)
       (\<lambda>(p, t, s). Inr (put_thread s p (t\<lparr>th_running_on := -1\<rparr>))) = Inr s'"
    using assms(2) by (auto simp: save_current_def and_then_Inr_iff)
  note e1 = thread_at_Inr [OF 1(1)]
  let ?s2 = "put_thread s p (t\<lparr>th_task := load_irq_state (th_task t) st\<rparr>)"
  have z2: "zero_inv ?s2" using assms(1) e1 zero_inv_thread zero_inv_put by simp
  obtain q u s3 where 2: "thread_at F ?s2 k = Inr (q, u, s3)" "s' = put_thread s3 q (u\<lparr>th_running_on := -1\<rparr>)"
    using 1(2) e1(3) by (auto simp: and_then_Inr_iff)
  note e2 = thread_at_Inr [OF 2(1)]
  show ?thesis using z2 e2 2(2) zero_inv_thread [OF z2 e2(2)] zero_inv_put by simp
qed

lemma resched_zero:
  assumes "zero_inv s" "sched_resched F c s irq st r = Inr (calls, s')"
  shows "zero_inv s' \<and> (\<forall>tk. EnterTask tk \<in> set calls \<longrightarrow> (\<exists>p t. sc_threads s' 0 = Some (Some p) \<and>
    get_thread (sc_heap s') p = Inr t \<and> th_task t = tk))"
proof -
  let ?d = "sc_procs s ! c"
  have c: "c < length (sc_procs s)" and lk: "\<not> sc_lock s"
    using assms(2) by (auto simp: sched_resched_def Let_def and_then_Inr_iff spin_lock_Inr_iff split: if_splits)
  have d: "current_thread ?d = 0" using assms(1) c by (simp add: zero_inv_def)
  have z0: "zero_inv (s\<lparr>sc_lock := True\<rparr>)" using assms(1) by (simp add: zero_inv_def)
  obtain s1 where s1: "(if cpu_running ?d \<and> r = 0 then save_current F (s\<lparr>sc_lock := True\<rparr>) (current_thread ?d) st
      else Inr (s\<lparr>sc_lock := True\<rparr>)) = Inr s1"
    and rest: "and_then (get_next_thread_to_run s1) (\<lambda>(nxt, s).
      if nxt = Some (current_thread ?d) \<and> cpu_running ?d
      then and_then (thread_at F (s\<lparr>sc_procs := (sc_procs s)[c := ?d\<lparr>cpu_running := True\<rparr>]\<rparr>) (current_thread ?d))
        (\<lambda>(p, t, s). Inr ([], (put_thread s p (t\<lparr>th_running_on := of_nat c\<rparr>))\<lparr>sc_lock := False\<rparr>))
      else (case nxt of
          Some k \<Rightarrow> and_then (thread_at F (s\<lparr>sc_procs := (sc_procs s)[c := \<lparr>current_thread = k, cpu_running = True\<rparr>]\<rparr>) k)
            (\<lambda>(p, t, s). let s = (put_thread s p (t\<lparr>th_running_on := of_nat c\<rparr>))\<lparr>sc_lock := False\<rparr>
              in and_then (thread_at F s k) (\<lambda>(p, t, s). Inr ([DropContext, AckInterrupt irq, EnterTask (th_task t)], s)))
        | None \<Rightarrow> Inr ([DropContext, AckInterrupt irq, IdleCpu],
            s\<lparr>sc_procs := (sc_procs s)[c := ?d\<lparr>cpu_running := False\<rparr>], sc_lock := False\<rparr>))) = Inr (calls, s')"
    using assms(2) c lk by (auto simp: sched_resched_def Let_def and_then_Inr_iff spin_lock_def)
  have z1: "zero_inv s1" using s1 z0 save_current_zero by (auto split: if_splits)
  obtain nxt s2 where n: "get_next_thread_to_run s1 = Inr (nxt, s2)" using rest by (auto simp: and_then_Inr_iff)
  have z2: "zero_inv s2" "nxt = None \<or> nxt = Some 0" using get_next_zero [OF z1 n] by (auto, metis option.exhaust)
  have zp: "zero_inv (s2\<lparr>sc_procs := (sc_procs s2)[c := e]\<rparr>)" if "current_thread e = 0" for e
    using zero_inv_procs [OF z2(1) that] .
  have step: "zero_inv ((put_thread u p (t\<lparr>th_running_on := of_nat c\<rparr>))\<lparr>sc_lock := False\<rparr>)"
    if "thread_at F (s2\<lparr>sc_procs := (sc_procs s2)[c := e]\<rparr>) k = Inr (p, t, u)" "current_thread e = 0" for e k p t u
    using thread_at_Inr [OF that(1)] zp [OF that(2)] zero_inv_thread [OF zp [OF that(2)]]
      zero_inv_put [of u "t\<lparr>th_running_on := of_nat c\<rparr>" p] by (simp add: zero_inv_def)
  consider "nxt = Some 0 \<and> cpu_running ?d" | "nxt = Some 0 \<and> \<not> cpu_running ?d" | "nxt = None" using z2(2) by auto
  then show ?thesis
  proof cases
    case 1
    then show ?thesis using rest n d step by (auto simp: and_then_Inr_iff)
  next
    case 2
    then obtain p t u v where *: "thread_at F (s2\<lparr>sc_procs := (sc_procs s2)[c := \<lparr>current_thread = 0, cpu_running = True\<rparr>]\<rparr>) 0
        = Inr (p, t, u)" "thread_at F ((put_thread u p (t\<lparr>th_running_on := of_nat c\<rparr>))\<lparr>sc_lock := False\<rparr>) 0 = Inr v"
      "calls = [DropContext, AckInterrupt irq, EnterTask (th_task (fst (snd v)))]" "s' = snd (snd v)"
      using rest n by (auto simp: and_then_Inr_iff Let_def)
    obtain p' t' u' where v: "v = (p', t', u')" by (cases v) auto
    show ?thesis using * v step [OF *(1)] thread_at_Inr [OF *(2) [unfolded v]] by auto
  next
    case 3
    then show ?thesis using rest n d zp [of "?d\<lparr>cpu_running := False\<rparr>"] by (auto simp: zero_inv_def)
  qed
qed

end

context sched_containers
begin

lemma delete_thread_zero: "zero_inv s \<Longrightarrow> delete_thread A V st s ptr = Inr (st', s') \<Longrightarrow> zero_inv s'"
  by (auto simp: delete_thread_def and_then_Inr_iff zero_inv_def split: option.splits
      dest!: set_update_subset_insert [THEN subsetD])

lemma unschedule_zero: "zero_inv s \<Longrightarrow> unschedule F s k = Inr s' \<Longrightarrow> zero_inv s'"
  by (auto simp: unschedule_def and_then_Inr_iff zero_inv_def split: option.splits)

lemma sched_remove_zero:
  assumes "zero_inv s" "sched_remove A V F st s k = Inr (st', s')"
  shows "zero_inv s'"
proof -
  obtain s1 where s1: "unschedule F (s\<lparr>sc_lock := True\<rparr>) k = Inr s1"
    and r: "(let (item, m) = fm_remove (thread_map F) (sc_threads s1) k; s = s1\<lparr>sc_threads := m\<rparr>
       in and_then (case item of None \<Rightarrow> Inr (st, s) | Some ptr \<Rightarrow> delete_thread A V st s ptr) (\<lambda>(st, s).
            Inr (st, s\<lparr>sc_lock := spin_unlock (sc_lock s)\<rparr>))) = Inr (st', s')"
    using assms(2) by (auto simp: sched_remove_def and_then_Inr_iff spin_lock_Inr_iff)
  have "zero_inv (s\<lparr>sc_lock := True\<rparr>)" using assms(1) by (simp add: zero_inv_def)
  then have "zero_inv s1" using s1 unschedule_zero by blast
  then have z: "zero_inv (s1\<lparr>sc_threads := m\<rparr>)" for m by (simp add: zero_inv_def)
  let ?s2 = "s1\<lparr>sc_threads := (sc_threads s1)(k := None)\<rparr>"
  obtain s3 where s3: "(case sc_threads s1 k of None \<Rightarrow> Inr (st, ?s2) | Some ptr \<Rightarrow> delete_thread A V st ?s2 ptr) = Inr (st', s3)"
    "s' = s3\<lparr>sc_lock := spin_unlock (sc_lock s3)\<rparr>"
    using r unfolding Let_def by (auto simp: tm.remove_entry and_then_Inr_iff)
  have "zero_inv s3" using s3(1) z delete_thread_zero [OF z] by (cases "sc_threads s1 k") auto
  then show ?thesis using s3(2) by (simp add: zero_inv_def)
qed

lemma sched_add_zero: "zero_inv s \<Longrightarrow> sched_add F s p = Inr (k, s') \<Longrightarrow> zero_inv s'"
  by (auto simp: sched_add_def and_then_Inr_iff kassert_Inr_iff Let_def zero_inv_def)

lemma sched_run_zero:
  assumes "zero_inv s" "sched_run F s k = Inr s'"
  shows "zero_inv s'"
  using assms by (auto simp: sched_run_def and_then_Inr_iff zero_inv_def dest!: thread_at_Inr(3))

lemma page_fault_zero:
  assumes "zero_inv s" "sched_page_fault A F c st s x = Inr (st', s')"
  shows "zero_inv s'"
proof -
  let ?k = "current_thread (sc_procs s ! c)"
  obtain p t s1 where at: "thread_at F s ?k = Inr (p, t, s1)" and
    r: "and_then (space_fault_hit A st (th_addr_space t) x) (\<lambda>(b, st, a).
           if \<not> b then Inl Panic else Inr (st, put_thread s1 p (t\<lparr>th_addr_space := a\<rparr>))) = Inr (st', s')"
    using assms(2) by (cases "thread_at F s ?k") (auto simp: sched_page_fault_def kassert_def split: if_splits)
  then obtain a where "s' = put_thread s1 p (t\<lparr>th_addr_space := a\<rparr>)"
    by (cases "space_fault_hit A st (th_addr_space t) x") (auto split: if_splits)
  then show ?thesis using assms(1) thread_at_Inr(2,3) [OF at] zero_inv_thread [OF assms(1)] zero_inv_put by simp
qed

lemma sched_get_zero:
  assumes "zero_inv s" "sched_get F s k = Inr (p, s')"
  shows "zero_inv s'"
proof -
  obtain t m l where "get_thread (sc_heap s) p = Inr t" "s' = put_thread (s\<lparr>sc_threads := m\<rparr>) p (t\<lparr>th_access_lock := l\<rparr>)"
    using assms(2) by (auto simp: sched_get_def and_then_Inr_iff split: prod.splits option.splits)
  moreover have "zero_inv (s\<lparr>sc_threads := m\<rparr>)" using assms(1) by (simp add: zero_inv_def)
  ultimately show ?thesis using zero_inv_thread [OF assms(1)] zero_inv_put by simp
qed

lemma release_zero:
  assumes "zero_inv s" "guard_release s p = Inr s'"
  shows "zero_inv s'"
  using assms zero_inv_thread [OF assms(1)] zero_inv_put [OF assms(1)]
  by (auto simp: guard_release_def and_then_Inr_iff)

lemma sched_reach_zero: "sched_reach A V F s \<Longrightarrow> zero_inv s"
proof (induction rule: sched_reach.induct)
  case boot
  show ?case by (simp add: zero_inv_def boot_sched_def)
next
  case (init s n s')
  then show ?case using push_procs_zero [of "sc_procs s"]
    by (auto simp: sched_init_def zero_inv_def split: if_splits)
next
  case (create s task sp ident)
  then show ?case by (auto simp: zero_inv_def new_thread_def)
next
  case (add s p k s')
  then show ?case using sched_add_zero by blast
next
  case (run s k s')
  then show ?case using sched_run_zero by blast
next
  case (remove s st k st' s')
  then show ?case using sched_remove_zero [OF remove.IH remove.hyps(2)] by simp
next
  case (resched s c irq ist r calls s')
  then show ?case using resched_zero by blast
next
  case (page_fault s c st x st' s')
  then show ?case using page_fault_zero [OF page_fault.IH page_fault.hyps(2)] by simp
next
  case (get s k p s')
  then show ?case using sched_get_zero by blast
next
  case (release s p s')
  then show ?case using release_zero by blast
qed

end

text \<open>C22. \<open>sched_add\<close> hands out identifiers but never stores them in the thread: every CPU that runs anything believes it
  runs thread 0, and the only task that is ever entered is that of thread 0.\<close>

theorem only_thread_zero_runs:
  assumes "sched_containers F" "sched_reach A V F s"
  shows "(\<forall>d\<in>set (sc_procs s). current_thread d = 0) \<and>
    (\<forall>c irq st r calls s' tk. sched_resched F c s irq st r = Inr (calls, s') \<and> EnterTask tk \<in> set calls \<longrightarrow>
       (\<exists>p t. sc_threads s' 0 = Some (Some p) \<and> get_thread (sc_heap s') p = Inr t \<and> th_task t = tk))"
proof -
  have z: "zero_inv s" by (rule sched_containers.sched_reach_zero [OF assms])
  then show ?thesis using sched_containers.resched_zero [OF assms(1) z] by (auto simp: zero_inv_def)
qed

section \<open>Two threads on two CPUs\<close>

definition demo_task :: "u64 \<Rightarrow> arch_task" where
  "demo_task entry =
     \<lparr>t_state = \<lparr>c_r15 = 0, c_r14 = 0, c_r13 = 0, c_r12 = 0, c_r11 = 0, c_r10 = 0, c_r9 = 0, c_r8 = 0, c_rdi = 0, c_rsi = 0,
        c_rbp = 0, c_rdx = 0, c_rcx = 0, c_rbx = 0, c_rax = 0, c_ss = 0x1b, c_rsp = 0, c_rflags = 0x202, c_cs = 0x13,
        c_rip = entry\<rparr>, t_vmm_ctx = 0, t_io_bitmap = []\<rparr>"

definition demo_irq :: irq_cpu_state_t where
  "demo_irq =
     \<lparr>i_ds = 0x1b, i_r15 = 0, i_r14 = 0, i_r13 = 0, i_r12 = 0, i_r11 = 0, i_r10 = 0, i_r9 = 0, i_r8 = 0, i_rdi = 0, i_rsi = 0,
      i_rbp = 0, i_rdx = 0, i_rcx = 0, i_rbx = 0, i_rax = 0, i_int_no = 0x31, i_err = 0, i_rip = 0x401000, i_cs = 0x13,
      i_rflags = 0x202, i_rsp = 0, i_ss = 0x1b\<rparr>"

definition demo_thread :: "u64 \<Rightarrow> thread" where
  "demo_thread entry = new_thread (demo_task entry) \<lparr>mapped_regions = [], memory_holes = [], vmm_ctx = 0\<rparr> (0, 64)"

definition demo_sched :: sched where
  "demo_sched =
     \<lparr>sc_lock = False, sc_threads = [0 \<mapsto> Some 0, 1 \<mapsto> Some 1], sc_schedule = [0, 1], sc_next_id = 2, sc_idx = 0,
      sc_procs = [\<lparr>current_thread = 0, cpu_running = False\<rparr>, \<lparr>current_thread = 0, cpu_running = False\<rparr>],
      sc_ready = True, sc_heap = [Some (demo_thread 0x400000), Some (demo_thread 0x500000)]\<rparr>"

lemmas sched_eval = sched_init_def sched_add_def sched_run_def sched_resched_def thread_at_def get_thread_def put_thread_def
  get_next_thread_to_run_def spin_lock_def spin_unlock_def Let_def ref_sched_def ref_map_def ref_list_def ref_vector_def
  demo_thread_def new_thread_def

lemma demo_sched_reach: "sched_reach A V ref_sched demo_sched"
proof -
  let ?p = "[\<lparr>current_thread = 0, cpu_running = False\<rparr>, \<lparr>current_thread = 0, cpu_running = False\<rparr>]"
  let ?h = "[Some (demo_thread 0x400000), Some (demo_thread 0x500000)]"
  let ?s1 = "boot_sched\<lparr>sc_procs := ?p, sc_ready := True\<rparr>"
  let ?s3 = "?s1\<lparr>sc_heap := ?h\<rparr>"
  let ?s4 = "?s3\<lparr>sc_next_id := 1, sc_threads := [0 \<mapsto> Some 0], sc_lock := False\<rparr>"
  let ?s5 = "?s4\<lparr>sc_next_id := 2, sc_threads := [0 \<mapsto> Some 0, 1 \<mapsto> Some 1]\<rparr>"
  let ?s6 = "?s5\<lparr>sc_schedule := [0]\<rparr>"
  have "sched_reach A V ref_sched ?s1"
    by (rule sched_reach.init [OF sched_reach.boot, where n = 2]) (simp add: sched_eval boot_sched_def numeral_2_eq_2)
  from sched_reach.create [OF sched_reach.create [OF this, of "demo_task 0x400000"
      "\<lparr>mapped_regions = [], memory_holes = [], vmm_ctx = 0\<rparr>" "(0, 64)"], of "demo_task 0x500000"
      "\<lparr>mapped_regions = [], memory_holes = [], vmm_ctx = 0\<rparr>" "(0, 64)"]
  have "sched_reach A V ref_sched ?s3" by (simp add: boot_sched_def demo_thread_def)
  then have "sched_reach A V ref_sched ?s4"
    by (rule sched_reach.add [where p = 0 and k = 0]) (simp add: sched_eval boot_sched_def)
  then have "sched_reach A V ref_sched ?s5"
    by (rule sched_reach.add [where p = 1 and k = 1]) (simp add: sched_eval boot_sched_def)
  then have "sched_reach A V ref_sched ?s6"
    by (rule sched_reach.run [where k = 0]) (simp add: sched_eval boot_sched_def)
  then show ?thesis
    by (rule sched_reach.run [where k = 1]) (simp add: sched_eval boot_sched_def demo_sched_def)
qed

definition demo_sched_1 :: sched where
  "demo_sched_1 = demo_sched\<lparr>sc_procs := [\<lparr>current_thread = 0, cpu_running = True\<rparr>, \<lparr>current_thread = 0, cpu_running = False\<rparr>],
     sc_heap := [Some ((demo_thread 0x400000)\<lparr>th_running_on := 0\<rparr>), Some (demo_thread 0x500000)]\<rparr>"

definition demo_sched_2 :: sched where
  "demo_sched_2 = demo_sched\<lparr>sc_idx := 1,
     sc_procs := [\<lparr>current_thread = 0, cpu_running = True\<rparr>, \<lparr>current_thread = 0, cpu_running = True\<rparr>],
     sc_heap := [Some ((demo_thread 0x400000)\<lparr>th_running_on := 1\<rparr>), Some (demo_thread 0x500000)]\<rparr>"

lemma demo_resched_0:
  "sched_resched ref_sched 0 demo_sched 0x31 st 0 =
     Inr ([DropContext, AckInterrupt 0x31, EnterTask (demo_task 0x400000)], demo_sched_1)"
  by (simp add: sched_eval demo_sched_def demo_sched_1_def)

lemma demo_resched_1:
  "sched_resched ref_sched 1 demo_sched_1 0x31 st 0 =
     Inr ([DropContext, AckInterrupt 0x31, EnterTask (demo_task 0x400000)], demo_sched_2)"
  by (simp add: sched_eval demo_sched_def demo_sched_1_def demo_sched_2_def)

text \<open>Because all threads carry the identifier 0, two threads on two CPUs are enough for one task to run twice: both CPUs
  enter the task of thread 0 while the other thread never runs.\<close>

theorem one_task_on_two_cpus:
  "\<exists>s s1 s2 tk. sched_reach A V ref_sched s \<and>
     sched_resched ref_sched 0 s 0x31 st 0 = Inr ([DropContext, AckInterrupt 0x31, EnterTask tk], s1) \<and>
     sched_resched ref_sched 1 s1 0x31 st 0 = Inr ([DropContext, AckInterrupt 0x31, EnterTask tk], s2) \<and>
     cpu_running (sc_procs s2 ! 0) \<and> cpu_running (sc_procs s2 ! 1) \<and>
     current_thread (sc_procs s2 ! 0) = current_thread (sc_procs s2 ! 1)"
  using demo_sched_reach [of A V] demo_resched_0 [of st] demo_resched_1 [of st]
  by (intro exI [of _ demo_sched] exI [of _ demo_sched_1] exI [of _ demo_sched_2] exI [of _ "demo_task 0x400000"])
     (simp add: demo_sched_2_def)

theorem next_thread_found_witness:
  "\<exists>j t. get_next_thread_to_run demo_sched = Inr (Some (th_id t), demo_sched\<lparr>sc_idx := of_nat j\<rparr>) \<and>
     get_thread (sc_heap demo_sched) (sc_schedule demo_sched ! j) = Inr t \<and> th_running_on t = -1"
proof -
  have "\<forall>p\<in>set (sc_schedule demo_sched). live (sc_heap demo_sched) p"
    by (simp add: demo_sched_def live_def get_thread_def)
  moreover have "\<exists>p\<in>set (sc_schedule demo_sched). waiting (sc_heap demo_sched) p"
    by (simp add: demo_sched_def waiting_def get_thread_def demo_thread_def new_thread_def)
  ultimately show ?thesis using next_thread_found [of demo_sched] by (auto simp: demo_sched_def)
qed

theorem block_deadlocks_witness: "sched_stop ref_sched demo_sched 1 = Inl Deadlock"
  using block_deadlocks [of demo_sched ref_sched 1 stopped] by (simp add: demo_sched_def live_def get_thread_def)

theorem only_thread_zero_runs_witness:
  "\<exists>calls s' t. sched_resched ref_sched 0 demo_sched 0x31 demo_irq 0 = Inr (calls, s') \<and>
     EnterTask (demo_task 0x400000) \<in> set calls \<and> sc_threads s' 0 = Some (Some 0) \<and> th_task t = demo_task 0x400000 \<and>
     get_thread (sc_heap s') 0 = Inr t"
proof -
  have z: "sc_threads demo_sched_1 0 = Some (Some 0)" by (simp add: demo_sched_def demo_sched_1_def)
  obtain p t where "sc_threads demo_sched_1 0 = Some (Some p)" "get_thread (sc_heap demo_sched_1) p = Inr t"
    "th_task t = demo_task 0x400000"
    using only_thread_zero_runs [OF refsched.sched_containers_axioms demo_sched_reach] demo_resched_0 by fastforce
  then show ?thesis
    using demo_resched_0 z by (intro exI [of _ "[DropContext, AckInterrupt 0x31, EnterTask (demo_task 0x400000)]"]
      exI [of _ demo_sched_1] exI [of _ t]) simp
qed

text \<open>The system the kernel starts: one thread.\<close>

definition boot_thread_sched :: sched where
  "boot_thread_sched = demo_sched\<lparr>sc_schedule := [0], sc_threads := [0 \<mapsto> Some 0], sc_next_id := 1,
     sc_heap := [Some (demo_thread 0x400000)]\<rparr>"


end
