(* ===== verification/Syscalls.thy ===== *)
theory Syscalls
  imports Frames Scheduler Printf
begin

text \<open>
  System calls: \<open>kernel/syscall.cpp\<close>, the interrupt handler that receives them (\<open>arch/x86_64/arch_entry.cpp\<close>) and the user
  library \<open>duck\<close> that makes them. The state is the machine's, the scheduler's and the kernel log. What
  \<open>frg::string::resize\<close> does to a thread's name, the characters behind a kernel pointer, a store to the kernel's
  stack and the address of the stack buffer are arguments.
\<close>

section \<open>Data\<close>

definition duck_error_none :: cint where
  "duck_error_none = 0"

definition duck_error_fault :: cint where
  "duck_error_fault = 1"

definition duck_error_out_of_range :: cint where
  "duck_error_out_of_range = 2"

definition duck_error_invalid_call :: cint where
  "duck_error_invalid_call = 3"

definition duck_call_set_identity :: u64 where
  "duck_call_set_identity = 1"

definition duck_call_debug_log :: u64 where
  "duck_call_debug_log = 2"

definition duck_strerror :: "cint \<Rightarrow> string" where
  "duck_strerror c =
     (if c = duck_error_none then ''success''
      else if c = duck_error_fault then ''vm fault''
      else if c = duck_error_out_of_range then ''out of range''
      else if c = duck_error_invalid_call then ''invalid call''
      else ''invalid error'')"

record 's sys_env =
  se_mm :: "'s arch_mm_ops"
  se_resize :: "'s \<Rightarrow> frg_string \<Rightarrow> u64 \<Rightarrow> frg_string \<times> 's"
  se_string :: "'s \<Rightarrow> u64 \<Rightarrow> string"
  se_poke :: "'s \<Rightarrow> u64 \<Rightarrow> u8 \<Rightarrow> 's"
  se_buf :: u64

record 's sys_state =
  ss_mem :: 's
  ss_sched :: sched
  ss_log :: kmesg_state

section \<open>The calls\<close>

definition duck_set_identity ::
  "'s sys_env \<Rightarrow> sched_frg \<Rightarrow> nat \<Rightarrow> 's sys_state \<Rightarrow> u64 \<Rightarrow> u64 \<Rightarrow> (cint \<times> 's sys_state) result" where
  "duck_set_identity E F cpu s ident len =
     and_then (kmesg (se_string E (ss_mem s)) (ss_log s) ''syscall'' ''in duck_set_identity'' []) (\<lambda>lg.
     and_then (sched_this F cpu (ss_sched s)) (\<lambda>(p, sc).
       if len > 64
       then and_then (guard_release sc p) (\<lambda>sc. Inr (duck_error_out_of_range, s\<lparr>ss_sched := sc, ss_log := lg\<rparr>))
       else
         and_then (get_thread (sc_heap sc) p) (\<lambda>t.
           let (name, st) = se_resize E (ss_mem s) (th_identity t) len
           in and_then (space_store (se_mm E) st (th_addr_space t) ident (fst name) len) (\<lambda>(st, a).
              and_then (guard_release (put_thread sc p (t\<lparr>th_identity := name, th_addr_space := a\<rparr>)) p) (\<lambda>sc.
                Inr (duck_error_none, \<lparr>ss_mem = st, ss_sched = sc, ss_log = lg\<rparr>))))))"

definition duck_debug_log ::
  "'s sys_env \<Rightarrow> sched_frg \<Rightarrow> nat \<Rightarrow> 's sys_state \<Rightarrow> u64 \<Rightarrow> u64 \<Rightarrow> (cint \<times> 's sys_state) result" where
  "duck_debug_log E F cpu s message len =
     and_then (kmesg (se_string E (ss_mem s)) (ss_log s) ''syscall'' ''in duck_debug_log'' []) (\<lambda>lg.
     and_then (sched_this F cpu (ss_sched s)) (\<lambda>(p, sc).
       if len > 512
       then and_then (guard_release sc p) (\<lambda>sc. Inr (duck_error_out_of_range, s\<lparr>ss_sched := sc, ss_log := lg\<rparr>))
       else
         and_then (get_thread (sc_heap sc) p) (\<lambda>t.
         and_then (space_store (se_mm E) (ss_mem s) (th_addr_space t) message (se_buf E) len) (\<lambda>(st, a).
           let st = se_poke E st (se_buf E + len) 0
           in and_then (kmesg (se_string E st) lg (se_string E st (fst (th_identity t))) ''%s'' [se_buf E]) (\<lambda>lg.
              and_then (guard_release (put_thread sc p (t\<lparr>th_addr_space := a\<rparr>)) p) (\<lambda>sc.
                Inr (duck_error_none, \<lparr>ss_mem = st, ss_sched = sc, ss_log = lg\<rparr>)))))))"

text \<open>The arguments are the registers the six pointers point to; the last three and the interrupt frame are not used. The error
  code is an \<open>int\<close>, which is converted to the register with its sign.\<close>

definition syscall_invoke ::
  "'s sys_env \<Rightarrow> sched_frg \<Rightarrow> nat \<Rightarrow> 's sys_state \<Rightarrow> u64 \<Rightarrow> u64 \<Rightarrow> u64 \<Rightarrow> (u64 \<times> 's sys_state) result" where
  "syscall_invoke E F cpu s arg0 arg1 arg2 =
     (if arg0 = duck_call_set_identity
      then and_then (duck_set_identity E F cpu s arg1 arg2) (\<lambda>(r, s). Inr (scast r, s))
      else if arg0 = duck_call_debug_log
      then and_then (duck_debug_log E F cpu s arg1 arg2) (\<lambda>(r, s). Inr (scast r, s))
      else Inr (scast duck_error_invalid_call, s))"

definition syscall_irq_handler ::
  "'s sys_env \<Rightarrow> sched_frg \<Rightarrow> nat \<Rightarrow> 's sys_state \<Rightarrow> irq_cpu_state_t \<Rightarrow> (cint \<times> irq_cpu_state_t \<times> 's sys_state) result" where
  "syscall_irq_handler E F cpu s state =
     and_then (syscall_invoke E F cpu s (i_rax state) (i_rbx state) (i_rcx state)) (\<lambda>(r, s).
       Inr (1, state\<lparr>i_rax := r\<rparr>, s))"

section \<open>Messages\<close>

lemma kmesg_line:
  assumes "length src + length out + 3 < 1162"
  shows "snprintf (\<lambda>a. if a = 0 then src else out) 1162 (''%s: %s'' @ [CHR 0x0A]) [0, 1] = Inr (src @ '': '' @ out @ [CHR 0x0A])"
  using assms
  by (simp add: snprintf_def vsnprintf_def put_chars_eq read_spec_def conversion_def next_arg_def isdigit_def)

lemma kmesg_prints:
  assumes "\<not> km_lock lg" "vsnprintf strs 1024 fmt args = Inr out"
    and "CHR 0x00 \<notin> set out" "CHR 0x00 \<notin> set src" "length out < 1040" "length src + length out + 3 < 1162"
  shows "kmesg strs lg src fmt args = Inr (lg\<lparr>km_out := km_out lg @ src @ '': '' @ out @ [CHR 0x0A]\<rparr>)"
proof -
  have b: "before_nul cs = cs" if "CHR 0x00 \<notin> set cs" for cs
    using that unfolding before_nul_def takeWhile_eq_all_conv by auto
  have "CHR 0x00 \<notin> set (src @ '': '' @ out @ [CHR 0x0A])" using assms(3,4) by simp
  note n = b [OF this]
  show ?thesis
    using assms unfolding kmesg_def assms(2) and_then.simps b [OF assms(3)] kmesg_line [OF assms(6)] n by simp
qed

lemma kmesg_literal:
  assumes "\<not> km_lock lg" "CHR ''%'' \<notin> set msg" "CHR 0x00 \<notin> set msg" "length msg < 1000"
  shows "kmesg strs lg ''syscall'' msg [] = Inr (lg\<lparr>km_out := km_out lg @ ''syscall: '' @ msg @ [CHR 0x0A]\<rparr>)"
proof -
  have "vsnprintf strs 1024 msg [] = Inr msg"
    using vsnprintf_loop_literal [OF assms(2), of 1024] by (simp add: vsnprintf_def)
  from kmesg_prints [OF assms(1) this assms(3), of "''syscall''"] assms(4) show ?thesis by simp
qed

lemma kmesg_string:
  assumes "\<not> km_lock lg" "CHR 0x00 \<notin> set (strs a)" "length (strs a) \<le> 512" "CHR 0x00 \<notin> set src" "length src \<le> 64"
  shows "kmesg strs lg src ''%s'' [a] = Inr (lg\<lparr>km_out := km_out lg @ src @ '': '' @ strs a @ [CHR 0x0A]\<rparr>)"
proof -
  have "vsnprintf strs 1024 ''%s'' [a] = Inr (strs a)"
    using assms(3) by (simp add: vsnprintf_def put_chars_eq read_spec_def conversion_def next_arg_def isdigit_def)
  from kmesg_prints [OF assms(1) this assms(2,4)] assms(3,5) show ?thesis by simp
qed

section \<open>The calling thread\<close>

lemma guard_release_put:
  assumes "get_thread (sc_heap s) p = Inr t"
  shows "guard_release (put_thread s p t') p = Inr (put_thread s p (t'\<lparr>th_access_lock := False\<rparr>))"
proof -
  have "p < length (sc_heap s)" using assms by (simp add: get_thread_def split: if_splits)
  then show ?thesis by (simp add: guard_release_def get_thread_def put_thread_def spin_unlock_def)
qed

lemma put_thread_put [simp]: "put_thread (put_thread s p t) p t' = put_thread s p t'"
  by (simp add: put_thread_def)

lemma put_thread_same: "get_thread (sc_heap s) p = Inr t \<Longrightarrow> put_thread s p t = s"
  by (simp add: put_thread_def get_thread_def list_update_same_conv split: if_splits option.splits)

text \<open>The thread a CPU runs: its slot and its value.\<close>

definition runs_thread :: "sched \<Rightarrow> nat \<Rightarrow> nat \<Rightarrow> thread \<Rightarrow> bool" where
  "runs_thread s cpu p t \<longleftrightarrow>
     cpu < length (sc_procs s) \<and> cpu_running (sc_procs s ! cpu) \<and>
     sc_threads s (current_thread (sc_procs s ! cpu)) = Some (Some p) \<and> get_thread (sc_heap s) p = Inr t"

context sched_containers
begin

lemma sched_this_runs:
  assumes "runs_thread s cpu p t" "\<not> th_access_lock t"
  shows "sched_this F cpu s = Inr (p, put_thread s p (t\<lparr>th_access_lock := True\<rparr>))"
  using assms tm.index_present [of "sc_threads s" "current_thread (sc_procs s ! cpu)" "Some p"]
  by (simp add: sched_this_def runs_thread_def sched_get_def spin_lock_def)

lemma sched_this_Inr:
  assumes "sched_this F cpu s = Inr (p, s')"
  obtains t where "runs_thread s cpu p t" "\<not> th_access_lock t" "s' = put_thread s p (t\<lparr>th_access_lock := True\<rparr>)"
proof -
  define k where "k = current_thread (sc_procs s ! cpu)"
  obtain x m where i: "fm_index (thread_map F) (sc_threads s) k = (x, m)" by fastforce
  have c: "cpu < length (sc_procs s)" "cpu_running (sc_procs s ! cpu)" "sched_get F s k = Inr (p, s')"
    using assms by (auto simp: sched_this_def k_def kassert_def split: if_splits)
  then obtain q where q: "x = Some q" using i by (cases x) (auto simp: sched_get_def)
  have k: "sc_threads s k = Some (Some q)"
    using i q tm.index_missing [of "sc_threads s" k] tm.index_present [of "sc_threads s" k]
    by (cases "sc_threads s k") auto
  then have m: "m = sc_threads s" using i tm.index_present [of "sc_threads s" k] by fastforce
  obtain t where t: "get_thread (sc_heap s) q = Inr t" using c(3) i q by (auto simp: sched_get_def and_then_Inr_iff)
  show ?thesis
    using c i q k m t that [of t] by (auto simp: sched_get_def runs_thread_def k_def spin_lock_def split: if_splits)
qed

end

section \<open>What a call changes\<close>

text \<open>The fields of a thread that a system call may change.\<close>

definition same_but_memory :: "thread \<Rightarrow> thread \<Rightarrow> bool" where
  "same_but_memory t t' \<longleftrightarrow> t' = t\<lparr>th_addr_space := th_addr_space t', th_identity := th_identity t'\<rparr>"

context sched_containers
begin

lemma thread_unlocked: "\<not> th_access_lock t \<Longrightarrow> t\<lparr>th_access_lock := False\<rparr> = t"
  by (cases t) simp

lemma guard_round:
  assumes "runs_thread s cpu p t" "\<not> th_access_lock t"
  shows "guard_release (put_thread s p (t\<lparr>th_access_lock := True\<rparr>)) p = Inr s"
  using assms guard_release_put [of s p t "t\<lparr>th_access_lock := True\<rparr>"] put_thread_same [of s p t]
  by (simp add: runs_thread_def thread_unlocked)

lemma get_locked:
  "runs_thread s cpu p t \<Longrightarrow> get_thread ((sc_heap s)[p := Some t']) p = Inr t'"
  by (auto simp: runs_thread_def get_thread_put)

lemma duck_set_identity_Inr:
  assumes "duck_set_identity E F cpu s ident len = Inr (r, s')"
  obtains p t where "runs_thread (ss_sched s) cpu p t" "\<not> th_access_lock t"
    "if 64 < len then r = 2 \<and> ss_mem s' = ss_mem s \<and> ss_sched s' = ss_sched s
     else \<exists>t' st. r = 0 \<and> ss_sched s' = put_thread (ss_sched s) p t' \<and> same_but_memory t t' \<and>
       (th_identity t', st) = se_resize E (ss_mem s) (th_identity t) len"
proof -
  obtain lg where lg: "kmesg (se_string E (ss_mem s)) (ss_log s) ''syscall'' ''in duck_set_identity'' [] = Inr lg"
    using assms unfolding duck_set_identity_def and_then_Inr_iff by blast
  obtain p sc where th: "sched_this F cpu (ss_sched s) = Inr (p, sc)"
    using assms unfolding duck_set_identity_def lg and_then.simps and_then_Inr_iff by auto
  obtain t where t: "runs_thread (ss_sched s) cpu p t" "\<not> th_access_lock t"
    "sc = put_thread (ss_sched s) p (t\<lparr>th_access_lock := True\<rparr>)" using sched_this_Inr [OF th] by blast
  note g = t(1) [unfolded runs_thread_def, THEN conjunct2, THEN conjunct2, THEN conjunct2]
  obtain name st where rs: "se_resize E (ss_mem s) (th_identity t) len = (name, st)" by fastforce
  note d = lg th t(3) get_locked [OF t(1)] rs guard_release_put [OF g]
  show ?thesis
  proof (cases "64 < len")
    case True
    then show ?thesis
      using assms
      by (intro that [OF t(1,2)]) (auto simp: duck_set_identity_def d thread_unlocked [OF t(2)] put_thread_same [OF g]
          duck_error_out_of_range_def)
  next
    case False
    obtain st' a where "space_store (se_mm E) st (th_addr_space t) ident (fst name) len = Inr (st', a)"
      using assms False by (auto simp: duck_set_identity_def d and_then_Inr_iff)
    then show ?thesis
      using assms False t(2)
      by (intro that [OF t(1,2)])
        (auto simp: duck_set_identity_def d same_but_memory_def duck_error_none_def
          intro!: exI [of _ "t\<lparr>th_identity := name, th_addr_space := a\<rparr>"] arg_cong [where f = "put_thread (ss_sched s) p"])
  qed
qed

lemma duck_debug_log_Inr:
  assumes "duck_debug_log E F cpu s message len = Inr (r, s')"
  obtains p t where "runs_thread (ss_sched s) cpu p t" "\<not> th_access_lock t"
    "if 512 < len then r = 2 \<and> ss_mem s' = ss_mem s \<and> ss_sched s' = ss_sched s
     else \<exists>t'. r = 0 \<and> ss_sched s' = put_thread (ss_sched s) p t' \<and> same_but_memory t t' \<and> th_identity t' = th_identity t"
proof -
  obtain lg where lg: "kmesg (se_string E (ss_mem s)) (ss_log s) ''syscall'' ''in duck_debug_log'' [] = Inr lg"
    using assms unfolding duck_debug_log_def and_then_Inr_iff by blast
  obtain p sc where th: "sched_this F cpu (ss_sched s) = Inr (p, sc)"
    using assms unfolding duck_debug_log_def lg and_then.simps and_then_Inr_iff by auto
  obtain t where t: "runs_thread (ss_sched s) cpu p t" "\<not> th_access_lock t"
    "sc = put_thread (ss_sched s) p (t\<lparr>th_access_lock := True\<rparr>)" using sched_this_Inr [OF th] by blast
  note g = t(1) [unfolded runs_thread_def, THEN conjunct2, THEN conjunct2, THEN conjunct2]
  note d = lg th t(3) get_locked [OF t(1)] guard_release_put [OF g]
  show ?thesis
  proof (cases "512 < len")
    case True
    then show ?thesis
      using assms
      by (intro that [OF t(1,2)]) (auto simp: duck_debug_log_def d thread_unlocked [OF t(2)] put_thread_same [OF g]
          duck_error_out_of_range_def)
  next
    case False
    obtain st' a where st: "space_store (se_mm E) (ss_mem s) (th_addr_space t) message (se_buf E) len = Inr (st', a)"
      using assms False by (auto simp: duck_debug_log_def d and_then_Inr_iff)
    then show ?thesis
      using assms False t(2)
      by (intro that [OF t(1,2)])
        (auto simp: duck_debug_log_def d same_but_memory_def duck_error_none_def and_then_Inr_iff Let_def
          intro!: exI [of _ "t\<lparr>th_addr_space := a\<rparr>"] arg_cong [where f = "put_thread (ss_sched s) p"])
  qed
qed

lemma set_identity_result:
  assumes "duck_set_identity E F cpu s ident len = Inr (r, s')" "\<forall>st x n. snd (fst (se_resize E st x n)) = n"
  shows "if 64 < len then r = 2 \<and> ss_mem s' = ss_mem s \<and> ss_sched s' = ss_sched s
    else r = 0 \<and> (\<exists>p t t'. runs_thread (ss_sched s) cpu p t \<and> ss_sched s' = put_thread (ss_sched s) p t' \<and>
      same_but_memory t t' \<and> snd (th_identity t') = len)"
proof -
  have l: "snd x = n" if "(x, m) = se_resize E y z n" for x m y z n
    using assms(2) [rule_format, of y z n] by (simp flip: that)
  show ?thesis by (rule duck_set_identity_Inr [OF assms(1)]) (cases "64 < len", simp, use l in \<open>simp; blast\<close>)
qed

lemma debug_log_result:
  assumes "duck_debug_log E F cpu s message len = Inr (r, s')"
  shows "if 512 < len then r = 2 \<and> ss_mem s' = ss_mem s \<and> ss_sched s' = ss_sched s
    else r = 0 \<and> (\<exists>p t t'. runs_thread (ss_sched s) cpu p t \<and> ss_sched s' = put_thread (ss_sched s) p t' \<and>
      same_but_memory t t' \<and> th_identity t' = th_identity t)"
  by (rule duck_debug_log_Inr [OF assms]) (auto split: if_splits)

end

section \<open>Isolation of system calls\<close>

text \<open>C33. A system call that returns changes one register of its caller, \<open>rax\<close>, which receives 0, 2 (a length above the
  limit of the call) or 3 (an unknown call); a call that fails changes neither memory nor the scheduler. A call that succeeds
  changes nothing in the scheduler but the memory and the name of the thread that its CPU runs; the name gets the length that
  was passed. The error for a bad address is never returned.\<close>

theorem syscall_isolated:
  assumes "sched_containers F" "\<forall>st x n. snd (fst (se_resize E st x n)) = n"
    and "syscall_irq_handler E F cpu s st = Inr (r, st', s')"
  shows "r = 1 \<and> st' = st\<lparr>i_rax := i_rax st'\<rparr> \<and> i_rax st' \<in> {0, 2, 3} \<and>
    (i_rax st' = 3 \<longleftrightarrow> i_rax st \<notin> {1, 2}) \<and>
    (i_rax st' = 2 \<longleftrightarrow> i_rax st = 1 \<and> 64 < i_rcx st \<or> i_rax st = 2 \<and> 512 < i_rcx st) \<and>
    (i_rax st' \<noteq> 0 \<longrightarrow> ss_mem s' = ss_mem s \<and> ss_sched s' = ss_sched s) \<and>
    (i_rax st' = 0 \<longrightarrow> (\<exists>p t t'. runs_thread (ss_sched s) cpu p t \<and> ss_sched s' = put_thread (ss_sched s) p t' \<and>
       same_but_memory t t' \<and>
       (if i_rax st = 1 then snd (th_identity t') = i_rcx st else th_identity t' = th_identity t)))"
proof -
  obtain v where v: "syscall_invoke E F cpu s (i_rax st) (i_rbx st) (i_rcx st) = Inr (v, s')"
    "r = 1" "st' = st\<lparr>i_rax := v\<rparr>" using assms(3) by (auto simp: syscall_irq_handler_def and_then_Inr_iff)
  consider "i_rax st = 1" | "i_rax st = 2" | "i_rax st \<notin> {1, 2}" by blast
  then show ?thesis
  proof cases
    case 1
    then obtain e where e: "duck_set_identity E F cpu s (i_rbx st) (i_rcx st) = Inr (e, s')" "v = scast e"
      using v(1) by (auto simp: syscall_invoke_def duck_call_set_identity_def and_then_Inr_iff)
    show ?thesis
      using sched_containers.set_identity_result [OF assms(1) e(1) assms(2)] v(2,3) e(2) 1 by (cases "64 < i_rcx st") simp_all
  next
    case 2
    then obtain e where e: "duck_debug_log E F cpu s (i_rbx st) (i_rcx st) = Inr (e, s')" "v = scast e"
      using v(1) by (auto simp: syscall_invoke_def duck_call_set_identity_def duck_call_debug_log_def and_then_Inr_iff)
    show ?thesis
      using sched_containers.debug_log_result [OF assms(1) e(1)] v(2,3) e(2) 2 by (cases "512 < i_rcx st") simp_all
  next
    case 3
    then show ?thesis
      using v by (simp add: syscall_invoke_def duck_call_set_identity_def duck_call_debug_log_def duck_error_invalid_call_def)
  qed
qed

section \<open>The user's side\<close>

text \<open>\<open>duck_syscall_2\<close>: the registers the inline assembly sets, the interrupt, and \<open>eax\<close> after it. The kernel's handler is
  what the interrupt runs.\<close>

definition duck_syscall_2 ::
  "(irq_cpu_state_t \<Rightarrow> 's \<Rightarrow> (cint \<times> irq_cpu_state_t \<times> 's) result) \<Rightarrow>
   irq_cpu_state_t \<Rightarrow> 's \<Rightarrow> cint \<Rightarrow> u64 \<Rightarrow> u64 \<Rightarrow> (cint \<times> irq_cpu_state_t \<times> 's) result" where
  "duck_syscall_2 int_0x30 regs s syscall_no a0 a1 =
     and_then (int_0x30 (regs\<lparr>i_rax := ucast syscall_no, i_rbx := a0, i_rcx := a1\<rparr>) s) (\<lambda>(_, regs, s).
       Inr (ucast (i_rax regs), regs, s))"

definition libduck_set_identity ::
  "(irq_cpu_state_t \<Rightarrow> 's \<Rightarrow> (cint \<times> irq_cpu_state_t \<times> 's) result) \<Rightarrow>
   irq_cpu_state_t \<Rightarrow> 's \<Rightarrow> u64 \<Rightarrow> u64 \<Rightarrow> (cint \<times> irq_cpu_state_t \<times> 's) result" where
  "libduck_set_identity int_0x30 regs s ident len = duck_syscall_2 int_0x30 regs s (ucast duck_call_set_identity) ident len"

definition libduck_debug_log ::
  "(irq_cpu_state_t \<Rightarrow> 's \<Rightarrow> (cint \<times> irq_cpu_state_t \<times> 's) result) \<Rightarrow>
   irq_cpu_state_t \<Rightarrow> 's \<Rightarrow> u64 \<Rightarrow> u64 \<Rightarrow> (cint \<times> irq_cpu_state_t \<times> 's) result" where
  "libduck_debug_log int_0x30 regs s message len = duck_syscall_2 int_0x30 regs s (ucast duck_call_debug_log) message len"

text \<open>\<open>___duck_strlen\<close> counts the terminator.\<close>

partial_function (option) duck_strlen_loop :: "mem \<Rightarrow> u64 \<Rightarrow> u64 \<Rightarrow> u64 option" where
  "duck_strlen_loop m str n = (if m (str + n) = 0 then Some (n + 1) else duck_strlen_loop m str (n + 1))"

definition duck_strlen :: "mem \<Rightarrow> u64 \<Rightarrow> u64 option" where
  "duck_strlen m str = duck_strlen_loop m str 0"

lemma duck_strlen_loop_cstr:
  "cstr m (s + n) xs \<Longrightarrow> duck_strlen_loop m s n = Some (n + of_nat (length xs) + 1)"
proof (induction xs arbitrary: n)
  case Nil
  then show ?case by (subst duck_strlen_loop.simps) simp
next
  case (Cons x xs)
  then have "duck_strlen_loop m s (n + 1) = Some (n + 1 + of_nat (length xs) + 1)"
    by (intro Cons.IH) (simp add: algebra_simps)
  then show ?case using Cons.prems by (subst duck_strlen_loop.simps) (simp add: algebra_simps)
qed

lemma duck_strlen_counts_terminator: "cstr m s xs \<Longrightarrow> duck_strlen m s = Some (of_nat (length xs) + 1)"
  using duck_strlen_loop_cstr [of m s 0 xs] by (simp add: duck_strlen_def)

text \<open>The server \<open>startup\<close>: its string literals are at the addresses given, \<open>umem\<close> is its memory. It ends in its
  last loop or in the trap of \<open>DUCK_CHECK\<close>.\<close>

datatype 's user_end = Spins irq_cpu_state_t 's | Traps irq_cpu_state_t 's

record startup_image =
  lit_ident :: u64
  lit_hello :: u64
  lit_msg :: u64
  lit_err :: "cint \<Rightarrow> u64"

definition duck_check_failed ::
  "(irq_cpu_state_t \<Rightarrow> 's \<Rightarrow> (cint \<times> irq_cpu_state_t \<times> 's) result) \<Rightarrow> mem \<Rightarrow> startup_image \<Rightarrow>
   irq_cpu_state_t \<Rightarrow> 's \<Rightarrow> cint \<Rightarrow> 's user_end result" where
  "duck_check_failed int_0x30 umem img regs s ret =
     (case (duck_strlen umem (lit_msg img), duck_strlen umem (lit_err img ret)) of
        (Some n, Some k) \<Rightarrow>
          and_then (libduck_debug_log int_0x30 regs s (lit_msg img) n) (\<lambda>(_, regs, s).
          and_then (libduck_debug_log int_0x30 regs s (lit_err img ret) k) (\<lambda>(_, regs, s). Inr (Traps regs s)))
      | _ \<Rightarrow> Inl Diverges)"

definition startup_start ::
  "(irq_cpu_state_t \<Rightarrow> 's \<Rightarrow> (cint \<times> irq_cpu_state_t \<times> 's) result) \<Rightarrow> mem \<Rightarrow> startup_image \<Rightarrow>
   irq_cpu_state_t \<Rightarrow> 's \<Rightarrow> 's user_end result" where
  "startup_start int_0x30 umem img regs s =
     and_then (libduck_set_identity int_0x30 regs s (lit_ident img) 7) (\<lambda>(_, regs, s).
     and_then (libduck_debug_log int_0x30 regs s (lit_hello img) 23) (\<lambda>(_, regs, s).
     and_then (libduck_debug_log int_0x30 regs s 0 1024) (\<lambda>(ret, regs, s).
       if ret \<noteq> duck_error_none then duck_check_failed int_0x30 umem img regs s ret
       else Inr (Spins regs s))))"

section \<open>The startup server on the kernel\<close>

definition kernel_int_0x30 ::
  "'s sys_env \<Rightarrow> sched_frg \<Rightarrow> nat \<Rightarrow> irq_cpu_state_t \<Rightarrow> 's sys_state \<Rightarrow> (cint \<times> irq_cpu_state_t \<times> 's sys_state) result" where
  "kernel_int_0x30 E F cpu regs s = syscall_irq_handler E F cpu s regs"

lemma libduck_debug_log_long:
  assumes "sched_containers F" "libduck_debug_log (kernel_int_0x30 E F cpu) regs s message len = Inr (r, regs', s')" "512 < len"
  shows "r = duck_error_out_of_range"
proof -
  have "duck_debug_log E F cpu s message len = Inr (e, s') \<Longrightarrow> e = 2" for e
    using sched_containers.debug_log_result [OF assms(1), of E cpu s message len e s'] assms(3) by simp
  then show ?thesis
    using assms(2)
    by (auto simp: libduck_debug_log_def duck_syscall_2_def kernel_int_0x30_def syscall_irq_handler_def syscall_invoke_def
        duck_call_set_identity_def duck_call_debug_log_def duck_error_out_of_range_def and_then_Inr_iff)
qed

text \<open>The server never reaches its loop on this kernel: its third call asks for more bytes than a message may have.\<close>

lemma startup_traps:
  assumes "sched_containers F" "startup_start (kernel_int_0x30 E F cpu) umem img regs s = Inr u"
  shows "\<exists>regs' s'. u = Traps regs' s'"
  using assms(2) libduck_debug_log_long [OF assms(1), of E cpu]
  by (fastforce simp: startup_start_def duck_check_failed_def and_then_Inr_iff duck_error_none_def duck_error_out_of_range_def
      split: if_splits option.splits)

section \<open>An instance\<close>

definition demo_env :: "machine sys_env" where
  "demo_env = \<lparr>se_mm = pmm_arch, se_resize = (\<lambda>st x n. ((0x1000, n), st)), se_string = (\<lambda>st a. []),
     se_poke = (\<lambda>st a b. st), se_buf = 0x2000\<rparr>"

definition demo_state :: "machine sys_state" where
  "demo_state = \<lparr>ss_mem = small_machine, ss_sched = demo_sched_1, ss_log = \<lparr>km_lock = False, km_out = []\<rparr>\<rparr>"

theorem syscall_isolated_witness:
  "\<exists>st' s'. syscall_irq_handler demo_env ref_sched 0 demo_state (demo_irq\<lparr>i_rax := 1, i_rcx := 7\<rparr>) = Inr (1, st', s') \<and>
     st' = demo_irq\<lparr>i_rax := 0, i_rcx := 7\<rparr> \<and>
     (\<exists>t'. ss_sched s' = put_thread demo_sched_1 0 t' \<and> snd (th_identity t') = 7)"
proof -
  let ?st = "demo_irq\<lparr>i_rax := 1, i_rcx := 7\<rparr>"
  have k: "kmesg (\<lambda>a. []) \<lparr>km_lock = False, km_out = []\<rparr> ''syscall'' ''in duck_set_identity'' [] =
      Inr \<lparr>km_lock = False, km_out = ''syscall: in duck_set_identity'' @ [CHR 0x0A]\<rparr>"
    by (subst kmesg_literal) simp_all
  have "\<exists>st' s'. syscall_irq_handler demo_env ref_sched 0 demo_state ?st = Inr (1, st', s')"
    by (simp add: syscall_irq_handler_def syscall_invoke_def duck_call_set_identity_def duck_set_identity_def demo_env_def
        demo_state_def k sched_this_def sched_get_def demo_sched_1_def demo_sched_def ref_sched_def ref_map_def get_thread_def
        put_thread_def spin_lock_def space_store_def region_for_address_def demo_thread_def new_thread_def demo_irq_def
        guard_release_def)
  then obtain st' s' where h: "syscall_irq_handler demo_env ref_sched 0 demo_state ?st = Inr (1, st', s')" by blast
  have "\<forall>st x n. snd (fst (se_resize demo_env st x n)) = n" by (simp add: demo_env_def)
  note i = syscall_isolated [OF refsched.sched_containers_axioms this h]
  have s0: "ss_sched demo_state = demo_sched_1" by (simp add: demo_state_def)
  have p: "p = 0" if "runs_thread demo_sched_1 0 p t" for p t
    using that by (simp add: runs_thread_def demo_sched_1_def demo_sched_def)
  have r: "i_rax ?st = 1" "i_rcx ?st = 7" by simp_all
  have "i_rax st' = 0" using i by auto
  then show ?thesis
    using i h p unfolding s0 r by (intro exI [of _ st'] exI [of _ s']) (auto simp: demo_irq_def)
qed

end
