(* ===== verification/Contexts.thy ===== *)
theory Contexts
  imports PageTables Syscalls
begin

text \<open>
  Which page tables are in use. The memory management functions of the architecture never switch the address space of a
  processor: they leave \<open>cr3\<close>, the contexts that interrupted code has saved and the kernel's own tables alone. The contract
  is a locale; what the address spaces do with the architecture, the page faults and the system calls keep it too.
\<close>

section \<open>The fields that say which tables are in use\<close>

definition same_ctx :: "machine \<Rightarrow> machine \<Rightarrow> bool" where
  "same_ctx s s' \<longleftrightarrow>
     cr3 s' = cr3 s \<and> kernel_pml4 s' = kernel_pml4 s \<and> saved_vmm_ctx s' = saved_vmm_ctx s \<and> cur_cpu s' = cur_cpu s"

lemma same_ctx_refl [simp]: "same_ctx s s"
  by (simp add: same_ctx_def)

lemma same_ctx_trans: "same_ctx s t \<Longrightarrow> same_ctx t u \<Longrightarrow> same_ctx s u"
  by (simp add: same_ctx_def)

lemma same_ctx_mem [simp]:
  "same_ctx s (s'\<lparr>phys_mem := m\<rparr>) = same_ctx s s'" "same_ctx (s\<lparr>phys_mem := m\<rparr>) s' = same_ctx s s'"
  "same_ctx s (s'\<lparr>pmm_free_pages := k\<rparr>) = same_ctx s s'"
  by (simp_all add: same_ctx_def)

lemma same_ctx_write [simp]: "same_ctx s (table_write s' t i v) = same_ctx s s'"
  by (simp add: table_write_def)

lemma same_ctx_bit_write [simp]: "same_ctx s (pmm_bit_write s' idx b n) = same_ctx s s'"
  by (induction n arbitrary: s' idx) (simp_all add: Let_def same_ctx_def)

section \<open>The contract\<close>

locale context_keeping =
  fixes A :: "machine arch_mm_ops"
  assumes alloc_ctx: "am_alloc_phys A s n = (p, s') \<Longrightarrow> same_ctx s s'"
    and free_ctx: "same_ctx s (am_free_phys A s p n)"
    and map_ctx: "am_map A s ctx d p n fl c = Inr s' \<Longrightarrow> same_ctx s s'"
    and unmap_ctx: "am_unmap A s ctx d n = Inr s' \<Longrightarrow> same_ctx s s'"
    and load_ctx: "am_mapping_load A s m off d n = Inr s' \<Longrightarrow> same_ctx s s'"
    and store_ctx: "am_mapping_store A s m off d n = Inr s' \<Longrightarrow> same_ctx s s'"
begin

lemma map_region_loop_ctx: "map_region_loop A s ctx m i n = Inr s' \<Longrightarrow> same_ctx s s'"
  by (induction n arbitrary: s i)
     (auto simp: and_then_Inr_iff split: if_splits dest: map_ctx intro: same_ctx_trans)

lemma map_region_ctx: "map_region A s a r = Inr (s', a') \<Longrightarrow> same_ctx s s'"
  by (auto simp: map_region_def Let_def and_then_Inr_iff dest: map_region_loop_ctx split: if_splits)

lemma touch_ctx: "mapping_touch A s m idx = Inr (t, s', m') \<Longrightarrow> same_ctx s s'"
  by (auto simp: mapping_touch_def Let_def kassert_Inr_iff split: if_splits prod.splits dest: alloc_ctx)

lemma touch_range_ctx: "touch_range A s m idx n t = Inr (t', s', m') \<Longrightarrow> same_ctx s s'"
  by (induction n arbitrary: s m idx t) (auto simp: and_then_Inr_iff dest: touch_ctx intro: same_ctx_trans)

lemma fault_hit_ctx: "space_fault_hit A s a x = Inr (b, s', a') \<Longrightarrow> same_ctx s s'"
  by (auto simp: space_fault_hit_def mapping_fault_hit_def Let_def and_then_Inr_iff split: option.splits if_splits
        vm_fault_result.splits dest!: touch_ctx map_region_ctx intro: same_ctx_trans)

lemma mapping_store_ctx: "mapping_store A s m off d n = Inr (t, s', m') \<Longrightarrow> same_ctx s s'"
  by (auto simp: mapping_store_def ensure_load_store_def Let_def and_then_Inr_iff kassert_Inr_iff split: if_splits
        dest!: touch_range_ctx store_ctx intro: same_ctx_trans)

lemma space_store_ctx: "space_store A s a x d n = Inr (s', a') \<Longrightarrow> same_ctx s s'"
  by (auto simp: space_store_def and_then_Inr_iff split: option.splits if_splits
        dest!: mapping_store_ctx map_region_ctx intro: same_ctx_trans)

lemma page_fault_ctx: "page_fault_sink A F cpu s sc x = Inr (s', sc') \<Longrightarrow> same_ctx s s'"
  by (auto simp: page_fault_sink_def sched_page_fault_def kassert_Inr_iff and_then_Inr_iff split: if_splits dest: fault_hit_ctx)

end

section \<open>System calls\<close>

definition env_keeps_ctx :: "machine sys_env \<Rightarrow> bool" where
  "env_keeps_ctx E \<longleftrightarrow>
     (\<forall>s x n. same_ctx s (snd (se_resize E s x n))) \<and> (\<forall>s a b. same_ctx s (se_poke E s a b))"

context context_keeping
begin

lemma set_identity_ctx:
  assumes "duck_set_identity E F cpu s ident len = Inr (r, s')" "se_mm E = A" "env_keeps_ctx E"
  shows "same_ctx (ss_mem s) (ss_mem s')"
proof -
  have rs: "same_ctx s0 st" if "se_resize E s0 x n = (y, st)" for s0 x n y st
    using assms(3) that by (metis env_keeps_ctx_def snd_conv)
  show ?thesis
  proof (cases "64 < len")
    case True
    then show ?thesis using assms(1) by (auto simp: duck_set_identity_def and_then_Inr_iff)
  next
    case False
    obtain lg p sc t where t: "kmesg (se_string E (ss_mem s)) (ss_log s) ''syscall'' ''in duck_set_identity'' [] = Inr lg"
      "sched_this F cpu (ss_sched s) = Inr (p, sc)" "get_thread (sc_heap sc) p = Inr t"
      using assms(1) False by (auto simp: duck_set_identity_def and_then_Inr_iff)
    obtain name st where n: "se_resize E (ss_mem s) (th_identity t) len = (name, st)" by fastforce
    obtain st' a where "space_store (se_mm E) st (th_addr_space t) ident (fst name) len = Inr (st', a)" "ss_mem s' = st'"
      using assms(1) False t n by (auto simp: duck_set_identity_def and_then_Inr_iff)
    then show ?thesis using rs [OF n] space_store_ctx [folded assms(2)] same_ctx_trans by blast
  qed
qed

lemma debug_log_ctx:
  assumes "duck_debug_log E F cpu s ident len = Inr (r, s')" "se_mm E = A" "env_keeps_ctx E"
  shows "same_ctx (ss_mem s) (ss_mem s')"
proof -
  have "same_ctx s0 (se_poke E st a b)" if "same_ctx s0 st" for s0 st a b
    using assms(3) that by (auto simp: env_keeps_ctx_def intro: same_ctx_trans)
  then show ?thesis
    using assms(1) space_store_ctx [folded assms(2)]
    by (fastforce simp: duck_debug_log_def and_then_Inr_iff Let_def split: if_splits)
qed

lemma syscall_ctx:
  assumes "syscall_irq_handler E F cpu s st = Inr (r, st', s')" "se_mm E = A" "env_keeps_ctx E"
  shows "same_ctx (ss_mem s) (ss_mem s')"
  using assms by (auto simp: syscall_irq_handler_def syscall_invoke_def and_then_Inr_iff split: if_splits
      dest: set_identity_ctx debug_log_ctx)

end

section \<open>The x86\_64 functions\<close>

lemma pmm_alloc_ctx: "pmm_alloc s n = (p, s1) \<Longrightarrow> same_ctx s s1"
  by (cases rule: pmm_alloc_cases [of s n]) (auto simp: pmm_take_def Let_def)

lemma pmm_free_ctx [simp]: "same_ctx s (pmm_free s' p n) = same_ctx s s'"
  by (simp add: pmm_free_def same_ctx_def)

lemma get_or_alloc_ctx: "vmm_get_or_alloc_ent s t off fl = Inr (r, s') \<Longrightarrow> same_ctx s s'"
  by (auto simp: vmm_get_or_alloc_ent_def Let_def dest: pmm_alloc_ctx split: option.splits if_splits prod.splits)

lemma set_ent_ctx: "set_ent s t off v = Inr s' \<Longrightarrow> same_ctx s s'"
  by (auto simp: set_ent_def split: option.splits)

lemma vmm_map_page_ctx: "vmm_map_page s P virt phys perms = Inr s' \<Longrightarrow> same_ctx s s'"
  by (auto simp: vmm_map_page_def Let_def and_then_Inr_iff dest!: get_or_alloc_ctx set_ent_ctx intro: same_ctx_trans)

lemma vmm_map_pages_ctx: "vmm_map_pages s P virt phys n perms = Inr s' \<Longrightarrow> same_ctx s s'"
  by (induction n arbitrary: s virt phys)
     (auto simp: and_then_Inr_iff dest: vmm_map_page_ctx intro: same_ctx_trans)

lemma vmm_unmap_pages_ctx: "vmm_unmap_pages s P virt n = Inr (b, s') \<Longrightarrow> same_ctx s s'"
  by (induction n arbitrary: s virt)
     (auto simp: Let_def and_then_Inr_iff split: if_splits dest: set_ent_ctx intro: same_ctx_trans)

lemma virt_memcpy_ctx: "virt_memcpy s d x n = Inr s' \<Longrightarrow> same_ctx s s'"
proof (induction n arbitrary: s d x)
  case (Suc n)
  then show ?case by (fastforce split: option.splits)
qed simp

lemma window_map_ctx: "window_map s m i virt n = Inr s' \<Longrightarrow> same_ctx s s'"
  by (induction n arbitrary: s i virt)
     (auto simp: and_then_Inr_iff split: if_splits dest: vmm_map_page_ctx intro: same_ctx_trans)

lemma window_unmap_ctx: "window_unmap s virt n = Inr s' \<Longrightarrow> same_ctx s s'"
  by (induction n arbitrary: s virt)
     (auto simp: and_then_Inr_iff simp del: vmm_unmap_pages.simps dest: vmm_unmap_pages_ctx intro: same_ctx_trans)

interpretation x86ctx: context_keeping "x86_64_mm ehdr" for ehdr
  by unfold_locales
     (auto simp: arch_mm_alloc_phys_def arch_mm_free_phys_def arch_mm_map_def arch_mm_unmap_def
       arch_mm_mapping_load_def arch_mm_mapping_store_def and_then_Inr_iff
       dest!: pmm_alloc_ctx vmm_map_pages_ctx vmm_unmap_pages_ctx window_map_ctx window_unmap_ctx virt_memcpy_ctx
       intro: same_ctx_trans)

end
