(* ===== verification/Acpi.thy ===== *)
theory Acpi
  imports Frg Machine Cmdline
begin

text \<open>
  The ACPI tables: finding the root table and the others (\<open>arch/x86_64/acpi/acpi.cpp\<close>) and the interrupt controllers of the
  multiple APIC description table (\<open>acpi/madt.cpp\<close>). Pointers to tables are physical addresses, which the code reaches
  at \<open>VIRT_PHYS_BASE\<close> plus the address, and NULL is \<open>None\<close>. The library \<open>lai\<close> is not part of the repository: what
  the code asks it to do is a list of calls, and the two fields of its \<open>acpi_fadt_t\<close> are read by functions that are
  arguments. Log messages are left out.
\<close>

section \<open>Data\<close>

record madt_lapic =
  la_proc_id :: u8
  la_apic_id :: u8
  la_flags :: u32

record madt_ioapic =
  io_ioapic_id :: u8
  io_reserved :: u8
  io_ioapic_addr :: u32
  io_gsi_base :: u32

record madt_iso =
  iso_bus :: u8
  iso_irq :: u8
  iso_gsi :: u32
  iso_flags :: u16

record madt_nmi =
  nmi_proc_id :: u8
  nmi_flags :: u16
  nmi_lint :: u8

text \<open>The static variables of \<open>madt.cpp\<close>.\<close>

record madt_state =
  madt_ptr :: "u64 option"
  madt_lapics :: "madt_lapic list"
  madt_nmis :: "madt_nmi list"
  madt_isos :: "madt_iso list"
  madt_ioapics :: "madt_ioapic list"

record madt_frg =
  lapic_vector :: "madt_lapic frg_vector_ops"
  nmi_vector :: "madt_nmi frg_vector_ops"
  iso_vector :: "madt_iso frg_vector_ops"
  ioapic_vector :: "madt_ioapic frg_vector_ops"

definition boot_madt :: madt_state where
  "boot_madt = \<lparr>madt_ptr = None, madt_lapics = [], madt_nmis = [], madt_isos = [], madt_ioapics = []\<rparr>"

text \<open>The offsets of \<open>sdt_t\<close>, \<open>rsdp_t\<close> and \<open>struct madt\<close>: the length of a table is at 4, the header has 36 bytes (two of them
  padding), the root pointer has 20 bytes with the address of the root table at 16, and the local APIC address of the
  table \<open>APIC\<close> is at 36, its entries at 44.\<close>

definition sizeof_sdt :: u64 where
  "sizeof_sdt = 36"

definition sizeof_rsdp :: u64 where
  "sizeof_rsdp = 20"

definition sizeof_madt :: u64 where
  "sizeof_madt = 44"

definition sdt_len :: "mem \<Rightarrow> u64 \<Rightarrow> u32" where
  "sdt_len m sdt = read32 m (sdt + 4)"

section \<open>Finding tables\<close>

fun checksum_loop :: "mem \<Rightarrow> u64 \<Rightarrow> u8 \<Rightarrow> nat \<Rightarrow> u8" where
  "checksum_loop m p s 0 = s"
| "checksum_loop m p s (Suc n) = checksum_loop m (p + 1) (s + m p) n"

definition acpi_calc_checksum :: "mem \<Rightarrow> u64 \<Rightarrow> u64 \<Rightarrow> u8" where
  "acpi_calc_checksum m p len = checksum_loop m p 0 (unat len)"

text \<open>\<open>memcmp\<close> with a string literal.\<close>

definition bytes_at :: "mem \<Rightarrow> u64 \<Rightarrow> nat \<Rightarrow> u8 list" where
  "bytes_at m a n = map (\<lambda>i. m (a + of_nat i)) [0..<n]"

definition sig_bytes :: "string \<Rightarrow> u8 list" where
  "sig_bytes s = map of_char s"

fun find_rsdp_loop :: "mem \<Rightarrow> u64 \<Rightarrow> u64 \<Rightarrow> nat \<Rightarrow> u64 option" where
  "find_rsdp_loop m region_start idx 0 = None"
| "find_rsdp_loop m region_start idx (Suc n) =
     (let rsdp = region_start + idx
      in if bytes_at m rsdp 8 \<noteq> sig_bytes ''RSD PTR '' then find_rsdp_loop m region_start (idx + 16) n
         else if acpi_calc_checksum m rsdp sizeof_rsdp \<noteq> 0 then find_rsdp_loop m region_start (idx + 16) n
         else if read32 m (rsdp + 16) = 0 then None
         else Some (ucast (read32 m (rsdp + 16))))"

definition acpi_find_rsdp :: "mem \<Rightarrow> u64 \<Rightarrow> u64 \<Rightarrow> u64 option" where
  "acpi_find_rsdp m region_start region_len = find_rsdp_loop m region_start 0 (unat ((region_len + 15) div 16))"

fun find_table_loop :: "mem \<Rightarrow> u64 \<Rightarrow> string \<Rightarrow> u64 \<Rightarrow> u64 \<Rightarrow> u64 \<Rightarrow> nat \<Rightarrow> u64 option" where
  "find_table_loop m rsdt sig idx curr_idx i 0 = None"
| "find_table_loop m rsdt sig idx curr_idx i (Suc n) =
     (let sdt = ucast (read32 m (rsdt + sizeof_sdt + i * 4))
      in if acpi_calc_checksum m sdt (ucast (sdt_len m sdt)) \<noteq> 0 then find_table_loop m rsdt sig idx curr_idx (i + 1) n
         else if bytes_at m sdt 4 \<noteq> sig_bytes (take 4 sig) then find_table_loop m rsdt sig idx curr_idx (i + 1) n
         else if curr_idx = idx then Some sdt
         else find_table_loop m rsdt sig idx (curr_idx + 1) (i + 1) n)"

definition acpi_find_sdt :: "mem \<Rightarrow> u64 option \<Rightarrow> string \<Rightarrow> u64 \<Rightarrow> u64 option result" where
  "acpi_find_sdt m rsdt sig idx =
     (case rsdt of
        None \<Rightarrow> Inl NullDeref
      | Some rsdt \<Rightarrow>
          Inr (find_table_loop m rsdt sig idx 0 0 (unat ((ucast (sdt_len m rsdt) - sizeof_sdt) div 4))))"

record fadt_fields =
  fadt_sci_irq :: "mem \<Rightarrow> u64 \<Rightarrow> u16"
  fadt_dsdt :: "mem \<Rightarrow> u64 \<Rightarrow> u32"

definition acpi_find_dsdt :: "fadt_fields \<Rightarrow> mem \<Rightarrow> u64 option \<Rightarrow> u64 option result" where
  "acpi_find_dsdt T m rsdt =
     and_then (acpi_find_sdt m rsdt ''FACP'' 0) (\<lambda>fadt.
       Inr (case fadt of None \<Rightarrow> None | Some fadt \<Rightarrow> Some (ucast (fadt_dsdt T m fadt))))"

definition acpi_find_table :: "fadt_fields \<Rightarrow> mem \<Rightarrow> u64 option \<Rightarrow> string \<Rightarrow> u64 \<Rightarrow> u64 option result" where
  "acpi_find_table T m rsdt sig idx =
     (if sig = ''DSDT'' then acpi_find_dsdt T m rsdt else acpi_find_sdt m rsdt sig idx)"

definition acpi_get_sci_vector :: "fadt_fields \<Rightarrow> mem \<Rightarrow> u64 option \<Rightarrow> u16 result" where
  "acpi_get_sci_vector T m rsdt =
     and_then (acpi_find_table T m rsdt ''FACP'' 0) (\<lambda>fadt.
       Inr (case fadt of None \<Rightarrow> 0 | Some fadt \<Rightarrow> fadt_sci_irq T m fadt))"

section \<open>The interrupt controllers\<close>

definition TYPE_LAPIC :: u8 where
  "TYPE_LAPIC = 0"

definition TYPE_IOAPIC :: u8 where
  "TYPE_IOAPIC = 1"

definition TYPE_ISO :: u8 where
  "TYPE_ISO = 2"

definition TYPE_NMI :: u8 where
  "TYPE_NMI = 4"

definition lapic_at :: "mem \<Rightarrow> u64 \<Rightarrow> madt_lapic" where
  "lapic_at m p = \<lparr>la_proc_id = m p, la_apic_id = m (p + 1), la_flags = read32 m (p + 2)\<rparr>"

definition ioapic_at :: "mem \<Rightarrow> u64 \<Rightarrow> madt_ioapic" where
  "ioapic_at m p = \<lparr>io_ioapic_id = m p, io_reserved = m (p + 1), io_ioapic_addr = read32 m (p + 2), io_gsi_base = read32 m (p + 6)\<rparr>"

definition iso_at :: "mem \<Rightarrow> u64 \<Rightarrow> madt_iso" where
  "iso_at m p = \<lparr>iso_bus = m p, iso_irq = m (p + 1), iso_gsi = read32 m (p + 2), iso_flags = read16 m (p + 6)\<rparr>"

definition nmi_at :: "mem \<Rightarrow> u64 \<Rightarrow> madt_nmi" where
  "nmi_at m p = \<lparr>nmi_proc_id = m p, nmi_flags = read16 m (p + 1), nmi_lint = m (p + 3)\<rparr>"

text \<open>The body of the loop: the entry at \<open>ent\<close>, whose data starts at its third byte.\<close>

definition madt_entry :: "madt_frg \<Rightarrow> mem \<Rightarrow> u64 \<Rightarrow> madt_state \<Rightarrow> madt_state" where
  "madt_entry V m ent st =
     (if m ent = TYPE_LAPIC then st\<lparr>madt_lapics := fv_push_back (lapic_vector V) (madt_lapics st) (lapic_at m (ent + 2))\<rparr>
      else if m ent = TYPE_IOAPIC then st\<lparr>madt_ioapics := fv_push_back (ioapic_vector V) (madt_ioapics st) (ioapic_at m (ent + 2))\<rparr>
      else if m ent = TYPE_ISO then st\<lparr>madt_isos := fv_push_back (iso_vector V) (madt_isos st) (iso_at m (ent + 2))\<rparr>
      else if m ent = TYPE_NMI then st\<lparr>madt_nmis := fv_push_back (nmi_vector V) (madt_nmis st) (nmi_at m (ent + 2))\<rparr>
      else st)"

text \<open>The loop ends only when the entries move the offset past the end: an entry of length 0 is read forever.\<close>

partial_function (option) madt_loop ::
  "madt_frg \<Rightarrow> mem \<Rightarrow> u64 \<Rightarrow> u64 \<Rightarrow> u64 \<Rightarrow> madt_state \<Rightarrow> madt_state option" where
  "madt_loop V m entries n_entries off st =
     (if off < n_entries
      then madt_loop V m entries n_entries (off + ucast (m (entries + off + 1))) (madt_entry V m (entries + off) st)
      else Some st)"

definition madt_init :: "madt_frg \<Rightarrow> fadt_fields \<Rightarrow> mem \<Rightarrow> u64 option \<Rightarrow> madt_state \<Rightarrow> madt_state result" where
  "madt_init V T m rsdt st =
     and_then (acpi_find_table T m rsdt ''APIC'' 0) (\<lambda>ptr.
       (case ptr of
          None \<Rightarrow> Inr (st\<lparr>madt_ptr := None\<rparr>)
        | Some p \<Rightarrow>
            (case madt_loop V m (p + sizeof_madt) (ucast (sdt_len m p) - sizeof_madt) 0 (st\<lparr>madt_ptr := Some p\<rparr>) of
               None \<Rightarrow> Inl Diverges
             | Some st \<Rightarrow> Inr st)))"

definition madt_get_lapic_base :: "mem \<Rightarrow> madt_state \<Rightarrow> u64 result" where
  "madt_get_lapic_base m st =
     (case madt_ptr st of None \<Rightarrow> Inl NullDeref | Some p \<Rightarrow> Inr (ucast (read32 m (p + 36))))"

section \<open>Initialisation\<close>

datatype lai_call = LaiEnableTracing bool bool | LaiCreateNamespace | LaiEnableAcpi nat

definition acpi_init ::
  "madt_frg \<Rightarrow> fadt_fields \<Rightarrow> cmdline_state \<Rightarrow> mem \<Rightarrow> u64 option \<Rightarrow> madt_state \<Rightarrow>
   (lai_call list \<times> u64 option \<times> madt_state) result" where
  "acpi_init V T cl m rsdt st =
     and_then (cmdline_has_value cl ''acpi'' ''disable'') (\<lambda>disabled.
       if disabled then Inr ([], rsdt, st)
       else
         let rsdt_ptr = (case acpi_find_rsdp m 0x80000 0x20000 of
                           None \<Rightarrow> acpi_find_rsdp m 0xe0000 0x20000 | Some p \<Rightarrow> Some p)
         in (case rsdt_ptr of
               None \<Rightarrow> Inl Panic
             | Some rsdt \<Rightarrow>
                 and_then (cmdline_has_value cl ''acpi'' ''debug_io'') (\<lambda>io.
                 and_then (cmdline_has_value cl ''acpi'' ''debug_op'') (\<lambda>op.
                 and_then (acpi_get_sci_vector T m (Some rsdt)) (\<lambda>_.
                 and_then (madt_init V T m (Some rsdt) st) (\<lambda>st.
                   Inr ((if io \<or> op then [LaiEnableTracing io op] else []) @ [LaiCreateNamespace, LaiEnableAcpi 1],
                        Some rsdt, st)))))))"

section \<open>Tables by signature\<close>

text \<open>The tables of the root table that have a correct checksum and the signature, in order.\<close>

definition rsdt_tables :: "mem \<Rightarrow> u64 \<Rightarrow> u64 list" where
  "rsdt_tables m rsdt =
     map (\<lambda>i. ucast (read32 m (rsdt + sizeof_sdt + of_nat i * 4))) [0..<unat ((ucast (sdt_len m rsdt) - sizeof_sdt) div 4)]"

definition table_valid :: "mem \<Rightarrow> string \<Rightarrow> u64 \<Rightarrow> bool" where
  "table_valid m sig sdt \<longleftrightarrow>
     sum_list (bytes_at m sdt (unat (sdt_len m sdt))) = 0 \<and> bytes_at m sdt 4 = sig_bytes (take 4 sig)"

lemma checksum_loop_sum: "checksum_loop m p s n = s + sum_list (bytes_at m p n)"
proof (induction n arbitrary: p s)
  case (Suc n)
  have "bytes_at m p (Suc n) = m p # bytes_at m (p + 1) n"
    by (simp add: bytes_at_def upt_conv_Cons map_Suc_upt [symmetric] comp_def algebra_simps del: upt_Suc)
  then show ?case by (simp add: Suc algebra_simps)
qed (simp add: bytes_at_def)

lemma calc_checksum_sum: "acpi_calc_checksum m p (ucast (len :: u32)) = sum_list (bytes_at m p (unat len))"
proof -
  have "unat (ucast len :: u64) = unat len" using unsigned_less [of len, where 'a = nat] by (simp add: unsigned_ucast_eq take_bit_nat_eq_self)
  then show ?thesis by (simp add: acpi_calc_checksum_def checksum_loop_sum)
qed

lemma find_table_loop_filter:
  assumes "c \<le> idx"
  shows "find_table_loop m rsdt sig idx c (of_nat i) n =
    (let ts = filter (table_valid m sig) (map (\<lambda>i. ucast (read32 m (rsdt + sizeof_sdt + of_nat i * 4))) [i..<i + n])
     in if unat idx - unat c < length ts then Some (ts ! (unat idx - unat c)) else None)"
  using assms
proof (induction n arbitrary: i c)
  case (Suc n)
  define t :: u64 where "t = ucast (read32 m (rsdt + sizeof_sdt + of_nat i * 4))"
  have r: "[i..<i + Suc n] = i # [Suc i..<Suc i + n]" by (simp add: upt_conv_Cons)
  have v: "table_valid m sig t \<longleftrightarrow>
      acpi_calc_checksum m t (ucast (sdt_len m t)) = 0 \<and> bytes_at m t 4 = sig_bytes (take 4 sig)"
    by (simp add: table_valid_def calc_checksum_sum)
  have next_i: "(of_nat i :: u64) + 1 = of_nat (Suc i)" by simp
  have IH: "find_table_loop m rsdt sig idx c' (of_nat i + 1) n =
    (let ts = filter (table_valid m sig) (map (\<lambda>i. ucast (read32 m (rsdt + sizeof_sdt + of_nat i * 4))) [Suc i..<Suc i + n])
     in if unat idx - unat c' < length ts then Some (ts ! (unat idx - unat c')) else None)" if "c' \<le> idx" for c'
    unfolding next_i by (rule Suc.IH [OF that])
  show ?case
  proof (cases "table_valid m sig t")
    case False
    then show ?thesis unfolding r using IH [OF Suc.prems] v by (auto simp: t_def [symmetric] Let_def)
  next
    case True
    show ?thesis
    proof (cases "c = idx")
      case True
      then show ?thesis unfolding r using \<open>table_valid m sig t\<close> v by (simp add: t_def [symmetric] Let_def)
    next
      case False
      then have lt: "c < idx" using Suc.prems by simp
      then have c1: "unat (c + 1) = unat c + 1" "c + 1 \<le> idx"
        using unsigned_less [of idx, where 'a = nat] unat_add_less [of c 1]
        by (auto simp: word_less_nat_alt word_le_nat_alt)
      have "unat idx - unat c = Suc (unat idx - unat (c + 1))" using lt c1 by (simp add: word_less_nat_alt)
      then show ?thesis
        unfolding r using IH [OF c1(2)] True False v by (simp add: t_def [symmetric] Let_def)
    qed
  qed
qed simp

text \<open>Looking up a table by signature and index gives the table with that index among those of the root table that have a
  correct checksum and the signature, and NULL when there are fewer.\<close>

theorem acpi_find_table_nth:
  assumes "sig \<noteq> ''DSDT''"
  shows "acpi_find_table T m (Some rsdt) sig idx =
    Inr (let ts = filter (table_valid m sig) (rsdt_tables m rsdt)
         in if unat idx < length ts then Some (ts ! unat idx) else None)"
  using assms find_table_loop_filter [of 0 idx m rsdt sig 0]
  by (simp add: acpi_find_table_def acpi_find_sdt_def rsdt_tables_def)

section \<open>Parsing the entries\<close>

text \<open>The entries as the specification of the table has them, and their encoding: type, length, data.\<close>

datatype entry = Lapic madt_lapic | Ioapic madt_ioapic | Iso madt_iso | Nmi madt_nmi | Unknown u8 "u8 list"

definition le16 :: "u16 \<Rightarrow> u8 list" where
  "le16 v = [ucast v, ucast (drop_bit 8 v)]"

definition le32 :: "u32 \<Rightarrow> u8 list" where
  "le32 v = [ucast v, ucast (drop_bit 8 v), ucast (drop_bit 16 v), ucast (drop_bit 24 v)]"

fun encode :: "entry \<Rightarrow> u8 list" where
  "encode (Lapic l) = [0, 8, la_proc_id l, la_apic_id l] @ le32 (la_flags l)"
| "encode (Ioapic i) = [1, 12, io_ioapic_id i, io_reserved i] @ le32 (io_ioapic_addr i) @ le32 (io_gsi_base i)"
| "encode (Iso o') = [2, 10, iso_bus o', iso_irq o'] @ le32 (iso_gsi o') @ le16 (iso_flags o')"
| "encode (Nmi n) = [4, 6, nmi_proc_id n] @ le16 (nmi_flags n) @ [nmi_lint n]"
| "encode (Unknown ty data) = [ty, of_nat (length data + 2)] @ data"

fun entry_ok :: "entry \<Rightarrow> bool" where
  "entry_ok (Unknown ty data) \<longleftrightarrow> ty \<notin> {0, 1, 2, 4} \<and> length data \<le> 253"
| "entry_ok _ = True"

fun add_entry :: "entry \<Rightarrow> madt_state \<Rightarrow> madt_state" where
  "add_entry (Lapic l) st = st\<lparr>madt_lapics := madt_lapics st @ [l]\<rparr>"
| "add_entry (Ioapic i) st = st\<lparr>madt_ioapics := madt_ioapics st @ [i]\<rparr>"
| "add_entry (Iso o') st = st\<lparr>madt_isos := madt_isos st @ [o']\<rparr>"
| "add_entry (Nmi n) st = st\<lparr>madt_nmis := madt_nmis st @ [n]\<rparr>"
| "add_entry (Unknown ty data) st = st"

definition holds :: "mem \<Rightarrow> u64 \<Rightarrow> u8 list \<Rightarrow> bool" where
  "holds m a bs \<longleftrightarrow> (\<forall>i<length bs. m (a + of_nat i) = bs ! i)"

lemma holds_Nil [simp]: "holds m a []"
  by (simp add: holds_def)

lemma holds_Cons [simp]: "holds m a (b # bs) \<longleftrightarrow> m a = b \<and> holds m (a + 1) bs"
  by (auto simp: holds_def less_Suc_eq_0_disj algebra_simps)

lemma holds_append: "holds m a (xs @ ys) \<longleftrightarrow> holds m a xs \<and> holds m (a + of_nat (length xs)) ys"
  by (induction xs arbitrary: a) (simp_all add: algebra_simps)

lemma le32_nth: "i < 4 \<Longrightarrow> le32 v ! i = ucast (drop_bit (8 * i) v)"
  by (auto simp: le32_def numeral_eq_Suc less_Suc_eq)

lemma le16_nth: "i < 2 \<Longrightarrow> le16 v ! i = ucast (drop_bit (8 * i) v)"
  by (auto simp: le16_def numeral_eq_Suc less_Suc_eq)

lemma read32_le32:
  assumes "holds m a (le32 v)"
  shows "read32 m a = v"
proof (rule bit_word_eqI)
  fix n assume n: "n < LENGTH(32)"
  then have d: "n div 8 < 4" by (simp add: div_less_iff_less_mult)
  then have "m (a + of_nat (n div 8)) = ucast (drop_bit (8 * (n div 8)) v)"
    using assms le32_nth [OF d] by (simp add: holds_def le32_def)
  then show "bit (read32 m a) n = bit v n" using n by (simp add: bit_read32 bit_simps)
qed

lemma read16_le16:
  assumes "holds m a (le16 v)"
  shows "read16 m a = v"
proof (rule bit_word_eqI)
  fix n assume n: "n < LENGTH(16)"
  then have d: "n div 8 < 2" by (simp add: div_less_iff_less_mult)
  then have "m (a + of_nat (n div 8)) = ucast (drop_bit (8 * (n div 8)) v)"
    using assms le16_nth [OF d] by (simp add: holds_def le16_def)
  then show "bit (read16 m a) n = bit v n" using n by (simp add: bit_read16 bit_simps)
qed

locale madt_containers =
  lv: frg_vector "lapic_vector V" dl + nv: frg_vector "nmi_vector V" dn + iv: frg_vector "iso_vector V" di +
  ov: frg_vector "ioapic_vector V" dio for V :: madt_frg and dl dn di dio
begin

lemma madt_entry_add:
  assumes "holds m ent (encode e)" "entry_ok e"
  shows "madt_entry V m ent st = add_entry e st"
proof (cases e)
  case (Lapic l)
  then have "lapic_at m (ent + 2) = l"
    using assms(1) read32_le32 [of m "ent + 4" "la_flags l"] by (simp add: lapic_at_def holds_append algebra_simps)
  then show ?thesis
    using assms(1) Lapic by (simp add: madt_entry_def TYPE_LAPIC_def lv.vec_push_back)
next
  case (Ioapic i)
  then have "ioapic_at m (ent + 2) = i"
    using assms(1) read32_le32 [of m "ent + 4" "io_ioapic_addr i"] read32_le32 [of m "ent + 8" "io_gsi_base i"]
    by (simp add: ioapic_at_def holds_append algebra_simps) (simp add: le32_def algebra_simps)
  then show ?thesis
    using assms(1) Ioapic by (simp add: madt_entry_def TYPE_LAPIC_def TYPE_IOAPIC_def ov.vec_push_back)
next
  case (Iso x)
  then have "iso_at m (ent + 2) = x"
    using assms(1) read32_le32 [of m "ent + 4" "iso_gsi x"] read16_le16 [of m "ent + 8" "iso_flags x"]
    by (simp add: iso_at_def holds_append algebra_simps) (simp add: le32_def algebra_simps)
  then show ?thesis
    using assms(1) Iso by (simp add: madt_entry_def TYPE_LAPIC_def TYPE_IOAPIC_def TYPE_ISO_def iv.vec_push_back)
next
  case (Nmi x)
  then have "nmi_at m (ent + 2) = x"
    using assms(1) read16_le16 [of m "ent + 3" "nmi_flags x"]
    by (simp add: nmi_at_def holds_append algebra_simps) (simp add: le16_def algebra_simps)
  then show ?thesis
    using assms(1) Nmi
    by (simp add: madt_entry_def TYPE_LAPIC_def TYPE_IOAPIC_def TYPE_ISO_def TYPE_NMI_def nv.vec_push_back)
next
  case (Unknown ty data)
  then show ?thesis using assms by (auto simp: madt_entry_def TYPE_LAPIC_def TYPE_IOAPIC_def TYPE_ISO_def TYPE_NMI_def)
qed

lemma length_encode: "entry_ok e \<Longrightarrow> holds m a (encode e) \<Longrightarrow> unat (m (a + 1)) = length (encode e)"
proof (cases e)
  case (Unknown ty data)
  assume a: "entry_ok e" "holds m a (encode e)"
  then have m: "m (a + 1) = of_nat (length data + 2)" and "length data + 2 < 256" by (simp_all add: Unknown)
  then have "unat (of_nat (length data + 2) :: u8) = length data + 2" unfolding unat_of_nat by simp
  then show ?thesis unfolding m by (simp add: Unknown)
qed (auto simp: le32_def le16_def)

lemma madt_loop_entries:
  assumes "holds m (entries + off) (concat (map encode es))" "list_all entry_ok es"
    and "unat off + length (concat (map encode es)) \<le> unat n"
  shows "madt_loop V m entries n off st =
    madt_loop V m entries n (off + of_nat (length (concat (map encode es)))) (fold add_entry es st)"
  using assms
proof (induction es arbitrary: off st)
  case (Cons e es)
  have e: "holds m (entries + off) (encode e)" "entry_ok e"
    and es: "holds m (entries + off + of_nat (length (encode e))) (concat (map encode es))"
    using Cons.prems by (simp_all add: holds_append)
  have len: "unat (m (entries + off + 1)) = length (encode e)" using length_encode [OF e(2,1)] .
  have pos: "0 < length (encode e)" by (cases e) simp_all
  have step: "(ucast (m (entries + off + 1)) :: u64) = of_nat (length (encode e))"
    by (simp add: len [symmetric])
  have un: "unat (off + of_nat (length (encode e))) = unat off + length (encode e)"
    using Cons.prems(3) unsigned_less [of n, where 'a = nat]
    by (subst unat_add_less) (simp_all add: unat_of_nat)
  have "off < n" unfolding word_less_nat_alt using Cons.prems(3) pos by (simp del: length_greater_0_conv)
  then have "madt_loop V m entries n off st = madt_loop V m entries n (off + of_nat (length (encode e))) (add_entry e st)"
    by (subst madt_loop.simps) (simp add: step madt_entry_add [OF e])
  also have "\<dots> = madt_loop V m entries n (off + of_nat (length (encode e)) + of_nat (length (concat (map encode es))))
      (fold add_entry es (add_entry e st))"
    using es Cons.prems(2,3) un by (intro Cons.IH) (simp_all add: algebra_simps)
  finally show ?case by (simp add: algebra_simps)
qed simp

end

lemma madt_loop_stuck:
  assumes "madt_loop V m entries n off st = Some st'" "off < n"
  shows "m (entries + off + 1) \<noteq> 0"
proof -
  have "off < n \<longrightarrow> m (entries + off + 1) \<noteq> 0"
    by (rule madt_loop.raw_induct [where P = "\<lambda>V m entries n off st st'. off < n \<longrightarrow> m (entries + off + 1) \<noteq> 0", OF _ assms(1)])
       (fastforce split: if_splits)
  then show ?thesis using assms(2) by simp
qed

lemma fold_add_entry:
  "fold add_entry es st = st
     \<lparr>madt_lapics := madt_lapics st @ [l. Lapic l \<leftarrow> es], madt_nmis := madt_nmis st @ [n. Nmi n \<leftarrow> es],
      madt_isos := madt_isos st @ [i. Iso i \<leftarrow> es], madt_ioapics := madt_ioapics st @ [i. Ioapic i \<leftarrow> es]\<rparr>"
proof (induction es arbitrary: st)
  case (Cons e es)
  then show ?case by (cases e) simp_all
qed simp

text \<open>C35. The local APICs, the I/O APICs, the interrupt overrides and the non-maskable interrupts the kernel works with are
  exactly those the table lists, in order, whatever entries of other types stand between them; a table with an entry of
  length 0 keeps the kernel in its loop.\<close>

theorem madt_init_entries:
  assumes "madt_containers V dl dn di dio" "acpi_find_table T m rsdt ''APIC'' 0 = Inr (Some p)"
    and "holds m (p + 44) (concat (map encode es))" "list_all entry_ok es"
    and "n = 44 + length (concat (map encode es))"
  shows "(unat (sdt_len m p) = n \<longrightarrow>
      madt_init V T m rsdt boot_madt = Inr
        \<lparr>madt_ptr = Some p, madt_lapics = [l. Lapic l \<leftarrow> es], madt_nmis = [n. Nmi n \<leftarrow> es], madt_isos = [i. Iso i \<leftarrow> es],
         madt_ioapics = [i. Ioapic i \<leftarrow> es]\<rparr>) \<and>
    (n < unat (sdt_len m p) \<and> m (p + of_nat n + 1) = 0 \<longrightarrow> madt_init V T m rsdt boot_madt = Inl Diverges)"
proof (intro conjI impI)
  let ?n = "ucast (sdt_len m p) - 44 :: u64"
  let ?st = "boot_madt\<lparr>madt_ptr := Some p\<rparr>"
  have u: "unat (ucast (sdt_len m p) :: u64) = unat (sdt_len m p)"
    using unsigned_less [of "sdt_len m p", where 'a = nat] by (simp add: unsigned_ucast_eq take_bit_nat_eq_self)
  then have un: "unat ?n = unat (sdt_len m p) - 44" if "44 \<le> unat (sdt_len m p)"
    using that by (subst unat_sub_le) (simp_all add: word_le_nat_alt)
  have loop: "madt_loop V m (p + 44) ?n 0 ?st = madt_loop V m (p + 44) ?n (of_nat (n - 44)) (fold add_entry es ?st)"
    if "n \<le> unat (sdt_len m p)"
    using madt_containers.madt_loop_entries [OF assms(1), of m "p + 44" 0 es ?n ?st] assms(3-5) that un by simp
  {
    assume l: "unat (sdt_len m p) = n"
    then have "?n = of_nat (n - 44)" using un assms(5) by (metis le_add1 of_nat_unat ucast_id unat_of_nat)
    then have "madt_loop V m (p + 44) ?n 0 ?st = Some (fold add_entry es ?st)"
      using loop l by (simp add: madt_loop.simps)
    then show "madt_init V T m rsdt boot_madt = Inr
        \<lparr>madt_ptr = Some p, madt_lapics = [l. Lapic l \<leftarrow> es], madt_nmis = [n. Nmi n \<leftarrow> es], madt_isos = [i. Iso i \<leftarrow> es],
         madt_ioapics = [i. Ioapic i \<leftarrow> es]\<rparr>"
      by (simp add: madt_init_def assms(2) sizeof_madt_def fold_add_entry boot_madt_def)
  }
  assume l: "n < unat (sdt_len m p) \<and> m (p + of_nat n + 1) = 0"
  have n: "(of_nat n :: u64) = 44 + of_nat (n - 44)" using assms(5) by simp
  have "n - 44 < 2 ^ 32" using l [THEN conjunct1] unsigned_less [of "sdt_len m p", where 'a = nat] by simp
  then have "unat (of_nat (n - 44) :: u64) = n - 44" unfolding unat_of_nat by simp
  moreover have "n - 44 < unat ?n" using l un assms(5) by linarith
  ultimately have "(of_nat (n - 44) :: u64) < ?n" unfolding word_less_nat_alt by (simp only:)
  moreover have "m (p + 44 + of_nat (n - 44) + 1) = 0" using l unfolding n by (simp add: algebra_simps)
  ultimately have "madt_loop V m (p + 44) ?n 0 ?st = None"
    using loop l madt_loop_stuck [of V m "p + 44" ?n "of_nat (n - 44)"] by (metis less_or_eq_imp_le not_Some_eq)
  then show "madt_init V T m rsdt boot_madt = Inl Diverges" by (simp add: madt_init_def assms(2) sizeof_madt_def)
qed

section \<open>An instance\<close>

definition ref_madt :: madt_frg where
  "ref_madt = \<lparr>lapic_vector = ref_vector \<lparr>la_proc_id = 0, la_apic_id = 0, la_flags = 0\<rparr>,
     nmi_vector = ref_vector \<lparr>nmi_proc_id = 0, nmi_flags = 0, nmi_lint = 0\<rparr>,
     iso_vector = ref_vector \<lparr>iso_bus = 0, iso_irq = 0, iso_gsi = 0, iso_flags = 0\<rparr>,
     ioapic_vector = ref_vector \<lparr>io_ioapic_id = 0, io_reserved = 0, io_ioapic_addr = 0, io_gsi_base = 0\<rparr>\<rparr>"

interpretation refmadt: madt_containers ref_madt "\<lparr>la_proc_id = 0, la_apic_id = 0, la_flags = 0\<rparr>"
    "\<lparr>nmi_proc_id = 0, nmi_flags = 0, nmi_lint = 0\<rparr>" "\<lparr>iso_bus = 0, iso_irq = 0, iso_gsi = 0, iso_flags = 0\<rparr>"
    "\<lparr>io_ioapic_id = 0, io_reserved = 0, io_ioapic_addr = 0, io_gsi_base = 0\<rparr>"
  by unfold_locales (simp_all add: ref_madt_def refvec.vec_push_back refvec.vec_resize)

definition demo_isos :: "entry list" where
  "demo_isos = [Lapic \<lparr>la_proc_id = 0, la_apic_id = 0, la_flags = 1\<rparr>, Unknown 9 [0, 0],
     Ioapic \<lparr>io_ioapic_id = 0, io_reserved = 0, io_ioapic_addr = 0xFEC00000, io_gsi_base = 0\<rparr>,
     Iso \<lparr>iso_bus = 0, iso_irq = 0, iso_gsi = 2, iso_flags = 0\<rparr>]"

definition demo_madt :: "u8 list" where
  "demo_madt = [65, 80, 73, 67, 78, 0, 0, 0, 1, 0xC6] @ replicate 26 0 @ [0, 0, 0xE0, 0xFE, 1, 0, 0, 0] @ concat (map encode demo_isos)"

definition demo_tables :: mem where
  "demo_tables a =
     (if a - 0x1000 < 40 then ([82, 83, 68, 84, 40] @ replicate 31 0 @ [0, 0x20, 0, 0]) ! unat (a - 0x1000)
      else if a - 0x2000 < 78 then demo_madt ! unat (a - 0x2000) else 0)"

definition demo_fadt :: fadt_fields where
  "demo_fadt = \<lparr>fadt_sci_irq = (\<lambda>m a. read16 m (a + 46)), fadt_dsdt = (\<lambda>m a. read32 m (a + 40))\<rparr>"

lemma demo_tables_sum: "length demo_madt = 78 \<and> sum_list (bytes_at demo_tables 0x2000 78) = 0"
  by code_simp

lemma demo_find_apic: "acpi_find_table demo_fadt demo_tables (Some 0x1000) ''APIC'' 0 = Inr (Some 0x2000)"
  by code_simp

theorem acpi_find_table_nth_witness:
  "''APIC'' \<noteq> ''DSDT'' \<and> acpi_find_table demo_fadt demo_tables (Some 0x1000) ''APIC'' 0 =
     Inr (let ts = filter (table_valid demo_tables ''APIC'') (rsdt_tables demo_tables 0x1000)
          in if unat (0 :: u64) < length ts then Some (ts ! unat (0 :: u64)) else None)"
  using acpi_find_table_nth [of "''APIC''" demo_fadt demo_tables "0x1000" 0] by simp

lemma demo_madt_entries:
  "holds demo_tables (0x2000 + 44) (concat (map encode demo_isos)) \<and> list_all entry_ok demo_isos \<and>
   unat (sdt_len demo_tables 0x2000) = 78 \<and> length (concat (map encode demo_isos)) = 34"
  by code_simp

theorem madt_init_entries_witness:
  "madt_init ref_madt demo_fadt demo_tables (Some 0x1000) boot_madt = Inr
     \<lparr>madt_ptr = Some 0x2000, madt_lapics = [\<lparr>la_proc_id = 0, la_apic_id = 0, la_flags = 1\<rparr>], madt_nmis = [],
      madt_isos = [\<lparr>iso_bus = 0, iso_irq = 0, iso_gsi = 2, iso_flags = 0\<rparr>],
      madt_ioapics = [\<lparr>io_ioapic_id = 0, io_reserved = 0, io_ioapic_addr = 0xFEC00000, io_gsi_base = 0\<rparr>]\<rparr>"
  using madt_init_entries [OF refmadt.madt_containers_axioms demo_find_apic, of demo_isos 78] demo_madt_entries
  by (simp add: demo_isos_def)

end
