(* ===== verification/Ioapic.thy ===== *)
theory Ioapic
  imports Acpi
begin

text \<open>
  The I/O APICs, \<open>arch/x86_64/cpu/ioapic.cpp\<close>. Their registers are behind an index and a data register in memory; what a
  device does on an access is an argument, and the contract of the device is a locale. \<open>ioapic_get_iso_by_gsi\<close>
  returns a pointer into a copy of the vector of overrides that is destroyed when it returns: what reading the flags through
  that pointer gives is an argument too.
\<close>

section \<open>Registers\<close>

record 'd mmio_ops =
  mm_read :: "'d \<Rightarrow> u64 \<Rightarrow> u32 \<times> 'd"
  mm_write :: "'d \<Rightarrow> u64 \<Rightarrow> u32 \<Rightarrow> 'd"

definition ioapic_addr :: "madt_state \<Rightarrow> nat \<Rightarrow> u64" where
  "ioapic_addr st i = ucast (io_ioapic_addr (madt_ioapics st ! i)) + VIRT_PHYS_BASE"

definition ioapic_read :: "'d mmio_ops \<Rightarrow> madt_state \<Rightarrow> 'd \<Rightarrow> nat \<Rightarrow> u32 \<Rightarrow> (u32 \<times> 'd) result" where
  "ioapic_read M st d i reg =
     (if length (madt_ioapics st) \<le> i then Inl Panic
      else Inr (mm_read M (mm_write M d (ioapic_addr st i) reg) (ioapic_addr st i + 16)))"

definition ioapic_write :: "'d mmio_ops \<Rightarrow> madt_state \<Rightarrow> 'd \<Rightarrow> nat \<Rightarrow> u32 \<Rightarrow> u32 \<Rightarrow> 'd result" where
  "ioapic_write M st d i reg val =
     (if length (madt_ioapics st) \<le> i then Inl Panic
      else Inr (mm_write M (mm_write M d (ioapic_addr st i) reg) (ioapic_addr st i + 16) val))"

definition ioapic_get_gsi_window_size :: "'d mmio_ops \<Rightarrow> madt_state \<Rightarrow> 'd \<Rightarrow> nat \<Rightarrow> (u64 \<times> 'd) result" where
  "ioapic_get_gsi_window_size M st d i =
     and_then (ioapic_read M st d i 1) (\<lambda>(v, d). Inr (ucast (drop_bit 16 v AND 0xff), d))"

section \<open>Pins\<close>

fun get_by_gsi_loop :: "'d mmio_ops \<Rightarrow> madt_state \<Rightarrow> 'd \<Rightarrow> u32 \<Rightarrow> nat list \<Rightarrow> (nat \<times> 'd) result" where
  "get_by_gsi_loop M st d gsi [] = Inl Panic"
| "get_by_gsi_loop M st d gsi (i # is) =
     and_then (ioapic_get_gsi_window_size M st d i) (\<lambda>(window_size, d).
       if io_gsi_base (madt_ioapics st ! i) \<le> gsi \<and> ucast gsi \<le> ucast (io_gsi_base (madt_ioapics st ! i)) + window_size
       then Inr (i, d) else get_by_gsi_loop M st d gsi is)"

definition ioapic_get_by_gsi :: "'d mmio_ops \<Rightarrow> madt_state \<Rightarrow> 'd \<Rightarrow> u32 \<Rightarrow> (nat \<times> 'd) result" where
  "ioapic_get_by_gsi M st d gsi = get_by_gsi_loop M st d gsi [0..<length (madt_ioapics st)]"

definition pin_entry :: "u8 \<Rightarrow> u16 \<Rightarrow> u8 \<Rightarrow> bool \<Rightarrow> u64" where
  "pin_entry irq flags apic masked =
     (let ent = ucast irq :: u64;
          ent = (if flags AND 2 \<noteq> 0 then ent OR push_bit 13 1 else ent);
          ent = (if flags AND 8 \<noteq> 0 then ent OR push_bit 15 1 else ent);
          ent = (if masked then ent OR push_bit 16 1 else ent)
      in ent OR push_bit 56 (ucast apic))"

definition ioapic_map_pin_to_irq ::
  "'d mmio_ops \<Rightarrow> madt_state \<Rightarrow> 'd \<Rightarrow> nat \<Rightarrow> u8 \<Rightarrow> u32 \<Rightarrow> u16 \<Rightarrow> u8 \<Rightarrow> bool \<Rightarrow> 'd result" where
  "ioapic_map_pin_to_irq M st d i irq pin flags apic masked =
     (let ent = pin_entry irq flags apic masked; reg = pin * 2 + 16
      in and_then (ioapic_write M st d i (reg + 0) (ucast ent)) (\<lambda>d.
           ioapic_write M st d i (reg + 1) (ucast (drop_bit 32 ent))))"

definition ioapic_mask_pin :: "'d mmio_ops \<Rightarrow> madt_state \<Rightarrow> 'd \<Rightarrow> nat \<Rightarrow> u32 \<Rightarrow> bool \<Rightarrow> 'd result" where
  "ioapic_mask_pin M st d i pin masked =
     (let reg = pin * 2 + 16
      in and_then (ioapic_read M st d i (reg + 0)) (\<lambda>(lo, d).
         and_then (ioapic_read M st d i (reg + 1)) (\<lambda>(hi, d).
         let ent = ucast lo OR push_bit 32 (ucast hi) :: u64;
             ent = (if masked then ent OR push_bit 16 1 else ent AND NOT (push_bit 16 1))
         in and_then (ioapic_write M st d i (reg + 0) (ucast ent)) (\<lambda>d.
              ioapic_write M st d i (reg + 1) (ucast (drop_bit 32 ent))))))"

definition ioapic_mask_gsi :: "'d mmio_ops \<Rightarrow> madt_state \<Rightarrow> 'd \<Rightarrow> u32 \<Rightarrow> bool \<Rightarrow> 'd result" where
  "ioapic_mask_gsi M st d gsi masked =
     and_then (ioapic_get_by_gsi M st d gsi) (\<lambda>(i, d).
       ioapic_mask_pin M st d i (gsi - io_gsi_base (madt_ioapics st ! i)) masked)"

definition ioapic_map_gsi_to_irq ::
  "'d mmio_ops \<Rightarrow> madt_state \<Rightarrow> 'd \<Rightarrow> u8 \<Rightarrow> u32 \<Rightarrow> u16 \<Rightarrow> u8 \<Rightarrow> bool \<Rightarrow> 'd result" where
  "ioapic_map_gsi_to_irq M st d irq gsi flags apic masked =
     and_then (ioapic_get_by_gsi M st d gsi) (\<lambda>(i, d).
       ioapic_map_pin_to_irq M st d i irq (gsi - io_gsi_base (madt_ioapics st ! i)) flags apic masked)"

section \<open>Vectors\<close>

definition ioapic_get_iso_by_gsi :: "madt_state \<Rightarrow> u32 \<Rightarrow> madt_iso option" where
  "ioapic_get_iso_by_gsi st gsi = find (\<lambda>iso. iso_gsi iso = gsi) (madt_isos st)"

text \<open>The loop over the pins of one I/O APIC, and over the I/O APICs. \<open>vec - 0x40\<close> is computed in an \<open>int\<close>.\<close>

fun init_pins ::
  "'d mmio_ops \<Rightarrow> (madt_iso \<Rightarrow> u16 result) \<Rightarrow> madt_state \<Rightarrow> nat \<Rightarrow> 'd \<Rightarrow> u64 \<Rightarrow> u8 \<Rightarrow> nat \<Rightarrow> ('d \<times> u8) result" where
  "init_pins M stale st i d j vec 0 = Inr (d, vec)"
| "init_pins M stale st i d j vec (Suc n) =
     and_then (case ioapic_get_iso_by_gsi st (ucast vec - 0x40) of None \<Rightarrow> Inr 0 | Some e \<Rightarrow> stale e) (\<lambda>flags.
     and_then (ioapic_map_pin_to_irq M st d i vec (ucast j) flags 0 False) (\<lambda>d.
       init_pins M stale st i d (j + 1) (vec + 1) n))"

fun init_ioapics ::
  "'d mmio_ops \<Rightarrow> (madt_iso \<Rightarrow> u16 result) \<Rightarrow> madt_state \<Rightarrow> 'd \<Rightarrow> u8 \<Rightarrow> nat list \<Rightarrow> ('d \<times> u8) result" where
  "init_ioapics M stale st d vec [] = Inr (d, vec)"
| "init_ioapics M stale st d vec (i # is) =
     (if vec < 0xE0
      then
        and_then (ioapic_get_gsi_window_size M st d i) (\<lambda>(n_pins, d).
        and_then (init_pins M stale st i d 0 vec (Suc (unat n_pins))) (\<lambda>(d, vec).
          init_ioapics M stale st d vec is))
      else Inr (d, vec))"

definition ioapic_init :: "'d mmio_ops \<Rightarrow> (madt_iso \<Rightarrow> u16 result) \<Rightarrow> madt_state \<Rightarrow> 'd \<Rightarrow> 'd result" where
  "ioapic_init M stale st d =
     and_then (init_ioapics M stale st d 0x40 [0..<length (madt_ioapics st)]) (\<lambda>(d, vec).
       kassert (vec < 0xE0) (Inr d))"

fun vector_pins :: "u32 \<Rightarrow> u32 \<Rightarrow> u64 \<Rightarrow> u8 \<Rightarrow> nat \<Rightarrow> u8 + u8" where
  "vector_pins base gsi j vec 0 = Inl vec"
| "vector_pins base gsi j vec (Suc n) =
     (if ucast base + j = (ucast gsi :: u64) then Inr vec else vector_pins base gsi (j + 1) (vec + 1) n)"

fun vector_ioapics :: "'d mmio_ops \<Rightarrow> madt_state \<Rightarrow> u32 \<Rightarrow> 'd \<Rightarrow> u8 \<Rightarrow> nat list \<Rightarrow> (u8 \<times> 'd) result" where
  "vector_ioapics M st gsi d vec [] = Inr (-1, d)"
| "vector_ioapics M st gsi d vec (i # is) =
     (if vec < 0xE0
      then
        and_then (ioapic_get_gsi_window_size M st d i) (\<lambda>(n_pins, d).
          (case vector_pins (io_gsi_base (madt_ioapics st ! i)) gsi 0 vec (Suc (unat n_pins)) of
             Inr found \<Rightarrow> Inr (found, d)
           | Inl vec \<Rightarrow> vector_ioapics M st gsi d vec is))
      else Inr (-1, d))"

definition ioapic_get_vector_by_gsi :: "'d mmio_ops \<Rightarrow> madt_state \<Rightarrow> 'd \<Rightarrow> u32 \<Rightarrow> (u8 \<times> 'd) result" where
  "ioapic_get_vector_by_gsi M st d gsi = vector_ioapics M st gsi d 0x40 [0..<length (madt_ioapics st)]"

definition ioapic_get_vector_by_irq :: "'d mmio_ops \<Rightarrow> madt_state \<Rightarrow> 'd \<Rightarrow> u8 \<Rightarrow> (u8 \<times> 'd) result" where
  "ioapic_get_vector_by_irq M st d irq =
     (case find (\<lambda>iso. iso_bus iso = 0 \<and> iso_irq iso = irq) (madt_isos st) of
        Some e \<Rightarrow> ioapic_get_vector_by_gsi M st d (iso_gsi e)
      | None \<Rightarrow> ioapic_get_vector_by_gsi M st d (ucast irq))"

definition ioapic_get_gsi_by_irq :: "madt_state \<Rightarrow> u8 \<Rightarrow> u32" where
  "ioapic_get_gsi_by_irq st irq =
     (case find (\<lambda>iso. iso_bus iso = 0 \<and> iso_irq iso = irq) (madt_isos st) of
        Some e \<Rightarrow> iso_gsi e | None \<Rightarrow> -1)"

section \<open>The contract of the device\<close>

text \<open>The registers of the I/O APIC at an address. Selecting a register and reading the data register gives its contents;
  writing it sets every bit of a redirection register but the two read-only ones, the delivery status and the remote request
  register, and changes no other register.\<close>

locale ioapic_device =
  fixes M :: "'d mmio_ops" and reg :: "'d \<Rightarrow> u64 \<Rightarrow> u32 \<Rightarrow> u32" and present :: "u64 \<Rightarrow> bool"
  assumes read_selected: "present a \<Longrightarrow> fst (mm_read M (mm_write M d a r) (a + 16)) = reg d a r"
    and read_keeps: "present a \<Longrightarrow> reg (snd (mm_read M (mm_write M d a r) (a + 16))) = reg d"
    and write_selected: "present a \<Longrightarrow> 16 \<le> r \<Longrightarrow> r < 256 \<Longrightarrow> n < 32 \<Longrightarrow> n \<noteq> 12 \<Longrightarrow> n \<noteq> 14 \<Longrightarrow>
      bit (reg (mm_write M (mm_write M d a r) (a + 16) v) a r) n = bit v n"
    and write_other: "present a \<Longrightarrow> (b, q) \<noteq> (a, r) \<Longrightarrow>
      reg (mm_write M (mm_write M d a r) (a + 16) v) b q = reg d b q"

text \<open>What the registers say: the index of the last pin, the number of the first interrupt of an I/O APIC when the
  interrupts are numbered consecutively, and the redirection entry of a pin.\<close>

definition last_pin :: "('d \<Rightarrow> u64 \<Rightarrow> u32 \<Rightarrow> u32) \<Rightarrow> madt_state \<Rightarrow> 'd \<Rightarrow> nat \<Rightarrow> nat" where
  "last_pin reg st d i = unat (drop_bit 16 (reg d (ioapic_addr st i) 1) AND 0xff)"

definition first_gsi :: "('d \<Rightarrow> u64 \<Rightarrow> u32 \<Rightarrow> u32) \<Rightarrow> madt_state \<Rightarrow> 'd \<Rightarrow> nat \<Rightarrow> nat" where
  "first_gsi reg st d i = (\<Sum>k<i. Suc (last_pin reg st d k))"

definition redirection :: "('d \<Rightarrow> u64 \<Rightarrow> u32 \<Rightarrow> u32) \<Rightarrow> madt_state \<Rightarrow> 'd \<Rightarrow> nat \<Rightarrow> nat \<Rightarrow> u64" where
  "redirection reg st d i j =
     ucast (reg d (ioapic_addr st i) (of_nat j * 2 + 16)) OR push_bit 32 (ucast (reg d (ioapic_addr st i) (of_nat j * 2 + 17)))"

definition gsi_flags :: "madt_state \<Rightarrow> u32 \<Rightarrow> u16" where
  "gsi_flags st gsi = (case ioapic_get_iso_by_gsi st gsi of None \<Rightarrow> 0 | Some e \<Rightarrow> iso_flags e)"

text \<open>The entry routes its pin to a vector of the first processor, unmasked, with the polarity and trigger mode of the
  interrupt.\<close>

definition routes :: "u64 \<Rightarrow> u8 \<Rightarrow> u16 \<Rightarrow> bool" where
  "routes e vec flags \<longleftrightarrow>
     e AND 0xFF = ucast vec \<and> (bit e 13 \<longleftrightarrow> bit flags 1) \<and> (bit e 15 \<longleftrightarrow> bit flags 3) \<and> \<not> bit e 16 \<and> drop_bit 56 e = 0"

lemma and_2_bit: "(w :: u16) AND 2 \<noteq> 0 \<longleftrightarrow> bit w 1"
  using and_exp_eq_0_iff_not_bit [of w 1] by simp

lemma and_8_bit: "(w :: u16) AND 8 \<noteq> 0 \<longleftrightarrow> bit w 3"
  using and_exp_eq_0_iff_not_bit [of w 3] by simp

lemma bit_pin_entry:
  "bit (pin_entry vec flags 0 False) n \<longleftrightarrow>
     n < 8 \<and> bit vec n \<or> n = 13 \<and> bit flags 1 \<or> n = 15 \<and> bit flags 3"
proof -
  have v: "bit (ucast vec :: u64) n \<longleftrightarrow> n < 8 \<and> bit vec n"
    by (auto simp: bit_unsigned_iff dest: bit_imp_le_length)
  have p: "bit (push_bit k 1 :: u64) n \<longleftrightarrow> n = k" if "k < 64" for k
    unfolding bit_push_bit_1 using that by auto
  show ?thesis
    unfolding pin_entry_def Let_def and_2_bit and_8_bit
    by (cases "bit flags 1"; cases "bit flags 3")
      (simp_all only: if_True if_False bit_or_iff v p push_bit_of_0 bit_0_eq bot_apply unsigned_0, auto)
qed

lemma routes_pin_entry:
  assumes "\<And>n. n < 64 \<Longrightarrow> n \<noteq> 12 \<Longrightarrow> n \<noteq> 14 \<Longrightarrow> n \<noteq> 44 \<Longrightarrow> n \<noteq> 46 \<Longrightarrow>
    bit e n = bit (pin_entry vec flags 0 False) n"
  shows "routes e vec flags"
proof -
  have "e AND 0xFF = ucast vec"
  proof (rule bit_word_eqI)
    fix n assume n: "n < LENGTH(64)"
    have m: "(0xFF :: u64) = mask 8" by (simp add: mask_eq_exp_minus_1)
    show "bit (e AND 0xFF) n = bit (ucast vec :: u64) n"
      using n assms [of n] unfolding m by (cases "n < 8") (auto simp: bit_and_iff bit_mask_iff bit_unsigned_iff bit_pin_entry dest: bit_imp_le_length)
  qed
  moreover have "drop_bit 56 e = 0"
  proof (rule bit_word_eqI)
    fix n assume "n < LENGTH(64)"
    show "bit (drop_bit 56 e) n = bit 0 n"
      using assms [of "56 + n"] bit_imp_le_length [of e "56 + n"] by (auto simp: bit_drop_bit_eq bit_pin_entry)
  qed
  ultimately show ?thesis using assms by (simp add: routes_def bit_pin_entry)
qed

lemma first_gsi_Suc: "first_gsi reg st d (Suc i) = first_gsi reg st d i + Suc (last_pin reg st d i)"
  by (simp add: first_gsi_def)

lemma first_gsi_mono: "i \<le> j \<Longrightarrow> first_gsi reg st d i \<le> first_gsi reg st d j"
  unfolding first_gsi_def by (rule sum_mono2) auto

lemma ucast_of_nat_32: "k < 2 ^ 32 \<Longrightarrow> (ucast (of_nat k :: u32) :: u64) = of_nat k"
  by (simp add: word_unat_eq_iff unsigned_ucast_eq unat_of_nat take_bit_nat_eq_self)

lemma ucast_of_nat_64: "k < 2 ^ 32 \<Longrightarrow> (ucast (of_nat k :: u64) :: u32) = of_nat k"
  by (simp add: word_unat_eq_iff unsigned_ucast_eq unat_of_nat take_bit_nat_eq_self)

text \<open>The search for an interrupt among the pins of one I/O APIC.\<close>

lemma vector_pins_spec:
  assumes "b + j + n < 2 ^ 32" "g < 2 ^ 32"
  shows "vector_pins (of_nat b) (of_nat g) (of_nat j) v n =
    (if b + j \<le> g \<and> g < b + j + n then Inr (v + of_nat (g - b - j)) else Inl (v + of_nat n))"
  using assms(1)
proof (induction n arbitrary: j v)
  case (Suc n)
  have u: "(ucast (of_nat b :: u32) + of_nat j = (ucast (of_nat g :: u32) :: u64)) \<longleftrightarrow> b + j = g"
  proof -
    have e: "(ucast (of_nat b :: u32) :: u64) = of_nat b" "(ucast (of_nat g :: u32) :: u64) = of_nat g"
      using Suc.prems assms(2) by (simp_all add: ucast_of_nat_32)
    have "(of_nat b + of_nat j = (of_nat g :: u64)) \<longleftrightarrow> (of_nat (b + j) :: u64) = of_nat g" by simp
    also have "\<dots> \<longleftrightarrow> b + j = g" using Suc.prems assms(2) by (intro of_nat_u64_inj) simp_all
    finally show ?thesis unfolding e .
  qed
  have IH: "vector_pins (of_nat b) (of_nat g) (of_nat j + 1) (v + 1) n =
    (if b + Suc j \<le> g \<and> g < b + Suc j + n then Inr (v + 1 + of_nat (g - b - Suc j)) else Inl (v + 1 + of_nat n))"
    using Suc.IH [of "Suc j" "v + 1"] Suc.prems by (simp add: add.commute)
  have "v + 1 + of_nat (g - b - Suc j) = v + of_nat (g - b - j)" if "b + Suc j \<le> g"
    using that by (simp add: of_nat_diff algebra_simps)
  then show ?case using IH by (auto simp: u)
qed auto

context ioapic_device
begin

lemma write_reg:
  assumes "i < length (madt_ioapics st)" "present (ioapic_addr st i)" "16 \<le> r" "r < 256"
  obtains d' where "ioapic_write M st d i r v = Inr d'"
    "\<And>n. n < 32 \<Longrightarrow> n \<noteq> 12 \<Longrightarrow> n \<noteq> 14 \<Longrightarrow> bit (reg d' (ioapic_addr st i) r) n = bit v n"
    "\<And>b q. (b, q) \<noteq> (ioapic_addr st i, r) \<Longrightarrow> reg d' b q = reg d b q"
  using assms write_selected [OF assms(2-4), of _ d v] write_other [OF assms(2), of _ _ r d v]
  by (auto simp: ioapic_write_def)

lemma window_size:
  assumes "i < length (madt_ioapics st)" "present (ioapic_addr st i)"
  obtains w d' where "ioapic_get_gsi_window_size M st d i = Inr (w, d')" "unat w = last_pin reg st d i" "reg d' = reg d"
proof -
  obtain v d' where r: "mm_read M (mm_write M d (ioapic_addr st i) 1) (ioapic_addr st i + 16) = (v, d')" by fastforce
  have v: "v = reg d (ioapic_addr st i) 1" using read_selected [OF assms(2), of d 1] r by simp
  have "reg d' = reg d" using read_keeps [OF assms(2), of d 1] r by simp
  moreover have "unat (ucast (drop_bit 16 v AND 0xff) :: u64) = last_pin reg st d i"
    using unsigned_less [of "drop_bit 16 v AND 0xff", where 'a = nat]
    by (simp add: last_pin_def v unsigned_ucast_eq take_bit_nat_eq_self)
  ultimately show ?thesis
    using that assms(1) r by (simp add: ioapic_get_gsi_window_size_def ioapic_read_def)
qed

lemma pin_regs:
  "j \<le> 119 \<Longrightarrow> 16 \<le> (of_nat j * 2 + 16 :: u32) \<and> (of_nat j * 2 + 16 :: u32) < 256 \<and>
    16 \<le> (of_nat j * 2 + 17 :: u32) \<and> (of_nat j * 2 + 17 :: u32) < 256"
proof -
  assume j: "j \<le> 119"
  have "(of_nat j * 2 + 16 :: u32) = of_nat (j * 2 + 16)" "(of_nat j * 2 + 17 :: u32) = of_nat (j * 2 + 17)" by simp_all
  then show ?thesis using j by (simp add: word_le_nat_alt word_less_nat_alt unat_of_nat del: of_nat_add of_nat_mult)
qed

text \<open>Writing the two registers of a pin sets its redirection entry and nothing else.\<close>

lemma map_pin:
  assumes "i < length (madt_ioapics st)" "present (ioapic_addr st i)" "j \<le> 119"
  obtains d' where "ioapic_map_pin_to_irq M st d i vec (of_nat j) flags 0 False = Inr d'"
    "routes (redirection reg st d' i j) vec flags"
    "\<And>b q. b \<noteq> ioapic_addr st i \<or> q \<noteq> of_nat j * 2 + 16 \<and> q \<noteq> of_nat j * 2 + 17 \<Longrightarrow> reg d' b q = reg d b q"
proof -
  let ?e = "pin_entry vec flags 0 False" and ?a = "ioapic_addr st i"
  let ?lo = "of_nat j * 2 + 16 :: u32" and ?hi = "of_nat j * 2 + 17 :: u32"
  have r: "16 \<le> ?lo" "?lo < 256" "16 \<le> ?hi" "?hi < 256"
    using pin_regs [OF assms(3)] by simp_all
  obtain d1 where d1: "ioapic_write M st d i ?lo (ucast ?e) = Inr d1"
    "\<And>n. n < 32 \<Longrightarrow> n \<noteq> 12 \<Longrightarrow> n \<noteq> 14 \<Longrightarrow> bit (reg d1 ?a ?lo) n = bit (ucast ?e :: u32) n"
    "\<And>b q. (b, q) \<noteq> (?a, ?lo) \<Longrightarrow> reg d1 b q = reg d b q"
    using write_reg [OF assms(1,2) r(1,2), of d "ucast ?e"] by blast
  obtain d2 where d2: "ioapic_write M st d1 i ?hi (ucast (drop_bit 32 ?e)) = Inr d2"
    "\<And>n. n < 32 \<Longrightarrow> n \<noteq> 12 \<Longrightarrow> n \<noteq> 14 \<Longrightarrow> bit (reg d2 ?a ?hi) n = bit (ucast (drop_bit 32 ?e) :: u32) n"
    "\<And>b q. (b, q) \<noteq> (?a, ?hi) \<Longrightarrow> reg d2 b q = reg d1 b q"
    using write_reg [OF assms(1,2) r(3,4), of d1 "ucast (drop_bit 32 ?e)"] by blast
  have hi: "?lo + 1 = ?hi" "?lo \<noteq> ?hi" by simp_all
  show ?thesis
  proof (rule that)
    show "ioapic_map_pin_to_irq M st d i vec (of_nat j) flags 0 False = Inr d2"
      using d1(1) d2(1) by (simp add: ioapic_map_pin_to_irq_def Let_def hi(1) add.commute)
    show "reg d2 b q = reg d b q" if "b \<noteq> ?a \<or> q \<noteq> ?lo \<and> q \<noteq> ?hi" for b q
      using that d1(3) [of b q] d2(3) [of b q] by auto
    show "routes (redirection reg st d2 i j) vec flags"
    proof (rule routes_pin_entry)
      fix n :: nat assume n: "n < 64" "n \<noteq> 12" "n \<noteq> 14" "n \<noteq> 44" "n \<noteq> 46"
      have lo: "reg d2 ?a ?lo = reg d1 ?a ?lo" using d2(3) hi(2) by simp
      have "bit (redirection reg st d2 i j) n = (if n < 32 then bit (reg d1 ?a ?lo) n else bit (reg d2 ?a ?hi) (n - 32))"
        unfolding redirection_def lo bit_or_iff bit_unsigned_iff bit_push_bit_iff
        using n(1) by (auto dest: bit_imp_le_length)
      then show "bit (redirection reg st d2 i j) n = bit ?e n"
        using n d1(2) [of n] d2(2) [of "n - 32"] by (auto simp: bit_unsigned_iff bit_drop_bit_eq)
    qed
  qed
qed

text \<open>The registers outside the pins from \<open>j\<close> to \<open>j + n\<close> of an I/O APIC.\<close>

lemma init_pins_routes:
  assumes "i < length (madt_ioapics st)" "present (ioapic_addr st i)" "j + n \<le> 120" "g + n \<le> 160"
    and "\<forall>k e. k < n \<and> ioapic_get_iso_by_gsi st (of_nat (g + k)) = Some e \<longrightarrow> stale e = Inr (iso_flags e)"
  shows "\<exists>d'. init_pins M stale st i d (of_nat j) (of_nat (0x40 + g)) n = Inr (d', of_nat (0x40 + g + n)) \<and>
    (\<forall>k<n. routes (redirection reg st d' i (j + k)) (of_nat (0x40 + g + k)) (gsi_flags st (of_nat (g + k)))) \<and>
    (\<forall>b q. b \<noteq> ioapic_addr st i \<or> unat q < j * 2 + 16 \<longrightarrow> reg d' b q = reg d b q)"
  using assms(3-5)
proof (induction n arbitrary: d j g)
  case (Suc n)
  define v :: u8 where "v = of_nat (0x40 + g)"
  have uv: "unat v = 0x40 + g" unfolding v_def unat_of_nat using Suc.prems(2) by simp
  have "ucast v = (of_nat (0x40 + g) :: u32)" by (metis of_nat_unat uv)
  then have gs: "ucast v - 0x40 = (of_nat g :: u32)" by simp
  have fl: "(case ioapic_get_iso_by_gsi st (ucast v - 0x40) of None \<Rightarrow> Inr 0 | Some e \<Rightarrow> stale e) = Inr (gsi_flags st (of_nat g))"
    unfolding gs gsi_flags_def using Suc.prems(3) [rule_format, of 0] by (cases "ioapic_get_iso_by_gsi st (of_nat g)") auto
  obtain d1 where d1: "ioapic_map_pin_to_irq M st d i v (of_nat j) (gsi_flags st (of_nat g)) 0 False = Inr d1"
    "routes (redirection reg st d1 i j) v (gsi_flags st (of_nat g))"
    "\<And>b q. b \<noteq> ioapic_addr st i \<or> q \<noteq> of_nat j * 2 + 16 \<and> q \<noteq> of_nat j * 2 + 17 \<Longrightarrow> reg d1 b q = reg d b q"
    using map_pin [OF assms(1,2), of j d v "gsi_flags st (of_nat g)"] Suc.prems(1) by auto
  obtain d2 where d2: "init_pins M stale st i d1 (of_nat (Suc j)) (of_nat (0x40 + Suc g)) n = Inr (d2, of_nat (0x40 + Suc g + n))"
    "\<forall>k<n. routes (redirection reg st d2 i (Suc j + k)) (of_nat (0x40 + Suc g + k)) (gsi_flags st (of_nat (Suc g + k)))"
    "\<forall>b q. b \<noteq> ioapic_addr st i \<or> unat q < Suc j * 2 + 16 \<longrightarrow> reg d2 b q = reg d1 b q"
    using Suc.IH [of "Suc j" "Suc g" d1] Suc.prems(1,2) Suc.prems(3) [rule_format, of "Suc _"] by auto
  have "(of_nat j * 2 + 16 :: u32) = of_nat (j * 2 + 16)" "(of_nat j * 2 + 17 :: u32) = of_nat (j * 2 + 17)" by simp_all
  then have uj: "unat (of_nat j * 2 + 16 :: u32) = j * 2 + 16" "unat (of_nat j * 2 + 17 :: u32) = j * 2 + 17"
    using Suc.prems(1) by (simp_all add: unat_of_nat del: of_nat_add of_nat_mult)
  have "redirection reg st d2 i j = redirection reg st d1 i j"
    using d2(3) uj by (simp add: redirection_def)
  then have 0: "routes (redirection reg st d2 i (j + k)) (of_nat (0x40 + g + k)) (gsi_flags st (of_nat (g + k)))"
    if "k < Suc n" for k
    using that d1(2) d2(2) [rule_format, of "k - 1"] by (cases k) (simp_all add: v_def add.assoc)
  have "reg d2 b q = reg d b q" if "b \<noteq> ioapic_addr st i \<or> unat q < j * 2 + 16" for b q
    using that uj d1(3) [of b q] d2(3) [rule_format, of b q] by fastforce
  moreover have "init_pins M stale st i d (of_nat j) v (Suc n) = Inr (d2, of_nat (0x40 + g + Suc n))"
    using d1(1) d2(1) fl Suc.prems(1) ucast_of_nat_64 [of j] by (simp add: v_def algebra_simps)
  ultimately show ?case using 0 unfolding v_def by blast
qed simp

lemma init_ioapics_routes:
  assumes "i + n = N" "N = length (madt_ioapics st)" "\<forall>k<N. present (ioapic_addr st k)"
    "inj_on (ioapic_addr st) {..<N}" "\<forall>k<N. last_pin reg st d k < 120" "first_gsi reg st d N < 160"
    and "\<forall>g e. g < first_gsi reg st d N \<and> ioapic_get_iso_by_gsi st (of_nat g) = Some e \<longrightarrow> stale e = Inr (iso_flags e)"
  shows "\<exists>d'. init_ioapics M stale st d (of_nat (0x40 + first_gsi reg st d i)) [i..<N] =
      Inr (d', of_nat (0x40 + first_gsi reg st d N)) \<and>
    (\<forall>k j. i \<le> k \<and> k < N \<and> j \<le> last_pin reg st d k \<longrightarrow>
      routes (redirection reg st d' k j) (of_nat (0x40 + first_gsi reg st d k + j)) (gsi_flags st (of_nat (first_gsi reg st d k + j)))) \<and>
    (\<forall>b q. unat q < 16 \<or> b \<notin> ioapic_addr st ` {i..<N} \<longrightarrow> reg d' b q = reg d b q)"
  using assms(1,5-7)
proof (induction n arbitrary: i d)
  case (Suc n)
  have i: "i < N" using Suc.prems(1) by simp
  have fl: "first_gsi reg st d i + Suc (last_pin reg st d i) \<le> first_gsi reg st d N"
    using first_gsi_mono [of "Suc i" N reg st d] i by (simp add: first_gsi_Suc)
  have fN: "first_gsi reg st d i + Suc (last_pin reg st d i) < 160"
    using first_gsi_mono [of "Suc i" N reg st d] i Suc.prems(3) by (simp add: first_gsi_Suc)
  have lt: "(of_nat (0x40 + first_gsi reg st d i) :: u8) < 0xE0"
    using fN by (simp add: word_less_nat_alt unat_of_nat del: of_nat_add)
  obtain w d1 where d1: "ioapic_get_gsi_window_size M st d i = Inr (w, d1)" "unat w = last_pin reg st d i" "reg d1 = reg d"
    using window_size [of i st d] i assms(2,3) by auto
  have so: "\<forall>k e. k < Suc (last_pin reg st d i) \<and> ioapic_get_iso_by_gsi st (of_nat (first_gsi reg st d i + k)) = Some e \<longrightarrow>
      stale e = Inr (iso_flags e)"
  proof (intro allI impI, elim conjE)
    fix k e assume k: "k < Suc (last_pin reg st d i)" "ioapic_get_iso_by_gsi st (of_nat (first_gsi reg st d i + k)) = Some e"
    then show "stale e = Inr (iso_flags e)" using Suc.prems(4) [rule_format, of "first_gsi reg st d i + k" e] fl by simp
  qed
  have h: "i < length (madt_ioapics st)" "present (ioapic_addr st i)" using i assms(2,3) by simp_all
  obtain d2 where d2: "init_pins M stale st i d1 0 (of_nat (0x40 + first_gsi reg st d i)) (Suc (last_pin reg st d i)) =
      Inr (d2, of_nat (0x40 + first_gsi reg st d (Suc i)))"
    "\<And>k. k \<le> last_pin reg st d i \<Longrightarrow> routes (redirection reg st d2 i k) (of_nat (0x40 + first_gsi reg st d i + k))
       (gsi_flags st (of_nat (first_gsi reg st d i + k)))"
    "\<And>b q. b \<noteq> ioapic_addr st i \<or> unat q < 16 \<Longrightarrow> reg d2 b q = reg d b q"
    using init_pins_routes [OF h, of 0 "Suc (last_pin reg st d i)" "first_gsi reg st d i" stale d1, OF _ _ so]
      Suc.prems(2) [rule_format, OF i] fN
    by (auto simp: first_gsi_Suc d1(3) less_Suc_eq_le add.assoc)
  have lp: "last_pin reg st d2 = last_pin reg st d" using d2(3) by (intro ext) (simp add: last_pin_def)
  then have fg: "first_gsi reg st d2 = first_gsi reg st d" by (intro ext) (simp add: first_gsi_def)
  have "Suc i + n = N" using Suc.prems(1) by simp
  from Suc.IH [of "Suc i" d2, unfolded lp fg, OF this Suc.prems(2-4)]
  obtain d3 where d3: "init_ioapics M stale st d2 (of_nat (0x40 + first_gsi reg st d (Suc i))) [Suc i..<N] =
      Inr (d3, of_nat (0x40 + first_gsi reg st d N))"
    "\<And>k j. Suc i \<le> k \<Longrightarrow> k < N \<Longrightarrow> j \<le> last_pin reg st d k \<Longrightarrow>
      routes (redirection reg st d3 k j) (of_nat (0x40 + first_gsi reg st d k + j)) (gsi_flags st (of_nat (first_gsi reg st d k + j)))"
    "\<And>b q. unat q < 16 \<or> b \<notin> ioapic_addr st ` {Suc i..<N} \<Longrightarrow> reg d3 b q = reg d2 b q"
    by blast
  have "ioapic_addr st i \<notin> ioapic_addr st ` {Suc i..<N}" using i inj_onD [OF assms(4), of i] by fastforce
  then have same: "redirection reg st d3 i j = redirection reg st d2 i j" for j
    using d3(3) by (simp add: redirection_def)
  have "routes (redirection reg st d3 k j) (of_nat (0x40 + first_gsi reg st d k + j)) (gsi_flags st (of_nat (first_gsi reg st d k + j)))"
    if "i \<le> k" "k < N" "j \<le> last_pin reg st d k" for k j
    using that d3(2) [of k j] d2(2) [of j] same by (cases "k = i") simp_all
  moreover have "reg d3 b q = reg d b q" if "unat q < 16 \<or> b \<notin> ioapic_addr st ` {i..<N}" for b q
    using that i d2(3) [of b q] d3(3) [of q b] by fastforce
  moreover have "init_ioapics M stale st d (of_nat (0x40 + first_gsi reg st d i)) [i..<N] =
      Inr (d3, of_nat (0x40 + first_gsi reg st d N))"
    using i lt d1(1,2) d2(1) d3(1) by (simp add: upt_conv_Cons del: of_nat_add)
  ultimately show ?case by blast
qed auto

lemma vector_ioapics_finds:
  assumes "i + n = k" "k < N" "N = length (madt_ioapics st)" "\<forall>k<N. present (ioapic_addr st k)"
    "first_gsi reg st d N < 160" "\<forall>k<N. io_gsi_base (madt_ioapics st ! k) = of_nat (first_gsi reg st d k)"
    and j: "j \<le> last_pin reg st d k"
  shows "\<exists>d'. vector_ioapics M st (of_nat (first_gsi reg st d k + j)) d (of_nat (0x40 + first_gsi reg st d i)) [i..<N] =
      Inr (of_nat (0x40 + first_gsi reg st d k + j), d')"
  using assms(1,5-7)
proof (induction n arbitrary: i d)
  case 0
  then have i: "i < N" using assms(2) by simp
  have h: "i < length (madt_ioapics st)" "present (ioapic_addr st i)" using i assms(3,4) by simp_all
  have fl: "first_gsi reg st d i + Suc (last_pin reg st d i) < 160"
    using first_gsi_mono [of "Suc i" N reg st d] i 0(2) by (simp add: first_gsi_Suc)
  then have lt: "(of_nat (0x40 + first_gsi reg st d i) :: u8) < 0xE0"
    by (simp add: word_less_nat_alt unat_of_nat del: of_nat_add)
  obtain w d1 where d1: "ioapic_get_gsi_window_size M st d i = Inr (w, d1)" "unat w = last_pin reg st d i"
    using window_size [OF h, of d] by blast
  have "vector_pins (of_nat (first_gsi reg st d i)) (of_nat (first_gsi reg st d i + j)) 0
      (of_nat (0x40 + first_gsi reg st d i)) (Suc (last_pin reg st d i)) = Inr (of_nat (0x40 + first_gsi reg st d i + j))"
    using vector_pins_spec [of "first_gsi reg st d i" 0 "Suc (last_pin reg st d i)" "first_gsi reg st d i + j"] fl 0(1,4)
    by (simp del: vector_pins.simps add: add.assoc)
  then show ?case
    using 0(1,3) i lt d1 by (simp add: upt_conv_Cons del: of_nat_add vector_pins.simps)
next
  case (Suc n)
  then have i: "i < N" using assms(2) by simp
  have h: "i < length (madt_ioapics st)" "present (ioapic_addr st i)" using i assms(3,4) by simp_all
  have fl: "first_gsi reg st d i + Suc (last_pin reg st d i) < 160"
    using first_gsi_mono [of "Suc i" N reg st d] i Suc.prems(2) by (simp add: first_gsi_Suc)
  then have lt: "(of_nat (0x40 + first_gsi reg st d i) :: u8) < 0xE0"
    by (simp add: word_less_nat_alt unat_of_nat del: of_nat_add)
  have ge: "first_gsi reg st d i + Suc (last_pin reg st d i) \<le> first_gsi reg st d k" "first_gsi reg st d k + Suc j \<le> first_gsi reg st d N"
    using first_gsi_mono [of "Suc i" k reg st d] first_gsi_mono [of "Suc k" N reg st d] Suc.prems(1,4) assms(2)
    by (simp_all add: first_gsi_Suc)
  obtain w d1 where d1: "ioapic_get_gsi_window_size M st d i = Inr (w, d1)" "unat w = last_pin reg st d i" "reg d1 = reg d"
    using window_size [OF h, of d] by blast
  have same: "last_pin reg st d1 = last_pin reg st d" "first_gsi reg st d1 = first_gsi reg st d"
    by (intro ext, simp add: last_pin_def first_gsi_def d1(3))+
  have "vector_pins (of_nat (first_gsi reg st d i)) (of_nat (first_gsi reg st d k + j)) 0
      (of_nat (0x40 + first_gsi reg st d i)) (Suc (last_pin reg st d i)) = Inl (of_nat (0x40 + first_gsi reg st d (Suc i)))"
    using vector_pins_spec [of "first_gsi reg st d i" 0 "Suc (last_pin reg st d i)" "first_gsi reg st d k + j"] fl ge Suc.prems(2)
    by (simp del: vector_pins.simps add: first_gsi_Suc add.assoc)
  then show ?case
    using Suc.IH [of "Suc i" d1, unfolded same, OF _ Suc.prems(2-4)] Suc.prems(1,3) i lt d1(1,2)
    by (simp add: upt_conv_Cons del: of_nat_add vector_pins.simps)
qed

lemma init_pins_dangles:
  assumes "i < length (madt_ioapics st)" "present (ioapic_addr st i)" "j + n \<le> 120" "g + n \<le> 160"
    and "k < n" "ioapic_get_iso_by_gsi st (of_nat (g + k)) \<noteq> None"
  shows "init_pins M (\<lambda>_. Inl e) st i d (of_nat j) (of_nat (0x40 + g)) n = Inl e"
  using assms(3-6)
proof (induction n arbitrary: d j g k)
  case (Suc n)
  define v :: u8 where "v = of_nat (0x40 + g)"
  have "unat v = 0x40 + g" unfolding v_def unat_of_nat using Suc.prems(2) by simp
  then have "ucast v = (of_nat (0x40 + g) :: u32)" by (metis of_nat_unat)
  then have gs: "ucast v - 0x40 = (of_nat g :: u32)" by simp
  have uj: "ucast (of_nat j :: u64) = (of_nat j :: u32)" using Suc.prems(1) by (simp add: ucast_of_nat_64)
  show ?case
  proof (cases "ioapic_get_iso_by_gsi st (of_nat g)")
    case None
    then obtain k' where k': "k = Suc k'" using Suc.prems(4) by (cases k) auto
    have "j \<le> 119" using Suc.prems(1) by simp
    from map_pin [OF assms(1,2) this, of d v 0]
    obtain d1 where d1: "ioapic_map_pin_to_irq M st d i v (of_nat j) 0 0 False = Inr d1" by blast
    have "init_pins M (\<lambda>_. Inl e) st i d1 (of_nat (Suc j)) (of_nat (0x40 + Suc g)) n = Inl e"
      using Suc.prems k' by (intro Suc.IH [where k = k']) simp_all
    then have "init_pins M (\<lambda>_. Inl e) st i d1 (of_nat j + 1) (v + 1) n = Inl e" by (simp add: v_def add.commute)
    then show ?thesis using None d1 uj unfolding v_def [symmetric] by (simp add: gs)
  next
    case (Some a)
    then show ?thesis unfolding v_def [symmetric] by (simp add: gs)
  qed
qed simp

lemma init_ioapics_dangles:
  assumes "i + n = N" "N = length (madt_ioapics st)" "\<forall>k<N. present (ioapic_addr st k)"
    "\<forall>k<N. last_pin reg st d k < 120" "first_gsi reg st d N < 160"
    "first_gsi reg st d i \<le> g" "g < first_gsi reg st d N" "ioapic_get_iso_by_gsi st (of_nat g) \<noteq> None"
  shows "init_ioapics M (\<lambda>_. Inl e) st d (of_nat (0x40 + first_gsi reg st d i)) [i..<N] = Inl e"
  using assms(1,4-7)
proof (induction n arbitrary: i d)
  case (Suc n)
  let ?F = "first_gsi reg st d i" and ?L = "last_pin reg st d i"
  have i: "i < N" using Suc.prems(1) by simp
  have h: "i < length (madt_ioapics st)" "present (ioapic_addr st i)" using i assms(2,3) by simp_all
  have fN: "?F + Suc ?L < 160"
    using first_gsi_mono [of "Suc i" N reg st d] i Suc.prems(3) by (simp add: first_gsi_Suc)
  have lt: "(of_nat (0x40 + ?F) :: u8) < 0xE0" using fN by (simp add: word_less_nat_alt unat_of_nat del: of_nat_add)
  have L: "0 + Suc ?L \<le> 120" "?F + Suc ?L \<le> 160" using Suc.prems(2) i fN by auto
  obtain w d1 where d1: "ioapic_get_gsi_window_size M st d i = Inr (w, d1)" "unat w = ?L" "reg d1 = reg d"
    using window_size [OF h, of d] by auto
  have step: "init_ioapics M (\<lambda>_. Inl e) st d (of_nat (0x40 + ?F)) [i..<N] =
      and_then (init_pins M (\<lambda>_. Inl e) st i d1 (of_nat 0) (of_nat (0x40 + ?F)) (Suc ?L)) (\<lambda>(d, vec).
        init_ioapics M (\<lambda>_. Inl e) st d vec [Suc i..<N])"
    using i lt d1(1,2) by (simp add: upt_conv_Cons del: of_nat_add)
  show ?case
  proof (cases "\<exists>k<Suc ?L. ioapic_get_iso_by_gsi st (of_nat (?F + k)) \<noteq> None")
    case True
    then obtain k where k: "k < Suc ?L" "ioapic_get_iso_by_gsi st (of_nat (?F + k)) \<noteq> None" by blast
    show ?thesis unfolding step init_pins_dangles [OF h L k] by simp
  next
    case False
    obtain d2 where d2: "init_pins M (\<lambda>_. Inl e) st i d1 (of_nat 0) (of_nat (0x40 + ?F)) (Suc ?L) =
        Inr (d2, of_nat (0x40 + ?F + Suc ?L))" "\<And>q b. unat q < 16 \<Longrightarrow> reg d2 b q = reg d b q"
      using init_pins_routes [OF h L, of "\<lambda>_. Inl e" d1] False d1(3) by (auto simp del: init_pins.simps)
    have same: "last_pin reg st d2 = last_pin reg st d" "first_gsi reg st d2 = first_gsi reg st d"
      using d2(2) by (intro ext, simp add: last_pin_def first_gsi_def)+
    have "\<not> g < ?F + Suc ?L"
      using False Suc.prems(4) assms(8) by (metis add_diff_inverse_nat less_diff_conv2 add.commute not_less)
    then have "init_ioapics M (\<lambda>_. Inl e) st d2 (of_nat (0x40 + first_gsi reg st d (Suc i))) [Suc i..<N] = Inl e"
      using Suc.IH [of "Suc i" d2, unfolded same, OF _ Suc.prems(2,3) _ Suc.prems(5)] Suc.prems(1) by (simp add: first_gsi_Suc)
    then show ?thesis unfolding step d2(1) by (simp add: first_gsi_Suc)
  qed
qed simp

end

section \<open>Routing\<close>


text \<open>The pointer to an override points into a copy that no longer exists. When reading through it is a fault, the kernel
  does not survive initialisation on a machine that overrides any interrupt an I/O APIC has a pin for.\<close>

theorem ioapic_override_dangles:
  assumes "ioapic_device M reg present" "N = length (madt_ioapics st)" "\<forall>k<N. present (ioapic_addr st k)"
    and "\<forall>k<N. last_pin reg st d k < 120" "first_gsi reg st d N < 160"
    and "g < first_gsi reg st d N" "ioapic_get_iso_by_gsi st (of_nat g) \<noteq> None"
  shows "ioapic_init M (\<lambda>_. Inl UseAfterFree) st d = Inl UseAfterFree"
proof -
  from ioapic_device.init_ioapics_dangles [OF assms(1) _ assms(2-5) _ assms(6,7), of 0 N]
  show ?thesis by (simp add: ioapic_init_def assms(2) first_gsi_def)
qed

section \<open>A device\<close>

record ref_ioapic =
  selected :: "u64 \<Rightarrow> u32"
  registers :: "u64 \<Rightarrow> u32 \<Rightarrow> u32"

definition ref_mmio :: "ref_ioapic mmio_ops" where
  "ref_mmio =
     \<lparr>mm_read = (\<lambda>d a. (if bit a 4 then registers d (a - 16) (selected d (a - 16)) else selected d a, d)),
      mm_write = (\<lambda>d a v.
        if \<not> bit a 4 then d\<lparr>selected := (selected d)(a := v)\<rparr>
        else if selected d (a - 16) < 16 then d
        else d\<lparr>registers := (registers d)(a - 16 := (registers d (a - 16))(selected d (a - 16) := v))\<rparr>)\<rparr>"

lemma bit_add_16: "\<not> bit (a :: u64) 4 \<Longrightarrow> bit (a + 16) 4"
proof -
  assume "\<not> bit a 4"
  then have "a AND push_bit 4 1 = 0" by (intro bit_word_eqI) (simp only: bit_and_iff bit_push_bit_1, auto)
  then have "a + push_bit 4 1 = a OR push_bit 4 1" by (rule disjunctive_add_eq_or)
  then have "bit (a + push_bit 4 1) 4" by (simp only: bit_or_iff bit_push_bit_1) simp
  then show ?thesis by simp
qed

interpretation refio: ioapic_device ref_mmio registers "\<lambda>a. \<not> bit a 4"
  by unfold_locales (auto simp: ref_mmio_def bit_add_16 not_less)

text \<open>The machine of the tables above: one I/O APIC with 24 pins, the timer on pin 2.\<close>

definition demo_apics :: madt_state where
  "demo_apics = \<lparr>madt_ptr = Some 0x2000, madt_lapics = [], madt_nmis = [],
     madt_isos = [\<lparr>iso_bus = 0, iso_irq = 0, iso_gsi = 2, iso_flags = 0xA\<rparr>],
     madt_ioapics = [\<lparr>io_ioapic_id = 0, io_reserved = 0, io_ioapic_addr = 0xFEC00000, io_gsi_base = 0\<rparr>]\<rparr>"

definition demo_ioapic :: ref_ioapic where
  "demo_ioapic = \<lparr>selected = (\<lambda>_. 0), registers = (\<lambda>_ r. if r = 1 then 0x170011 else 0x10000)\<rparr>"

lemma demo_ioapic_pins:
  "last_pin registers demo_apics demo_ioapic k = 23" "first_gsi registers demo_apics demo_ioapic 1 = 24"
  "first_gsi registers demo_apics demo_ioapic 0 = 0" "\<not> bit (ioapic_addr demo_apics 0) 4"
  by (simp_all add: last_pin_def first_gsi_def demo_ioapic_def) code_simp+

lemma demo_ioapic_ok:
  "1 = length (madt_ioapics demo_apics)" "\<forall>k<1. \<not> bit (ioapic_addr demo_apics k) 4" "inj_on (ioapic_addr demo_apics) {..<1}"
  "\<forall>k<1. last_pin registers demo_apics demo_ioapic k < 120" "first_gsi registers demo_apics demo_ioapic 1 < 160"
  "\<forall>k<1. io_gsi_base (madt_ioapics demo_apics ! k) = of_nat (first_gsi registers demo_apics demo_ioapic k)"
proof -
  have b: "io_gsi_base (madt_ioapics demo_apics ! 0) = 0" "length (madt_ioapics demo_apics) = 1" by (simp_all add: demo_apics_def)
  show "1 = length (madt_ioapics demo_apics)" "\<forall>k<1. \<not> bit (ioapic_addr demo_apics k) 4"
    "inj_on (ioapic_addr demo_apics) {..<1}" "\<forall>k<1. last_pin registers demo_apics demo_ioapic k < 120"
    "first_gsi registers demo_apics demo_ioapic 1 < 160"
    "\<forall>k<1. io_gsi_base (madt_ioapics demo_apics ! k) = of_nat (first_gsi registers demo_apics demo_ioapic k)"
    using demo_ioapic_pins b by (simp_all add: inj_on_def)
qed


theorem ioapic_override_dangles_witness:
  "ioapic_init ref_mmio (\<lambda>_. Inl UseAfterFree) demo_apics demo_ioapic = Inl UseAfterFree"
proof -
  have "2 < first_gsi registers demo_apics demo_ioapic 1" "ioapic_get_iso_by_gsi demo_apics (of_nat 2) \<noteq> None"
    using demo_ioapic_pins by (simp_all add: ioapic_get_iso_by_gsi_def) (simp add: demo_apics_def)
  from ioapic_override_dangles [OF refio.ioapic_device_axioms demo_ioapic_ok(1,2,4,5) this] show ?thesis .
qed

end
