(* ===== verification/Lapic.thy ===== *)
theory Lapic
  imports Ioapic Ports Vmm
begin

text \<open>
  The local APIC, \<open>arch/x86_64/cpu/lapic.cpp\<close>: its registers in memory, the non-maskable interrupts, enabling it, and the
  programming of the interval timer that calibrates its own timer. The device behind the registers is an argument, as for
  the I/O APICs. The parts of the file that register interrupt handlers are in the theory of the interrupt dispatch. Messages to the log
  are left out.
\<close>

section \<open>Registers\<close>

definition LVT_LINT0 :: u32 where
  "LVT_LINT0 = 0x350"

definition LVT_LINT1 :: u32 where
  "LVT_LINT1 = 0x360"

definition LAPIC_EOI :: u32 where
  "LAPIC_EOI = 0xB0"

definition LAPIC_SIVR :: u32 where
  "LAPIC_SIVR = 0xF0"

definition LVT_TIMER :: u32 where
  "LVT_TIMER = 0x320"

definition DIVIDE_CONFIG :: u32 where
  "DIVIDE_CONFIG = 0x3E0"

definition INITIAL_COUNT :: u32 where
  "INITIAL_COUNT = 0x380"

definition CURRENT_COUNT :: u32 where
  "CURRENT_COUNT = 0x390"

definition LAPIC_TIMER_1X_DIV :: u32 where
  "LAPIC_TIMER_1X_DIV = 0xB"

definition CALIB_TIMER_CONFIG :: u32 where
  "CALIB_TIMER_CONFIG = 0"

record 'd lapic_state =
  lapic_dev :: 'd
  lapic_base :: u64
  lapic_bsp_speed_hz :: u64

definition lapic_read :: "'d mmio_ops \<Rightarrow> 'd lapic_state \<Rightarrow> u32 \<Rightarrow> u32 \<times> 'd lapic_state" where
  "lapic_read M l offset =
     (case mm_read M (lapic_dev l) (lapic_base l + ucast offset) of (v, d) \<Rightarrow> (v, l\<lparr>lapic_dev := d\<rparr>))"

definition lapic_write :: "'d mmio_ops \<Rightarrow> 'd lapic_state \<Rightarrow> u32 \<Rightarrow> u32 \<Rightarrow> 'd lapic_state" where
  "lapic_write M l offset val = l\<lparr>lapic_dev := mm_write M (lapic_dev l) (lapic_base l + ucast offset) val\<rparr>"

section \<open>Non-maskable interrupts\<close>

definition nmi_entry :: "u8 \<Rightarrow> u16 \<Rightarrow> u32" where
  "nmi_entry vector flags =
     (let nmi = ucast vector OR 0x320;
          nmi = (if flags AND 2 \<noteq> 0 then nmi OR push_bit 13 1 else nmi)
      in if flags AND 8 \<noteq> 0 then nmi OR push_bit 15 1 else nmi)"

definition lapic_nmi_set :: "'d mmio_ops \<Rightarrow> 'd lapic_state \<Rightarrow> u8 \<Rightarrow> u8 \<Rightarrow> u16 \<Rightarrow> 'd lapic_state result" where
  "lapic_nmi_set M l vector lint flags =
     (if lint = 0 then Inr (lapic_write M l LVT_LINT0 (nmi_entry vector flags))
      else if lint = 1 then Inr (lapic_write M l LVT_LINT1 (nmi_entry vector flags))
      else Inl Panic)"

fun nmi_setup_loop :: "'d mmio_ops \<Rightarrow> 'd lapic_state \<Rightarrow> nat \<Rightarrow> madt_nmi list \<Rightarrow> 'd lapic_state result" where
  "nmi_setup_loop M l i [] = Inr l"
| "nmi_setup_loop M l i (nmi # nmis) =
     and_then (lapic_nmi_set M l (of_nat (0xE0 + i)) (nmi_lint nmi) (nmi_flags nmi)) (\<lambda>l. nmi_setup_loop M l (Suc i) nmis)"

definition lapic_nmi_setup :: "'d mmio_ops \<Rightarrow> madt_state \<Rightarrow> 'd lapic_state \<Rightarrow> 'd lapic_state result" where
  "lapic_nmi_setup M st l = nmi_setup_loop M l 0 (madt_nmis st)"

section \<open>Initialisation\<close>

definition lapic_eoi :: "'d mmio_ops \<Rightarrow> 'd lapic_state \<Rightarrow> 'd lapic_state" where
  "lapic_eoi M l = lapic_write M l LAPIC_EOI 0"

definition lapic_enable :: "'d mmio_ops \<Rightarrow> 'd lapic_state \<Rightarrow> 'd lapic_state" where
  "lapic_enable M l = (case lapic_read M l LAPIC_SIVR of (v, l) \<Rightarrow> lapic_write M l LAPIC_SIVR (v OR 0x1FF))"

definition lapic_init ::
  "'d mmio_ops \<Rightarrow> madt_state \<Rightarrow> machine \<Rightarrow> 'd lapic_state \<Rightarrow> (machine \<times> 'd lapic_state) result" where
  "lapic_init M st s l =
     and_then (madt_get_lapic_base (phys_mem s) st) (\<lambda>base.
     and_then (arch_mm_map_kernel s base base 4 3 4) (\<lambda>s.
     and_then (lapic_nmi_setup M st (l\<lparr>lapic_base := base\<rparr>)) (\<lambda>l.
       Inr (s, lapic_enable M l))))"

section \<open>The interval timer\<close>

text \<open>A division by zero raises an exception, which halts the kernel.\<close>

definition pit_divisor :: "u32 \<Rightarrow> u16" where
  "pit_divisor frequency =
     (let x = ucast (1193182 div frequency) in if frequency div 2 < 1193182 mod frequency then x + 1 else x)"

definition pit_set_freq :: "io_event list \<Rightarrow> u32 \<Rightarrow> io_event list result" where
  "pit_set_freq io frequency =
     (if frequency = 0 then Inl Panic
      else
        let x = pit_divisor frequency;
            io = io_wait (outb io 0x40 (ucast (x AND 0x00ff)))
        in Inr (io_wait (outb io 0x40 (ucast (x div 0x0100)))))"

definition lapic_timer_set_frequency ::
  "'d mmio_ops \<Rightarrow> 'd lapic_state \<Rightarrow> u64 \<Rightarrow> u64 \<Rightarrow> 'd lapic_state result" where
  "lapic_timer_set_frequency M l timer_freq desired_freq =
     (if desired_freq = 0 then Inl Panic
      else Inr (lapic_write M l INITIAL_COUNT (ucast (timer_freq div desired_freq))))"

section \<open>The divisor of the interval timer\<close>

lemma unat_pit_divisor:
  assumes "19 \<le> unat f"
  shows "unat (pit_divisor f) =
    1193182 div unat f + (if unat f div 2 < 1193182 mod unat f then 1 else 0)"
proof -
  have q: "1193182 div unat f \<le> 62799" using div_le_mono2 [of 19 "unat f" 1193182] assms by simp
  have x: "unat (ucast (1193182 div f) :: u16) = 1193182 div unat f"
    using q by (simp add: unsigned_ucast_eq take_bit_nat_eq_self unat_div)
  then have "unat (ucast (1193182 div f) + 1 :: u16) = 1193182 div unat f + 1"
    using q unat_add_less [of "ucast (1193182 div f) :: u16" 1] by simp
  then show ?thesis
    using x by (simp add: pit_divisor_def Let_def word_less_nat_alt unat_div unat_mod)
qed

lemma word_bytes:
  "unat (ucast (x AND 0x00ff) :: u8) = unat (x :: u16) mod 256" "unat (ucast (x div 0x0100) :: u8) = unat x div 256"
proof -
  have "x AND 0xff = take_bit 8 x" by (simp add: take_bit_eq_mask mask_eq_exp_minus_1)
  then have "unat (x AND 0xff) = unat x mod 256" by (simp add: take_bit_eq_mod unat_mod)
  then show "unat (ucast (x AND 0x00ff) :: u8) = unat x mod 256" by (simp add: unsigned_ucast_eq take_bit_nat_eq_self)
  have "unat x div 256 < 256" using unsigned_less [of x, where 'a = nat] by (simp add: div_less_iff_less_mult)
  then show "unat (ucast (x div 0x0100) :: u8) = unat x div 256"
    by (simp add: unsigned_ucast_eq unat_div take_bit_nat_eq_self)
qed

lemma nearest_quotient:
  assumes "0 < f" "x = n div f + (if f div 2 < n mod f then 1 else 0)"
  shows "2 * \<bar>int x * int f - int n\<bar> \<le> int f"
proof -
  have n: "int n = int f * int (n div f) + int (n mod f)" by (simp flip: of_nat_mult of_nat_add)
  have r: "n mod f < f" using assms(1) by simp
  show ?thesis
  proof (cases "f div 2 < n mod f")
    case True
    then have "int x * int f - int n = int f - int (n mod f)" using assms(2) n by (simp add: algebra_simps)
    moreover have "2 * \<bar>int f - int m\<bar> \<le> int f" if "f div 2 < m" "m < f" for m using that by presburger
    ultimately show ?thesis using True r by simp
  next
    case False
    then have "int x * int f - int n = - int (n mod f)" using assms(2) n by (simp add: algebra_simps)
    moreover have "2 * int m \<le> int f" if "\<not> f div 2 < m" for m using that by presburger
    ultimately show ?thesis using False by simp
  qed
qed

text \<open>The interval timer is given, low byte first, the divisor of its clock that comes nearest to the frequency asked for,
  for every frequency the divisor has room for.\<close>

theorem pit_set_freq_nearest:
  assumes "19 \<le> unat f"
  shows "\<exists>lo hi. pit_set_freq io f = Inr (io @ [OutB 0x40 lo, OutB 0x80 0, OutB 0x40 hi, OutB 0x80 0]) \<and>
    2 * \<bar>int (unat lo + 256 * unat hi) * int (unat f) - 1193182\<bar> \<le> int (unat f)"
proof -
  let ?lo = "ucast (pit_divisor f AND 0x00ff) :: u8" and ?hi = "ucast (pit_divisor f div 0x0100) :: u8"
  have "unat ?lo + 256 * unat ?hi = unat (pit_divisor f)" by (simp add: word_bytes)
  then have "2 * \<bar>int (unat ?lo + 256 * unat ?hi) * int (unat f) - int 1193182\<bar> \<le> int (unat f)"
    using assms by (intro nearest_quotient) (simp_all add: unat_pit_divisor [OF assms])
  moreover have "f \<noteq> 0" using assms by auto
  ultimately show ?thesis
    by (intro exI [of _ ?lo] exI [of _ ?hi]) (simp add: pit_set_freq_def Let_def io_wait_def outb_def)
qed

section \<open>Delivery mode\<close>

text \<open>The entry for a non-maskable interrupt has the reserved delivery mode 3 in its bits 8 to 10, where 4 stands for a
  non-maskable interrupt: the constant combined with the vector is the offset of the timer's register.\<close>

lemma nmi_delivery_mode: "drop_bit 8 (nmi_entry vector flags) AND 7 = 3"
proof -
  have c: "(0x320 :: u32) = push_bit 5 1 OR push_bit 8 1 OR push_bit 9 1" by simp
  have b: "bit (drop_bit 8 (nmi_entry vector flags) AND mask 3) n \<longleftrightarrow> n < 2" for n
    unfolding nmi_entry_def c Let_def bit_and_iff bit_mask_iff bit_drop_bit_eq
    by (cases "flags AND 2 = 0"; cases "flags AND 8 = 0")
      (simp_all only: if_True if_False bit_or_iff bit_push_bit_1 bit_unsigned_iff not_True_eq_False simp_thms comp_apply,
       auto dest: bit_imp_le_length)
  have "(drop_bit 8 (nmi_entry vector flags) AND mask 3) = mask 2"
    by (rule bit_word_eqI) (simp only: b, simp add: bit_mask_iff)
  then show ?thesis by (simp add: mask_eq_exp_minus_1)
qed

theorem pit_set_freq_nearest_witness:
  "\<exists>lo hi. pit_set_freq [] 1000 = Inr [OutB 0x40 lo, OutB 0x80 0, OutB 0x40 hi, OutB 0x80 0] \<and>
     2 * \<bar>int (unat lo + 256 * unat hi) * 1000 - 1193182\<bar> \<le> 1000"
  using pit_set_freq_nearest [of 1000 "[]"] by simp

end
