(* ===== verification/Descriptors.thy ===== *)
theory Descriptors
  imports Scheduler Pmm
begin

text \<open>
  The tables the processor reads: the interrupt descriptor table (\<open>arch/x86_64/irq/idt.h\<close>, \<open>idt.cpp\<close>), the global descriptor
  table and the task state segment (\<open>arch/x86_64/cpu/gdt.h\<close>, \<open>gdt.cpp\<close>). The last two are in frames of the frame
  allocator, reached through the direct map; the addresses of the assembly entry points are an argument.
\<close>

section \<open>Words of a table\<close>

lemma word_index_apart:
  assumes "i \<noteq> j" "i < 2 ^ 16" "j < 2 ^ 16" "k < 4"
  shows "\<not> (g + of_nat j * 4 + of_nat k - (g + of_nat i * 4) < (4 :: u64))"
proof (cases "i < j")
  case True
  define d where "d = (j - i) * 4 + k"
  have e: "g + of_nat j * 4 + of_nat k - (g + of_nat i * 4) = (of_nat d :: u64)"
    using True by (simp add: d_def of_nat_diff algebra_simps)
  have "4 \<le> d" "d < 2 ^ 20" using assms True by (auto simp: d_def)
  then show ?thesis unfolding e by (simp add: word_less_nat_alt unat_of_nat)
next
  case False
  have e: "g + of_nat j * 4 + of_nat k - (g + of_nat i * 4) = - (of_nat ((i - j) * 4 - k) :: u64)"
    using False assms by (simp add: of_nat_diff algebra_simps)
  define d where "d = (i - j) * 4 - k"
  have d: "0 < d" "d < 2 ^ 20" using False assms by (auto simp: d_def)
  have "unat (- (of_nat d :: u64)) = 2 ^ 64 - d"
    using d unat_sub_if' [of 0 "of_nat d :: u64"] by (simp add: unat_of_nat)
  then show ?thesis unfolding e d_def [symmetric] using d by (simp add: word_less_nat_alt)
qed

lemma read32_write32_apart:
  assumes "i \<noteq> j" "i < 2 ^ 16" "j < 2 ^ 16"
  shows "read32 (write32 m (g + of_nat i * 4) v) (g + of_nat j * 4) = read32 m (g + of_nat j * 4)"
  unfolding read32_def
  by (rule arg_cong [where f = word_rcat]) (use word_index_apart [OF assms] in \<open>simp add: write32_def\<close>)

section \<open>The interrupt descriptor table\<close>

definition IDT_ENTRIES :: nat where
  "IDT_ENTRIES = 256"

record idt_entry_t =
  offset_low :: u16
  selector :: u16
  zero_1 :: u8
  attrib :: u8
  offset_mid :: u16
  offset_high :: u32
  zero_2 :: u32

record idt_ptr_t =
  idt_limit :: u16
  idt_base :: u64

definition handlers :: "(nat \<Rightarrow> u64) \<Rightarrow> u64 list" where
  "handlers isr = map isr [0..<IDT_ENTRIES]"

definition idt_set_gate :: "idt_entry_t list \<Rightarrow> u8 \<Rightarrow> u64 \<Rightarrow> u16 \<Rightarrow> u8 \<Rightarrow> idt_entry_t list" where
  "idt_set_gate idt idx off sel flags =
     idt[unat idx :=
       \<lparr>offset_low = ucast (off AND 0xFFFF), selector = sel, zero_1 = 0, attrib = flags,
        offset_mid = ucast (drop_bit 16 off AND 0xFFFF), offset_high = ucast (drop_bit 32 off AND 0xFFFFFFFF),
        zero_2 = 0\<rparr>]"

definition idt_gates :: "(nat \<Rightarrow> u64) \<Rightarrow> idt_entry_t list \<Rightarrow> nat \<Rightarrow> idt_entry_t list" where
  "idt_gates isr idt n =
     fold (\<lambda>i idt. idt_set_gate idt (of_nat i) (handlers isr ! i) 0x08 (0x8E OR (if i = 0x30 then 0x60 else 0))) [0..<n] idt"

text \<open>\<open>idt_init\<close> with the address of the table; the second result is what \<open>lidt\<close> is given.\<close>

definition idt_init :: "(nat \<Rightarrow> u64) \<Rightarrow> u64 \<Rightarrow> idt_entry_t list \<Rightarrow> idt_entry_t list \<times> idt_ptr_t" where
  "idt_init isr table idt =
     (idt_gates isr idt IDT_ENTRIES, \<lparr>idt_limit = of_nat (IDT_ENTRIES * 16 - 1), idt_base = table\<rparr>)"

definition idt_just_load :: "idt_ptr_t \<Rightarrow> idt_ptr_t" where
  "idt_just_load idtp = idtp"

text \<open>How the processor reads a gate.\<close>

definition gate_offset :: "idt_entry_t \<Rightarrow> u64" where
  "gate_offset g = push_bit 32 (ucast (offset_high g)) OR push_bit 16 (ucast (offset_mid g)) OR ucast (offset_low g)"

definition gate_dpl :: "idt_entry_t \<Rightarrow> u8" where
  "gate_dpl g = drop_bit 5 (attrib g) AND 3"

definition interrupt_gate :: "idt_entry_t \<Rightarrow> bool" where
  "interrupt_gate g \<longleftrightarrow> bit (attrib g) 7 \<and> attrib g AND 0x1F = 0x0E \<and> zero_1 g = 0 \<and> zero_2 g = 0"

lemma split_offset:
  "push_bit 32 (ucast (ucast (drop_bit 32 x AND 0xFFFFFFFF) :: u32)) OR
   push_bit 16 (ucast (ucast (drop_bit 16 x AND 0xFFFF) :: u16)) OR ucast (ucast (x AND 0xFFFF) :: u16) = (x :: u64)"
proof -
  have m: "(0xFFFFFFFF :: u64) = mask 32" "(0xFFFF :: u64) = mask 16" by (simp_all add: mask_eq_decr_exp)
  have e: "32 \<le> n \<Longrightarrow> 32 + (n - 32) = n" "16 \<le> n \<Longrightarrow> 16 + (n - 16) = n" for n :: nat by simp_all
  show ?thesis unfolding m
  proof (rule bit_word_eqI)
    fix n assume n: "n < LENGTH(64)"
    consider "n < 16" | "16 \<le> n" "n < 32" | "32 \<le> n" by linarith
    then show "bit (push_bit 32 (ucast (ucast (drop_bit 32 x AND mask 32) :: u32) :: u64) OR
        push_bit 16 (ucast (ucast (drop_bit 16 x AND mask 16) :: u16)) OR ucast (ucast (x AND mask 16) :: u16)) n = bit x n"
      using n by cases (auto simp: bit_simps e)
  qed
qed

lemma idt_gates_length [simp]: "length (idt_gates isr idt n) = length idt"
  unfolding idt_gates_def by (induction n) (simp_all add: idt_set_gate_def)

lemma idt_gates_nth:
  assumes "n \<le> 256" "length idt = 256" "i < n"
  shows "idt_gates isr idt n ! i =
    \<lparr>offset_low = ucast (isr i AND 0xFFFF), selector = 8, zero_1 = 0, attrib = 0x8E OR (if i = 0x30 then 0x60 else 0),
     offset_mid = ucast (drop_bit 16 (isr i) AND 0xFFFF), offset_high = ucast (drop_bit 32 (isr i) AND 0xFFFFFFFF),
     zero_2 = 0\<rparr>"
  using assms
proof (induction n)
  case (Suc n)
  have u: "unat (of_nat n :: u8) = n" using Suc.prems by (simp add: unat_of_nat)
  have h: "handlers isr ! n = isr n" using Suc.prems by (simp add: handlers_def IDT_ENTRIES_def)
  have s: "idt_gates isr idt (Suc n) =
      idt_set_gate (idt_gates isr idt n) (of_nat n) (isr n) 0x08 (0x8E OR (if n = 0x30 then 0x60 else 0))"
    by (simp add: idt_gates_def h)
  show ?case
  proof (cases "i = n")
    case True
    then show ?thesis using Suc.prems unfolding s by (simp add: idt_set_gate_def u)
  next
    case False
    then show ?thesis using Suc unfolding s by (simp add: idt_set_gate_def u)
  qed
qed simp

text \<open>C31. After \<open>idt_init\<close> every one of the 256 vectors has a present interrupt gate in the kernel's code segment that leads to
  the entry point of that vector, whatever its 64-bit address, and only the system call vector 0x30 may be raised from
  user mode; the limit given to the processor covers exactly the table.\<close>

theorem idt_init_gates:
  assumes "length idt = IDT_ENTRIES" "i < IDT_ENTRIES"
  shows "(case idt_init isr table idt of (idt', p) \<Rightarrow>
    gate_offset (idt' ! i) = isr i \<and> selector (idt' ! i) = 0x08 \<and> interrupt_gate (idt' ! i) \<and>
    gate_dpl (idt' ! i) = (if i = 0x30 then 3 else 0) \<and>
    unat (idt_limit p) + 1 = 16 * length idt' \<and> idt_base p = table)"
proof -
  have a: "(0x8E OR (if i = 0x30 then 0x60 else 0) :: u8) = (if i = 0x30 then 0xEE else 0x8E)" by simp
  have g: "idt_gates isr idt 256 ! i =
    \<lparr>offset_low = ucast (isr i AND 0xFFFF), selector = 8, zero_1 = 0, attrib = (if i = 0x30 then 0xEE else 0x8E),
     offset_mid = ucast (drop_bit 16 (isr i) AND 0xFFFF), offset_high = ucast (drop_bit 32 (isr i) AND 0xFFFFFFFF),
     zero_2 = 0\<rparr>"
    using idt_gates_nth [of 256 idt i isr] assms unfolding a by (simp add: IDT_ENTRIES_def)
  have b: "bit (0xEE :: u8) 7" "bit (0x8E :: u8) 7" by code_simp+
  have d: "drop_bit 5 (0xEE :: u8) AND 3 = 3" "drop_bit 5 (0x8E :: u8) AND 3 = 0" by code_simp+
  show ?thesis using assms split_offset [of "isr i"] b d
    by (simp add: idt_init_def IDT_ENTRIES_def g gate_offset_def interrupt_gate_def gate_dpl_def)
qed

section \<open>The task state segment\<close>

text \<open>The offsets of the packed \<open>struct tss\<close>: 4 unused bytes, four stack pointers, 8 unused bytes, seven interrupt stack
  pointers, 10 unused bytes, the offset of the bitmap, and the bitmap with its terminator.\<close>

definition tss_rsp_off :: u64 where
  "tss_rsp_off = 4"

definition tss_bitmap_offset_off :: u64 where
  "tss_bitmap_offset_off = 4 + 4 * 8 + 8 + 7 * 8 + 8 + 2"

definition tss_bitmap_off :: u64 where
  "tss_bitmap_off = tss_bitmap_offset_off + 2"

definition sizeof_tss :: u64 where
  "sizeof_tss = tss_bitmap_off + 8193"

definition tss_create_new :: "machine \<Rightarrow> u64 \<times> machine" where
  "tss_create_new s =
     (let (phys, s) = pmm_alloc s ((sizeof_tss + PAGE_SIZE - 1) div PAGE_SIZE)
      in (phys + VIRT_PHYS_BASE, s\<lparr>phys_mem := memset (phys_mem s) phys 0 sizeof_tss\<rparr>))"

definition tss_update_stack :: "machine \<Rightarrow> u64 \<Rightarrow> u64 \<Rightarrow> u64 \<Rightarrow> machine" where
  "tss_update_stack s tss stack ring =
     s\<lparr>phys_mem := write64 (phys_mem s) (tss - VIRT_PHYS_BASE + tss_rsp_off + ring * 8) stack\<rparr>"

definition store_bitmap :: "mem \<Rightarrow> u64 \<Rightarrow> u8 list \<Rightarrow> mem" where
  "store_bitmap m a bitmap = (\<lambda>x. if unat (x - a) < length bitmap then bitmap ! unat (x - a) else m x)"

definition tss_update_io_bitmap :: "machine \<Rightarrow> u64 \<Rightarrow> u8 list \<Rightarrow> machine" where
  "tss_update_io_bitmap s tss bitmap =
     (let t = tss - VIRT_PHYS_BASE;
          m = write16 (phys_mem s) (t + tss_bitmap_offset_off) (ucast tss_bitmap_off);
          m = store_bitmap m (t + tss_bitmap_off) (take 8192 bitmap)
      in s\<lparr>phys_mem := m(t + tss_bitmap_off + 8192 := 0xFF)\<rparr>)"

section \<open>The global descriptor table\<close>

definition SEGMENT_COUNT :: nat where
  "SEGMENT_COUNT = 6"

definition GDT_TSS_SEL :: u16 where
  "GDT_TSS_SEL = 0x20"

text \<open>\<open>gdt[i] = v\<close> for the table at a physical address.\<close>

definition gdt_put :: "u64 \<Rightarrow> nat \<Rightarrow> u32 \<Rightarrow> mem \<Rightarrow> mem" where
  "gdt_put gdt i v m = write32 m (gdt + of_nat i * 4) v"

definition create_null_seg :: "u64 \<Rightarrow> nat \<Rightarrow> mem \<Rightarrow> mem" where
  "create_null_seg gdt idx m = gdt_put gdt (idx * 2 + 1) 0 (gdt_put gdt (idx * 2) 0 m)"

definition create_kern_code64_seg :: "u64 \<Rightarrow> nat \<Rightarrow> mem \<Rightarrow> mem" where
  "create_kern_code64_seg gdt idx m = gdt_put gdt (idx * 2 + 1) 0xa09800 (gdt_put gdt (idx * 2) 0 m)"

definition create_user_code64_seg :: "u64 \<Rightarrow> nat \<Rightarrow> mem \<Rightarrow> mem" where
  "create_user_code64_seg gdt idx m = gdt_put gdt (idx * 2 + 1) 0xa0f800 (gdt_put gdt (idx * 2) 0 m)"

definition create_user_data_seg :: "u64 \<Rightarrow> nat \<Rightarrow> mem \<Rightarrow> mem" where
  "create_user_data_seg gdt idx m = gdt_put gdt (idx * 2 + 1) 0xa0f200 (gdt_put gdt (idx * 2) 0 m)"

definition create_user_tss_seg :: "u64 \<Rightarrow> u64 \<Rightarrow> nat \<Rightarrow> mem \<Rightarrow> mem" where
  "create_user_tss_seg gdt tss idx m =
     (let sz = sizeof_tss;
          m = gdt_put gdt (idx * 2 + 0) (ucast ((sz AND 0xFFFF) OR push_bit 16 (tss AND 0xFFFF))) m;
          m = gdt_put gdt (idx * 2 + 1)
                (ucast ((drop_bit 16 tss AND 0xFF) OR 0x8900 OR (sz AND 0x000F0000) OR (tss AND 0xFF000000))) m;
          m = gdt_put gdt (idx * 2 + 2) (ucast (drop_bit 32 tss)) m
      in gdt_put gdt (idx * 2 + 3) 0 m)"

definition gdt_create_new :: "machine \<Rightarrow> u64 \<Rightarrow> u64 \<times> machine" where
  "gdt_create_new s tss =
     (let (phys, s) = pmm_alloc s ((8 * of_nat SEGMENT_COUNT + PAGE_SIZE - 1) div PAGE_SIZE);
          m = create_null_seg phys 0 (phys_mem s);
          m = create_kern_code64_seg phys 1 m;
          m = create_user_code64_seg phys 2 m;
          m = create_user_data_seg phys 3 m;
          m = create_user_tss_seg phys tss 4 m
      in (phys + VIRT_PHYS_BASE, s\<lparr>phys_mem := m\<rparr>))"

text \<open>What \<open>lgdt\<close> is given.\<close>

definition gdt_load :: "u64 \<Rightarrow> u16 \<times> u64" where
  "gdt_load gdt = (of_nat (SEGMENT_COUNT * 8 - 1), gdt)"

section \<open>How the processor reads a descriptor\<close>

text \<open>The descriptor a selector refers to, as its words; the low two bits of a selector are the privilege asked for.\<close>

definition descriptor :: "mem \<Rightarrow> u64 \<Rightarrow> u64 \<Rightarrow> nat \<Rightarrow> u32" where
  "descriptor m gdt sel i = read32 m (gdt + of_nat (unat sel div 8 * 2 + i) * 4)"

definition seg_present :: "u32 \<Rightarrow> bool" where
  "seg_present hi = bit hi 15"

definition seg_dpl :: "u32 \<Rightarrow> u32" where
  "seg_dpl hi = drop_bit 13 hi AND 3"

definition seg_code64 :: "u32 \<Rightarrow> bool" where
  "seg_code64 hi \<longleftrightarrow> bit hi 12 \<and> bit hi 11 \<and> bit hi 21 \<and> \<not> bit hi 22"

definition seg_writable_data :: "u32 \<Rightarrow> bool" where
  "seg_writable_data hi \<longleftrightarrow> bit hi 12 \<and> \<not> bit hi 11 \<and> bit hi 9"

definition tss_base :: "u32 \<Rightarrow> u32 \<Rightarrow> u32 \<Rightarrow> u64" where
  "tss_base w0 w1 w2 =
     push_bit 32 (ucast w2) OR ucast (w1 AND 0xFF000000) OR push_bit 16 (ucast (w1 AND 0xFF)) OR ucast (drop_bit 16 w0)"

definition tss_limit :: "u32 \<Rightarrow> u32 \<Rightarrow> u32" where
  "tss_limit w0 w1 = (w1 AND 0xF0000) OR (w0 AND 0xFFFF)"

definition tss_available :: "u32 \<Rightarrow> bool" where
  "tss_available w1 \<longleftrightarrow> drop_bit 8 w1 AND 0x1F = 0x09"

lemma read_gdt_put:
  assumes "i < 2 ^ 16" "j < 2 ^ 16"
  shows "read32 (gdt_put g i v m) (g + of_nat j * 4) = (if i = j then v else read32 m (g + of_nat j * 4))"
  using read32_write32_apart [OF _ assms] by (simp add: gdt_put_def)

text \<open>The constants of the descriptors, bit by bit.\<close>

lemma bit_consts:
  "bit (0xFFFF :: 'a::len word) n \<longleftrightarrow> n < LENGTH('a) \<and> n < 16" "bit (0xFF :: 'a word) n \<longleftrightarrow> n < LENGTH('a) \<and> n < 8"
  "bit (0x1F :: 'a word) n \<longleftrightarrow> n < LENGTH('a) \<and> n < 5" "bit (3 :: 'a word) n \<longleftrightarrow> n < LENGTH('a) \<and> n < 2"
proof -
  have m: "(0xFFFF :: 'a word) = mask 16" "(0xFF :: 'a word) = mask 8" "(0x1F :: 'a word) = mask 5" "(3 :: 'a word) = mask 2"
    by (simp_all add: mask_eq_decr_exp)
  show "bit (0xFFFF :: 'a word) n \<longleftrightarrow> n < LENGTH('a) \<and> n < 16" "bit (0xFF :: 'a word) n \<longleftrightarrow> n < LENGTH('a) \<and> n < 8"
    "bit (0x1F :: 'a word) n \<longleftrightarrow> n < LENGTH('a) \<and> n < 5" "bit (3 :: 'a word) n \<longleftrightarrow> n < LENGTH('a) \<and> n < 2"
    unfolding m by (auto simp: bit_mask_iff)
qed

lemma bit_descriptor_consts:
  "bit (0xFF000000 :: u64) n \<longleftrightarrow> 24 \<le> n \<and> n < 32" "bit (0xFF000000 :: u32) n \<longleftrightarrow> 24 \<le> n \<and> n < 32"
  "bit (0xF0000 :: u32) n \<longleftrightarrow> 16 \<le> n \<and> n < 20"
  "bit (0x8900 :: u64) n \<longleftrightarrow> n = 8 \<or> n = 11 \<or> n = 15" "bit (0x2071 :: u64) n \<longleftrightarrow> n = 0 \<or> n = 4 \<or> n = 5 \<or> n = 6 \<or> n = 13"
  "bit (0x2071 :: u32) n \<longleftrightarrow> n = 0 \<or> n = 4 \<or> n = 5 \<or> n = 6 \<or> n = 13" "bit (0x09 :: u32) n \<longleftrightarrow> n = 0 \<or> n = 3"
proof -
  have m: "(0xFF000000 :: u64) = push_bit 24 (mask 8)" "(0xFF000000 :: u32) = push_bit 24 (mask 8)"
    "(0xF0000 :: u32) = push_bit 16 (mask 4)"
    "(0x8900 :: u64) = push_bit 8 1 OR push_bit 11 1 OR push_bit 15 1"
    "(0x2071 :: u64) = push_bit 0 1 OR push_bit 4 1 OR push_bit 5 1 OR push_bit 6 1 OR push_bit 13 1"
    "(0x2071 :: u32) = push_bit 0 1 OR push_bit 4 1 OR push_bit 5 1 OR push_bit 6 1 OR push_bit 13 1"
    "(0x09 :: u32) = push_bit 0 1 OR push_bit 3 1"
    by (simp_all add: mask_eq_decr_exp)
  show "bit (0xFF000000 :: u64) n \<longleftrightarrow> 24 \<le> n \<and> n < 32" "bit (0xFF000000 :: u32) n \<longleftrightarrow> 24 \<le> n \<and> n < 32"
    "bit (0xF0000 :: u32) n \<longleftrightarrow> 16 \<le> n \<and> n < 20"
    unfolding m by (auto simp: bit_push_bit_iff bit_mask_iff)
  show "bit (0x8900 :: u64) n \<longleftrightarrow> n = 8 \<or> n = 11 \<or> n = 15"
    "bit (0x2071 :: u64) n \<longleftrightarrow> n = 0 \<or> n = 4 \<or> n = 5 \<or> n = 6 \<or> n = 13"
    "bit (0x2071 :: u32) n \<longleftrightarrow> n = 0 \<or> n = 4 \<or> n = 5 \<or> n = 6 \<or> n = 13" "bit (0x09 :: u32) n \<longleftrightarrow> n = 0 \<or> n = 3"
    unfolding m bit_or_iff bit_push_bit_1 by auto
qed

lemma tss_words:
  fixes t :: u64
  defines "w0 \<equiv> ucast ((sizeof_tss AND 0xFFFF) OR push_bit 16 (t AND 0xFFFF)) :: u32"
  defines "w1 \<equiv> ucast ((drop_bit 16 t AND 0xFF) OR 0x8900 OR (sizeof_tss AND 0x000F0000) OR (t AND 0xFF000000)) :: u32"
  defines "w2 \<equiv> ucast (drop_bit 32 t) :: u32"
  shows "tss_base w0 w1 w2 = t" "tss_limit w0 w1 = ucast sizeof_tss" "tss_available w1" "seg_present w1" "seg_dpl w1 = 0"
proof -
  have sz: "sizeof_tss AND 0xFFFF = 0x2071" "sizeof_tss AND 0x000F0000 = 0" "(ucast sizeof_tss :: u32) = 0x2071"
    by code_simp+
  have w0: "bit w0 n \<longleftrightarrow> n < 32 \<and> (n = 0 \<or> n = 4 \<or> n = 5 \<or> n = 6 \<or> n = 13 \<or> 16 \<le> n \<and> bit t (n - 16))" for n
    unfolding w0_def sz bit_unsigned_iff bit_or_iff bit_and_iff bit_push_bit_iff bit_consts bit_descriptor_consts by auto
  have w1: "bit w1 n \<longleftrightarrow> n < 32 \<and> (n < 8 \<and> bit t (n + 16) \<or> n = 8 \<or> n = 11 \<or> n = 15 \<or> 24 \<le> n \<and> bit t n)" for n
    unfolding w1_def sz bit_unsigned_iff bit_or_iff bit_and_iff bit_drop_bit_eq bit_consts bit_descriptor_consts
    by (auto simp: add.commute)
  have w2: "bit w2 n \<longleftrightarrow> n < 32 \<and> bit t (n + 32)" for n
    unfolding w2_def by (auto simp: bit_simps add.commute)
  have e: "32 \<le> n \<Longrightarrow> n - 32 + 32 = n" "16 \<le> n \<Longrightarrow> n - 16 + 16 = n" for n :: nat by simp_all
  show "tss_base w0 w1 w2 = t"
  proof (rule bit_word_eqI)
    fix n assume n: "n < LENGTH(64)"
    consider "n < 16" | "16 \<le> n" "n < 24" | "24 \<le> n" "n < 32" | "32 \<le> n" by linarith
    then show "bit (tss_base w0 w1 w2) n = bit t n"
      using n unfolding tss_base_def
        bit_unsigned_iff bit_or_iff bit_and_iff bit_push_bit_iff bit_drop_bit_eq comp_def w0 w1 w2 bit_consts
        bit_descriptor_consts
      by cases (auto simp: e)
  qed
  show "tss_limit w0 w1 = ucast sizeof_tss"
    unfolding tss_limit_def sz
    by (rule bit_word_eqI, unfold bit_or_iff bit_and_iff w0 w1 bit_consts bit_descriptor_consts) auto
  show "tss_available w1"
    unfolding tss_available_def
    by (rule bit_word_eqI, unfold bit_and_iff bit_drop_bit_eq comp_def w1 bit_consts bit_descriptor_consts) auto
  show "seg_present w1" by (simp add: seg_present_def w1)
  show "seg_dpl w1 = 0"
    unfolding seg_dpl_def
    by (rule bit_word_eqI, unfold bit_and_iff bit_drop_bit_eq comp_def w1 bit_consts) auto
qed

lemma gdt_words:
  fixes g :: u64
  assumes "gdt_create_new s tss = (v, s')" "g = v - VIRT_PHYS_BASE"
  shows "read32 (phys_mem s') (g + of_nat 3 * 4) = 0xa09800" "read32 (phys_mem s') (g + of_nat 5 * 4) = 0xa0f800"
    "read32 (phys_mem s') (g + of_nat 7 * 4) = 0xa0f200"
    "read32 (phys_mem s') (g + of_nat 8 * 4) = ucast ((sizeof_tss AND 0xFFFF) OR push_bit 16 (tss AND 0xFFFF))"
    "read32 (phys_mem s') (g + of_nat 9 * 4) =
       ucast ((drop_bit 16 tss AND 0xFF) OR 0x8900 OR (sizeof_tss AND 0x000F0000) OR (tss AND 0xFF000000))"
    "read32 (phys_mem s') (g + of_nat 10 * 4) = ucast (drop_bit 32 tss)"
proof -
  obtain p s1 where p: "pmm_alloc s ((8 * of_nat SEGMENT_COUNT + PAGE_SIZE - 1) div PAGE_SIZE) = (p, s1)" by force
  have g: "g = p" using assms p by (auto simp: gdt_create_new_def Let_def)
  have m: "phys_mem s' = create_user_tss_seg p tss 4 (create_user_data_seg p 3 (create_user_code64_seg p 2
      (create_kern_code64_seg p 1 (create_null_seg p 0 (phys_mem s1)))))"
    using assms(1) p by (auto simp: gdt_create_new_def Let_def)
  note d = create_user_tss_seg_def create_user_data_seg_def create_user_code64_seg_def create_kern_code64_seg_def
    create_null_seg_def
  show "read32 (phys_mem s') (g + of_nat 3 * 4) = 0xa09800" "read32 (phys_mem s') (g + of_nat 5 * 4) = 0xa0f800"
    "read32 (phys_mem s') (g + of_nat 7 * 4) = 0xa0f200"
    "read32 (phys_mem s') (g + of_nat 8 * 4) = ucast ((sizeof_tss AND 0xFFFF) OR push_bit 16 (tss AND 0xFFFF))"
    "read32 (phys_mem s') (g + of_nat 9 * 4) =
       ucast ((drop_bit 16 tss AND 0xFF) OR 0x8900 OR (sizeof_tss AND 0x000F0000) OR (tss AND 0xFF000000))"
    "read32 (phys_mem s') (g + of_nat 10 * 4) = ucast (drop_bit 32 tss)"
    unfolding m g d Let_def by (simp_all add: read_gdt_put del: of_nat_numeral)
qed

text \<open>C32. The segment descriptors fit the selectors the kernel uses. In a table made by \<open>gdt_create_new\<close> the code selector of a
  new task names a present 64-bit code segment of ring 3 and its stack selector a present writable data segment of ring 3,
  each asking for ring 3 itself; the selector of the interrupt gates names a 64-bit code segment of ring 0; and the task
  register's selector names an available task state segment of ring 0 whose base is the address given, whole 64 bits. Its
  limit, the offset of the last byte, is the size of the segment: one byte too large.\<close>

theorem gdt_selectors:
  assumes "gdt_create_new s tss = (v, s')"
  shows "let m = phys_mem s'; g = v - VIRT_PHYS_BASE; t = t_state (new_arch_task garbage); d = descriptor m g (ucast GDT_TSS_SEL)
    in c_cs t AND 3 = 3 \<and> seg_present (descriptor m g (c_cs t) 1) \<and> seg_dpl (descriptor m g (c_cs t) 1) = 3 \<and>
       seg_code64 (descriptor m g (c_cs t) 1) \<and>
       c_ss t AND 3 = 3 \<and> seg_present (descriptor m g (c_ss t) 1) \<and> seg_dpl (descriptor m g (c_ss t) 1) = 3 \<and>
       seg_writable_data (descriptor m g (c_ss t) 1) \<and>
       seg_present (descriptor m g 0x08 1) \<and> seg_dpl (descriptor m g 0x08 1) = 0 \<and> seg_code64 (descriptor m g 0x08 1) \<and>
       seg_present (d 1) \<and> seg_dpl (d 1) = 0 \<and> tss_available (d 1) \<and> tss_base (d 0) (d 1) (d 2) = tss \<and>
       tss_limit (d 0) (d 1) = ucast sizeof_tss"
proof -
  note w = gdt_words [OF assms refl]
  have t: "c_cs (t_state (new_arch_task garbage)) = 0x13" "c_ss (t_state (new_arch_task garbage)) = 0x1b"
    by (simp_all add: new_arch_task_def)
  have i: "unat (0x13 :: u64) div 8 * 2 + 1 = 5" "unat (0x1b :: u64) div 8 * 2 + 1 = 7" "unat (0x08 :: u64) div 8 * 2 + 1 = 3"
    "unat (ucast GDT_TSS_SEL :: u64) div 8 * 2 + 0 = 8" "unat (ucast GDT_TSS_SEL :: u64) div 8 * 2 + 1 = 9"
    "unat (ucast GDT_TSS_SEL :: u64) div 8 * 2 + 2 = 10"
    by (simp_all add: GDT_TSS_SEL_def)
  have k: "seg_present 0xa0f800" "seg_dpl 0xa0f800 = 3" "seg_code64 0xa0f800" "seg_present 0xa0f200" "seg_dpl 0xa0f200 = 3"
    "seg_writable_data 0xa0f200" "seg_present 0xa09800" "seg_dpl 0xa09800 = 0" "seg_code64 0xa09800"
    by code_simp+
  have r: "(0x13 :: u64) AND 3 = 3" "(0x1b :: u64) AND 3 = 3" by code_simp+
  show ?thesis unfolding Let_def t descriptor_def i w using k r tss_words [of tss] by simp
qed

definition no_gate :: idt_entry_t where
  "no_gate = \<lparr>offset_low = 0, selector = 0, zero_1 = 0, attrib = 0, offset_mid = 0, offset_high = 0, zero_2 = 0\<rparr>"

theorem idt_init_gates_witness:
  "length (replicate IDT_ENTRIES no_gate) = IDT_ENTRIES \<and>
   gate_dpl (fst (idt_init (\<lambda>i. 0xFFFFFFFF80100000 + of_nat i * 16) 0 (replicate IDT_ENTRIES no_gate)) ! 0x30) = 3"
  using idt_init_gates [of "replicate IDT_ENTRIES no_gate" "0x30" "\<lambda>i. 0xFFFFFFFF80100000 + of_nat i * 16" 0]
  by (simp add: IDT_ENTRIES_def split: prod.splits)

theorem gdt_selectors_witness:
  "\<exists>v s'. gdt_create_new small_machine 0xFFFF800002003000 = (v, s') \<and>
     seg_dpl (descriptor (phys_mem s') (v - VIRT_PHYS_BASE) 0x08 1) = 0"
proof -
  obtain v s' where e: "gdt_create_new small_machine 0xFFFF800002003000 = (v, s')" by force
  show ?thesis using gdt_selectors [OF e, of undefined] e by (simp add: Let_def)
qed

end
