(* ===== verification/Irq.thy ===== *)
theory Irq
  imports Contexts Lapic Descriptors "HOL-Library.While_Combinator"
begin

text \<open>
  Interrupts: the table of handlers and the dispatch (\<open>arch/x86_64/irq/isr.cpp\<close>), the per-CPU data the dispatch looks up
  (\<open>arch/x86_64/cpu/cpu_data.cpp\<close>), and the timers, whose interrupts it counts (\<open>arch/x86_64/cpu/lapic.cpp\<close>). The kernel's
  state is that of the system calls together with the state of the interrupt hardware. An interrupt ends in one of three
  ways: the interrupted code goes on, a task is entered, or the processor idles.
\<close>

section \<open>State\<close>

text \<open>The functions that are ever registered as handlers.\<close>

datatype irq_handler = Syscall_Handler | Pit_Irq | Lapic_Timer_Int | Acpi_Sci_Handler

text \<open>The data of a processor; the field \<open>saved_vmm_ctx\<close> is part of the machine.\<close>

record cpu_data_t =
  cd_cpu_id :: cint
  cd_lapic_id :: u8
  cd_stack_ptr :: u64
  cd_gdt :: u64
  cd_tss :: u64
  cd_spurious_pic :: u64

record 'd irq_state =
  irq_handlers :: "irq_handler option list"
  irq_io :: "io_event list"
  irq_lapic :: "'d lapic_state"
  max_cpus :: int
  cpu_data :: "nat \<Rightarrow> cpu_data_t"
  pit_ticks :: u64
  lapic_bsp_ticks :: u64

record 'd kernel =
  k_sys :: "machine sys_state"
  k_irq :: "'d irq_state"

text \<open>What the code relies on: the environment of the system calls, the containers, the devices, the address of
  the last page fault, and of the library \<open>lai\<close> the event it reports and the masks of three events.\<close>

record 'd irq_env =
  ie_sys :: "machine sys_env"
  ie_frg :: sched_frg
  ie_mmio :: "'d mmio_ops"
  ie_cr2 :: u64
  ie_sci_event :: u16
  ACPI_POWER_BUTTON :: u16
  ACPI_SLEEP_BUTTON :: u16
  ACPI_WAKE :: u16

datatype irq_outcome = Resume irq_cpu_state_t | EnterUser ctx_cpu_state_t | Idle u64

abbreviation mach :: "'d kernel \<Rightarrow> machine" where
  "mach k \<equiv> ss_mem (k_sys k)"

definition upd_mach :: "(machine \<Rightarrow> machine) \<Rightarrow> 'd kernel \<Rightarrow> 'd kernel" where
  "upd_mach f k = k\<lparr>k_sys := (k_sys k)\<lparr>ss_mem := f (mach k)\<rparr>\<rparr>"

definition boot_irq_handlers :: "irq_handler option list" where
  "boot_irq_handlers = replicate IDT_ENTRIES None"

section \<open>Handlers\<close>

definition isr_register_handler :: "'d irq_state \<Rightarrow> u8 \<Rightarrow> irq_handler \<Rightarrow> bool \<times> 'd irq_state" where
  "isr_register_handler q irq handler =
     (if irq_handlers q ! unat irq \<noteq> None then (False, q)
      else (True, q\<lparr>irq_handlers := (irq_handlers q)[unat irq := Some handler]\<rparr>))"

definition isr_unregister_handler :: "'d irq_state \<Rightarrow> u8 \<Rightarrow> bool \<times> 'd irq_state" where
  "isr_unregister_handler q irq =
     (if irq_handlers q ! unat irq = None then (False, q)
      else (True, q\<lparr>irq_handlers := (irq_handlers q)[unat irq := None]\<rparr>))"

definition irq_eoi :: "'d mmio_ops \<Rightarrow> 'd irq_state \<Rightarrow> u8 \<Rightarrow> 'd irq_state" where
  "irq_eoi M q irq =
     (let q = (if 0x20 \<le> irq \<and> irq < 0x30
               then
                 let q = (if 0x28 \<le> irq then q\<lparr>irq_io := outb (irq_io q) 0xA0 0x20\<rparr> else q)
                 in q\<lparr>irq_io := outb (irq_io q) 0x20 0x20\<rparr>
               else q)
      in if 0x30 \<le> irq then q\<lparr>irq_lapic := lapic_eoi M (irq_lapic q)\<rparr> else q)"

definition arch_cpu_ack_interrupt :: "'d mmio_ops \<Rightarrow> 'd irq_state \<Rightarrow> u8 \<Rightarrow> 'd irq_state" where
  "arch_cpu_ack_interrupt M q irq = irq_eoi M q irq"

definition exit_interrupt :: "'d mmio_ops \<Rightarrow> 'd kernel \<Rightarrow> u8 \<Rightarrow> bool \<Rightarrow> 'd kernel" where
  "exit_interrupt M k irq restore_ctx =
     (let k = k\<lparr>k_irq := irq_eoi M (k_irq k) irq\<rparr>
      in if restore_ctx then upd_mach vmm_restore_context k else k)"

definition pit_irq :: "'d irq_state \<Rightarrow> 'd irq_state" where
  "pit_irq q = q\<lparr>pit_ticks := pit_ticks q + 1\<rparr>"

definition lapic_timer_int :: "'d irq_state \<Rightarrow> 'd irq_state" where
  "lapic_timer_int q = q\<lparr>lapic_bsp_ticks := lapic_bsp_ticks q + 1\<rparr>"

definition sci_event_name :: "'d irq_env \<Rightarrow> u16 \<Rightarrow> string" where
  "sci_event_name E ev =
     (let ev_name = ''?'';
          ev_name = (if ev AND ACPI_POWER_BUTTON E \<noteq> 0 then ''power button'' else ev_name);
          ev_name = (if ev AND ACPI_SLEEP_BUTTON E \<noteq> 0 then ''sleep button'' else ev_name)
      in if ev AND ACPI_WAKE E \<noteq> 0 then ''sleep wake up'' else ev_name)"

definition acpi_sci_handler :: "'d irq_env \<Rightarrow> 'd kernel \<Rightarrow> 'd kernel result" where
  "acpi_sci_handler E k =
     (let ev = ie_sci_event E
      in and_then (kmesg (\<lambda>_. sci_event_name E ev) (ss_log (k_sys k)) ''acpi'' ''a sci event has occured: %04x(%s)''
           [ucast ev, 0]) (\<lambda>lg.
         Inr (k\<lparr>k_sys := (k_sys k)\<lparr>ss_log := lg\<rparr>\<rparr>)))"

definition call_handler ::
  "'d irq_env \<Rightarrow> 'd kernel \<Rightarrow> irq_cpu_state_t \<Rightarrow> irq_handler \<Rightarrow> (cint \<times> irq_cpu_state_t \<times> 'd kernel) result" where
  "call_handler E k state h =
     (case h of
        Syscall_Handler \<Rightarrow>
          and_then (syscall_irq_handler (ie_sys E) (ie_frg E) (cur_cpu (mach k)) (k_sys k) state) (\<lambda>(r, state, s).
            Inr (r, state, k\<lparr>k_sys := s\<rparr>))
      | Pit_Irq \<Rightarrow> Inr (1, state, k\<lparr>k_irq := pit_irq (k_irq k)\<rparr>)
      | Lapic_Timer_Int \<Rightarrow> Inr (1, state, k\<lparr>k_irq := lapic_timer_int (k_irq k)\<rparr>)
      | Acpi_Sci_Handler \<Rightarrow> and_then (acpi_sci_handler E k) (\<lambda>k. Inr (1, state, k)))"

section \<open>Leaving the kernel\<close>

definition cpu_data_get :: "'d irq_state \<Rightarrow> nat \<Rightarrow> cpu_data_t option" where
  "cpu_data_get q cpu = (if max_cpus q \<le> int cpu then None else Some (cpu_data q cpu))"

text \<open>Entering a task gives the processor the task's I/O permissions, then loads its tables and its registers.\<close>

definition arch_task_enter :: "'d kernel \<Rightarrow> arch_task \<Rightarrow> (ctx_cpu_state_t \<times> 'd kernel) result" where
  "arch_task_enter k t =
     (case cpu_data_get (k_irq k) (cur_cpu (mach k)) of
        None \<Rightarrow> Inl NullDeref
      | Some d \<Rightarrow>
          Inr (t_state t,
            upd_mach (\<lambda>s. vmm_set_context (tss_update_io_bitmap s (cd_tss d) (t_io_bitmap t)) (t_vmm_ctx t)) k))"

text \<open>Idling continues on the processor's own stack.\<close>

definition arch_task_idle_cpu :: "'d kernel \<Rightarrow> u64 result" where
  "arch_task_idle_cpu k =
     (case cpu_data_get (k_irq k) (cur_cpu (mach k)) of None \<Rightarrow> Inl NullDeref | Some d \<Rightarrow> Inr (cd_stack_ptr d))"

text \<open>The calls the scheduler makes, in order. Entering a task and idling do not return.\<close>

fun run_calls :: "'d mmio_ops \<Rightarrow> 'd kernel \<Rightarrow> arch_call list \<Rightarrow> (irq_outcome option \<times> 'd kernel) result" where
  "run_calls M k [] = Inr (None, k)"
| "run_calls M k (DropContext # cs) = run_calls M (upd_mach arch_mm_drop_context k) cs"
| "run_calls M k (AckInterrupt irq # cs) = run_calls M (k\<lparr>k_irq := arch_cpu_ack_interrupt M (k_irq k) irq\<rparr>) cs"
| "run_calls M k (EnterTask t # cs) = and_then (arch_task_enter k t) (\<lambda>(r, k). Inr (Some (EnterUser r), k))"
| "run_calls M k (IdleCpu # cs) = and_then (arch_task_idle_cpu k) (\<lambda>sp. Inr (Some (Idle sp), k))"

section \<open>Dispatch\<close>

text \<open>An interrupt of the legacy controller is counted and logged.\<close>

definition count_spurious :: "'d kernel \<Rightarrow> u32 \<Rightarrow> cpu_data_t \<Rightarrow> 'd kernel result" where
  "count_spurious k irq d =
     (if 0x20 \<le> irq \<and> irq < 0x30
      then
        let cpu = cur_cpu (mach k);
            q = (k_irq k)\<lparr>cpu_data := (cpu_data (k_irq k))(cpu := d\<lparr>cd_spurious_pic := cd_spurious_pic d + 1\<rparr>)\<rparr>
        in and_then (kmesg (\<lambda>_. []) (ss_log (k_sys k)) ''irq'' ''spurious pic interrupt on cpu %u'' [of_nat cpu]) (\<lambda>lg.
             Inr \<lparr>k_sys = (k_sys k)\<lparr>ss_log := lg\<rparr>, k_irq = q\<rparr>)
      else Inr k)"

text \<open>An exception no handler has taken. The kernel survives only a page fault of user code.\<close>

definition unhandled ::
  "'d irq_env \<Rightarrow> 'd kernel \<Rightarrow> u32 \<Rightarrow> irq_cpu_state_t \<Rightarrow> 'd kernel result" where
  "unhandled E k irq state =
     (if irq < 0x20
      then
        if i_cs state = 0x08 then Inl Panic
        else if irq = 0x0E
        then and_then (page_fault_sink (se_mm (ie_sys E)) (ie_frg E) (cur_cpu (mach k)) (mach k) (ss_sched (k_sys k)) (ie_cr2 E))
               (\<lambda>(m, sc). Inr (k\<lparr>k_sys := (k_sys k)\<lparr>ss_mem := m, ss_sched := sc\<rparr>\<rparr>))
        else Inl Panic
      else Inr k)"

definition run_handler ::
  "'d irq_env \<Rightarrow> 'd kernel \<Rightarrow> u32 \<Rightarrow> irq_cpu_state_t \<Rightarrow> (cint \<times> irq_cpu_state_t \<times> 'd kernel) result" where
  "run_handler E k irq state =
     (if length (irq_handlers (k_irq k)) \<le> unat irq then Inl OutOfBounds
      else
        (case irq_handlers (k_irq k) ! unat irq of
           None \<Rightarrow> Inr (0, state, k)
         | Some h \<Rightarrow> call_handler E k state h))"

definition timer_sink ::
  "'d irq_env \<Rightarrow> 'd kernel \<Rightarrow> u32 \<Rightarrow> irq_cpu_state_t \<Rightarrow> (irq_outcome option \<times> 'd kernel) result" where
  "timer_sink E k irq state =
     (if irq = 0x31
      then
        and_then (timer_irq_sink (ie_frg E) (cur_cpu (mach k)) (ss_sched (k_sys k)) (ucast irq) state) (\<lambda>(calls, sc).
          run_calls (ie_mmio E) (k\<lparr>k_sys := (k_sys k)\<lparr>ss_sched := sc\<rparr>\<rparr>) calls)
      else Inr (None, k))"

text \<open>The whole handler. Saving the context already needs the data of the processor, which a processor beyond the number given
  on the command line does not have. A machine check prints the state of its banks and halts.\<close>

definition dispatch_interrupt ::
  "'d irq_env \<Rightarrow> 'd kernel \<Rightarrow> irq_cpu_state_t \<Rightarrow> (irq_outcome \<times> 'd kernel) result" where
  "dispatch_interrupt E k state =
     (case cpu_data_get (k_irq k) (cur_cpu (mach k)) of
        None \<Rightarrow> Inl NullDeref
      | Some d \<Rightarrow>
          let k = upd_mach (\<lambda>s. vmm_set_context (vmm_save_context s) (arch_mm_get_ctx_kernel s)) k;
              irq = ucast (i_int_no state) :: u32
          in and_then (count_spurious k irq d) (\<lambda>k.
             and_then (run_handler E k irq state) (\<lambda>(success, state, k).
             and_then (timer_sink E k irq state) (\<lambda>(left, k).
               (case left of
                  Some out \<Rightarrow> Inr (out, k)
                | None \<Rightarrow>
                    if irq = 18 then Inl Panic
                    else
                      and_then (if success = 0 \<and> irq \<noteq> 0x31 then unhandled E k irq state else Inr k) (\<lambda>k.
                        Inr (Resume state, exit_interrupt (ie_mmio E) k (ucast irq) True)))))))"

section \<open>Timers\<close>

definition INITIAL_FREQ :: u64 where
  "INITIAL_FREQ = 1000"

text \<open>A loop that waits reads a counter which interrupts advance; what happens between two reads is the argument \<open>tick\<close>.\<close>

definition wait_until ::
  "('d irq_state \<Rightarrow> 'd irq_state) \<Rightarrow> ('d irq_state \<Rightarrow> u64) \<Rightarrow> u64 \<Rightarrow> 'd irq_state \<Rightarrow> 'd irq_state result" where
  "wait_until tick counter bound q =
     (case while_option (\<lambda>q. counter q < bound) tick q of None \<Rightarrow> Inl Diverges | Some q \<Rightarrow> Inr q)"

definition start_calibration :: "'d mmio_ops \<Rightarrow> 'd irq_state \<Rightarrow> 'd irq_state" where
  "start_calibration M q =
     (let l = lapic_write M (irq_lapic q) LVT_TIMER CALIB_TIMER_CONFIG;
          l = lapic_write M l DIVIDE_CONFIG LAPIC_TIMER_1X_DIV
      in q\<lparr>irq_lapic := lapic_write M l INITIAL_COUNT 0xFFFFFFFF\<rparr>)"

definition lapic_timer_calc_freq_bsp ::
  "'d mmio_ops \<Rightarrow> ('d irq_state \<Rightarrow> 'd irq_state) \<Rightarrow> madt_state \<Rightarrow> 'd irq_state \<Rightarrow> 'd irq_state result" where
  "lapic_timer_calc_freq_bsp M tick st q =
     (if lapic_bsp_speed_hz (irq_lapic q) \<noteq> 0 then Inr q
      else
        and_then (ioapic_get_vector_by_irq M st (lapic_dev (irq_lapic q)) 0) (\<lambda>(pit_vec, d).
        and_then (pit_set_freq (irq_io q) 1000) (\<lambda>io.
          let q = snd (isr_register_handler (q\<lparr>irq_lapic := (irq_lapic q)\<lparr>lapic_dev := d\<rparr>, irq_io := io\<rparr>) pit_vec Pit_Irq);
              q = start_calibration M q
          in and_then (wait_until tick pit_ticks 1000 (q\<lparr>pit_ticks := 0\<rparr>)) (\<lambda>q.
             let (n, l) = lapic_read M (irq_lapic q) CURRENT_COUNT;
                 l = l\<lparr>lapic_bsp_speed_hz := ucast (0xFFFFFFFF - n)\<rparr>
             in Inr (snd (isr_unregister_handler (q\<lparr>irq_lapic := l\<rparr>) pit_vec))))))"

definition start_timer :: "'d mmio_ops \<Rightarrow> 'd irq_state \<Rightarrow> u64 \<Rightarrow> 'd irq_state result" where
  "start_timer M q speed =
     (let l = lapic_write M (irq_lapic q) LVT_TIMER (0x31 OR push_bit 17 1);
          l = lapic_write M l DIVIDE_CONFIG LAPIC_TIMER_1X_DIV
      in and_then (lapic_timer_set_frequency M l speed INITIAL_FREQ) (\<lambda>l. Inr (q\<lparr>irq_lapic := l\<rparr>)))"

definition lapic_timer_init_bsp :: "'d mmio_ops \<Rightarrow> 'd irq_state \<Rightarrow> 'd irq_state result" where
  "lapic_timer_init_bsp M q =
     and_then (start_timer M q (lapic_bsp_speed_hz (irq_lapic q))) (\<lambda>q.
       Inr (snd (isr_register_handler q 0x31 Lapic_Timer_Int)))"

definition lapic_sleep_ms_bsp ::
  "('d irq_state \<Rightarrow> 'd irq_state) \<Rightarrow> u64 \<Rightarrow> 'd irq_state \<Rightarrow> 'd irq_state result" where
  "lapic_sleep_ms_bsp tick ms q = (let end_tick = lapic_bsp_ticks q + ms in wait_until tick lapic_bsp_ticks end_tick q)"

definition lapic_timer_calc_freq_ap ::
  "'d mmio_ops \<Rightarrow> ('d irq_state \<Rightarrow> 'd irq_state) \<Rightarrow> 'd irq_state \<Rightarrow> (u32 \<times> 'd irq_state) result" where
  "lapic_timer_calc_freq_ap M tick q =
     (if lapic_bsp_speed_hz (irq_lapic q) = 0 then Inl Panic
      else
        and_then (lapic_sleep_ms_bsp tick 1000 (start_calibration M q)) (\<lambda>q.
          let (n, l) = lapic_read M (irq_lapic q) CURRENT_COUNT
          in Inr (0xFFFFFFFF - n, q\<lparr>irq_lapic := l\<rparr>)))"

definition lapic_timer_init_ap ::
  "'d mmio_ops \<Rightarrow> ('d irq_state \<Rightarrow> 'd irq_state) \<Rightarrow> 'd irq_state \<Rightarrow> 'd irq_state result" where
  "lapic_timer_init_ap M tick q =
     and_then (lapic_timer_calc_freq_ap M tick q) (\<lambda>(speed, q). start_timer M q (ucast speed))"

definition acpi_late_init ::
  "'d mmio_ops \<Rightarrow> fadt_fields \<Rightarrow> mem \<Rightarrow> u64 option \<Rightarrow> madt_state \<Rightarrow> 'd irq_state \<Rightarrow> 'd irq_state result" where
  "acpi_late_init M T m rsdt st q =
     and_then (acpi_get_sci_vector T m rsdt) (\<lambda>sci_irq.
       if sci_irq = 0 then Inr q
       else
         and_then (ioapic_get_vector_by_irq M st (lapic_dev (irq_lapic q)) (ucast sci_irq)) (\<lambda>(vec, d).
           Inr (snd (isr_register_handler (q\<lparr>irq_lapic := (irq_lapic q)\<lparr>lapic_dev := d\<rparr>\<rparr>) vec Acpi_Sci_Handler))))"

section \<open>What a handler leaves alone\<close>

text \<open>What the interrupt hardware sees of the state.\<close>

definition same_hw :: "'d irq_state \<Rightarrow> 'd irq_state \<Rightarrow> bool" where
  "same_hw q q' \<longleftrightarrow> irq_io q' = irq_io q \<and> irq_lapic q' = irq_lapic q \<and> irq_handlers q' = irq_handlers q \<and>
     max_cpus q' = max_cpus q"

lemma same_hw_refl [simp]: "same_hw q q"
  by (simp add: same_hw_def)

lemma same_hw_trans: "same_hw p q \<Longrightarrow> same_hw q r \<Longrightarrow> same_hw p r"
  by (simp add: same_hw_def)

lemma mach_upd [simp]: "mach (upd_mach f k) = f (mach k)" "k_irq (upd_mach f k) = k_irq k"
  "ss_sched (k_sys (upd_mach f k)) = ss_sched (k_sys k)"
  by (simp_all add: upd_mach_def)

lemma irq_eoi_hw:
  "same_hw q q' \<Longrightarrow> irq_io (irq_eoi M q' irq) = irq_io (irq_eoi M q irq) \<and>
     irq_lapic (irq_eoi M q' irq) = irq_lapic (irq_eoi M q irq)"
  by (simp add: irq_eoi_def same_hw_def Let_def)

lemma count_spurious_keeps:
  "count_spurious k irq d = Inr k' \<Longrightarrow>
     mach k' = mach k \<and> same_hw (k_irq k) (k_irq k') \<and> ss_sched (k_sys k') = ss_sched (k_sys k)"
  by (auto simp: count_spurious_def Let_def and_then_Inr_iff same_hw_def split: if_splits)

text \<open>What the proofs below use of the memory functions and of the environment of the system calls.\<close>

definition x86_env :: "'d irq_env \<Rightarrow> bool" where
  "x86_env E \<longleftrightarrow> (\<exists>ehdr. se_mm (ie_sys E) = x86_64_mm ehdr) \<and> env_keeps_ctx (ie_sys E)"

lemma call_handler_keeps:
  assumes "call_handler E k st h = Inr (r, st', k')" "x86_env E"
  shows "same_ctx (mach k) (mach k') \<and> same_hw (k_irq k) (k_irq k') \<and>
    (st' = st \<or> h = Syscall_Handler \<and> (\<exists>v. st' = st\<lparr>i_rax := v\<rparr>))"
proof (cases h)
  case Syscall_Handler
  obtain ehdr where e: "se_mm (ie_sys E) = x86_64_mm ehdr" "env_keeps_ctx (ie_sys E)" using assms(2) by (auto simp: x86_env_def)
  obtain s where s: "syscall_irq_handler (ie_sys E) (ie_frg E) (cur_cpu (mach k)) (k_sys k) st = Inr (r, st', s)"
    "k' = k\<lparr>k_sys := s\<rparr>"
    using assms(1) Syscall_Handler by (auto simp: call_handler_def and_then_Inr_iff)
  have "\<exists>v. st' = st\<lparr>i_rax := v\<rparr>" using s(1) by (auto simp: syscall_irq_handler_def and_then_Inr_iff)
  then show ?thesis using x86ctx.syscall_ctx [OF s(1) e] s(2) Syscall_Handler by simp
qed (use assms(1) in \<open>auto simp: call_handler_def pit_irq_def lapic_timer_int_def acpi_sci_handler_def Let_def same_hw_def
       and_then_Inr_iff\<close>)

lemma run_handler_keeps:
  assumes "run_handler E k irq st = Inr (r, st', k')" "x86_env E"
  shows "same_ctx (mach k) (mach k') \<and> same_hw (k_irq k) (k_irq k') \<and>
    (st' = st \<or> irq_handlers (k_irq k) ! unat irq = Some Syscall_Handler \<and> (\<exists>v. st' = st\<lparr>i_rax := v\<rparr>))"
  using assms by (auto simp: run_handler_def split: if_splits option.splits dest: call_handler_keeps)

lemma unhandled_keeps:
  assumes "unhandled E k irq st = Inr k'" "x86_env E"
  shows "same_ctx (mach k) (mach k') \<and> k_irq k' = k_irq k"
  using assms by (auto simp: unhandled_def x86_env_def and_then_Inr_iff split: if_splits dest: x86ctx.page_fault_ctx)

section \<open>What the scheduler asks for\<close>

context sched_containers
begin

lemma thread_at_D:
  "thread_at F s k = Inr (p, t, s') \<Longrightarrow> sc_threads s k = Some (Some p) \<and> get_thread (sc_heap s) p = Inr t \<and> s' = s"
  using thread_at_Inr by blast

lemma resched_calls:
  assumes "sched_resched F cpu s irq st r = Inr (calls, s')"
  shows "calls = [] \<or>
    (\<exists>p t. calls = [DropContext, AckInterrupt irq, EnterTask (th_task t)] \<and> runs_thread s' cpu p t) \<or>
    calls = [DropContext, AckInterrupt irq, IdleCpu] \<and> \<not> cpu_running (sc_procs s' ! cpu)"
proof -
  let ?data = "sc_procs s ! cpu"
  have c1: "cpu < length (sc_procs s)" using assms by (simp add: sched_resched_def split: if_splits)
  obtain l where c2: "spin_lock (sc_lock s) = Inr l"
    using assms c1 by (cases "spin_lock (sc_lock s)") (simp_all add: sched_resched_def Let_def)
  obtain s1 where c3: "(if cpu_running ?data \<and> r = 0 then save_current F (s\<lparr>sc_lock := l\<rparr>) (current_thread ?data) st
      else Inr (s\<lparr>sc_lock := l\<rparr>)) = Inr s1" (is "?save = _")
    using assms c1 c2 by (cases ?save) (simp_all add: sched_resched_def Let_def cong: if_cong)
  obtain nx s2 where c4: "get_next_thread_to_run s1 = Inr (nx, s2)"
    using assms c1 c2 c3 by (cases "get_next_thread_to_run s1") (auto simp: sched_resched_def Let_def cong: if_cong)
  note c = c1 c2 c3 c4
  have "sc_procs s1 = sc_procs s"
    using c(3) by (auto simp: save_current_def Let_def and_then_Inr_iff split: if_splits dest!: thread_at_D)
  moreover have "sc_procs s2 = sc_procs s1"
    using c(4) by (auto simp: get_next_thread_to_run_def and_then_Inr_iff split: option.splits)
  ultimately have len: "cpu < length (sc_procs s2)" using c(1) by simp
  show ?thesis
  proof (cases "nx = Some (current_thread ?data) \<and> cpu_running ?data")
    case True
    then show ?thesis using assms c by (auto simp: sched_resched_def Let_def and_then_Inr_iff cong: if_cong)
  next
    case False
    then show ?thesis
    proof (cases nx)
      case None
      then show ?thesis using assms c len by (auto simp: sched_resched_def Let_def and_then_Inr_iff split: if_splits)
    next
      case (Some k)
      then show ?thesis
        using assms c len False
        by (auto simp: sched_resched_def Let_def and_then_Inr_iff runs_thread_def get_thread_put
            split: if_splits dest!: thread_at_D)
    qed
  qed
qed

lemma timer_sink_Inr:
  assumes "timer_sink E k irq st = Inr (left, k')" "ie_frg E = F"
  shows "(case left of
      None \<Rightarrow> mach k' = mach k \<and> k_irq k' = k_irq k
    | Some (Resume x) \<Rightarrow> False
    | Some (EnterUser x) \<Rightarrow> irq = 0x31 \<and> k_irq k' = irq_eoi (ie_mmio E) (k_irq k) 0x31 \<and>
        (\<exists>p t d. runs_thread (ss_sched (k_sys k')) (cur_cpu (mach k)) p t \<and> x = t_state (th_task t) \<and>
          cpu_data_get (k_irq k) (cur_cpu (mach k)) = Some d \<and>
          mach k' = vmm_set_context (tss_update_io_bitmap (vmm_drop_context (mach k)) (cd_tss d) (t_io_bitmap (th_task t)))
            (t_vmm_ctx (th_task t)))
    | Some (Idle x) \<Rightarrow> irq = 0x31 \<and> k_irq k' = irq_eoi (ie_mmio E) (k_irq k) 0x31 \<and>
        \<not> cpu_running (sc_procs (ss_sched (k_sys k')) ! cur_cpu (mach k)) \<and> mach k' = vmm_drop_context (mach k))"
proof (cases "irq = 0x31 \<and> sched_ready (ss_sched (k_sys k))")
  case False
  then show ?thesis using assms by (auto simp: timer_sink_def timer_irq_sink_def split: if_splits)
next
  case True
  obtain calls sc where c: "sched_resched F (cur_cpu (mach k)) (ss_sched (k_sys k)) 0x31 st 0 = Inr (calls, sc)"
    "run_calls (ie_mmio E) (k\<lparr>k_sys := (k_sys k)\<lparr>ss_sched := sc\<rparr>\<rparr>) calls = Inr (left, k')"
    using assms True by (auto simp: timer_sink_def timer_irq_sink_def and_then_Inr_iff)
  have eoi: "cpu_data_get (irq_eoi M q i) = cpu_data_get q" for M :: "'b mmio_ops" and q i
    by (auto simp: cpu_data_get_def irq_eoi_def Let_def fun_eq_iff)
  have cur: "cur_cpu (vmm_drop_context s) = cur_cpu s" for s by (simp add: vmm_drop_context_def set_ctx_def)
  show ?thesis
    using resched_calls [OF c(1)] c(2) True
    by (auto simp: arch_task_enter_def arch_task_idle_cpu_def arch_cpu_ack_interrupt_def arch_mm_drop_context_def
        upd_mach_def and_then_Inr_iff eoi cur split: option.splits, blast)
qed

end

section \<open>Interrupts\<close>

lemma dispatch_Inr:
  assumes "dispatch_interrupt E k st = Inr (out, k')"
  obtains d k1 n st1 k2 left k3 where
    "cpu_data_get (k_irq k) (cur_cpu (mach k)) = Some d"
    "count_spurious (upd_mach (\<lambda>s. vmm_set_context (vmm_save_context s) (arch_mm_get_ctx_kernel s)) k)
       (ucast (i_int_no st)) d = Inr k1"
    "run_handler E k1 (ucast (i_int_no st)) st = Inr (n, st1, k2)"
    "timer_sink E k2 (ucast (i_int_no st)) st1 = Inr (left, k3)"
    "case left of
       Some x \<Rightarrow> out = x \<and> k' = k3
     | None \<Rightarrow> out = Resume st1 \<and>
         (\<exists>k4. (k4 = k3 \<or> unhandled E k3 (ucast (i_int_no st)) st1 = Inr k4) \<and>
            k' = exit_interrupt (ie_mmio E) k4 (ucast (ucast (i_int_no st) :: u32)) True)"
proof -
  let ?k = "upd_mach (\<lambda>s. vmm_set_context (vmm_save_context s) (arch_mm_get_ctx_kernel s)) k"
  let ?i = "ucast (i_int_no st) :: u32"
  obtain d where d: "cpu_data_get (k_irq k) (cur_cpu (mach k)) = Some d"
    using assms by (cases "cpu_data_get (k_irq k) (cur_cpu (mach k))") (simp_all add: dispatch_interrupt_def)
  obtain k1 where k1: "count_spurious ?k ?i d = Inr k1"
    using assms d by (cases "count_spurious ?k ?i d") (simp_all add: dispatch_interrupt_def Let_def)
  obtain n st1 k2 where k2: "run_handler E k1 ?i st = Inr (n, st1, k2)"
    using assms d k1 by (cases "run_handler E k1 ?i st") (auto simp: dispatch_interrupt_def Let_def)
  obtain left k3 where k3: "timer_sink E k2 ?i st1 = Inr (left, k3)"
    using assms d k1 k2 by (cases "timer_sink E k2 ?i st1") (auto simp: dispatch_interrupt_def Let_def)
  show ?thesis
    using assms d k1 k2 k3
    by (intro that [OF d k1 k2 k3], cases left)
       (auto simp: dispatch_interrupt_def Let_def and_then_Inr_iff split: if_splits)
qed

lemma same_ctx_saved:
  assumes "same_ctx (vmm_set_context (vmm_save_context s) c) s'"
  shows "cr3 (vmm_restore_context s') = cr3 s"
    "saved_vmm_ctx (vmm_restore_context s') = (saved_vmm_ctx s)(cur_cpu s := 0)"
    "kernel_pml4 (vmm_restore_context s') = kernel_pml4 s" "cur_cpu (vmm_restore_context s') = cur_cpu s"
  using assms
  by (auto simp: same_ctx_def vmm_restore_context_def vmm_save_context_def vmm_set_context_def set_ctx_def get_ctx_def
      vmm_get_current_context_def)

text \<open>C8. An interrupt after which the interrupted code goes on is transparent: the same page tables are in use as before, no
  saved context is left behind, the interrupt is acknowledged exactly once, and no register changes but \<open>rax\<close>, and that only
  where the system call handler is registered.\<close>

theorem interrupt_transparent:
  assumes "sched_containers (ie_frg E)" "x86_env E" "dispatch_interrupt E k st = Inr (Resume st', k')"
  shows "cr3 (mach k') = cr3 (mach k) \<and> kernel_pml4 (mach k') = kernel_pml4 (mach k) \<and>
    saved_vmm_ctx (mach k') = (saved_vmm_ctx (mach k))(cur_cpu (mach k) := 0) \<and>
    (let q = irq_eoi (ie_mmio E) (k_irq k) (ucast (ucast (i_int_no st) :: u32))
     in irq_lapic (k_irq k') = irq_lapic q \<and> irq_io (k_irq k') = irq_io q) \<and>
    (st' = st \<or> irq_handlers (k_irq k) ! unat (ucast (i_int_no st) :: u32) = Some Syscall_Handler \<and>
       (\<exists>v. st' = st\<lparr>i_rax := v\<rparr>))"
proof -
  let ?i = "ucast (i_int_no st) :: u32"
  let ?m = "vmm_set_context (vmm_save_context (mach k)) (arch_mm_get_ctx_kernel (mach k))"
  obtain d k1 n st1 k2 left k3 where "cpu_data_get (k_irq k) (cur_cpu (mach k)) = Some d"
    and s: "count_spurious (upd_mach (\<lambda>s. vmm_set_context (vmm_save_context s)
      (arch_mm_get_ctx_kernel s)) k) ?i d = Inr k1" "run_handler E k1 ?i st = Inr (n, st1, k2)"
    "timer_sink E k2 ?i st1 = Inr (left, k3)"
    and out: "case left of Some x \<Rightarrow> Resume st' = x \<and> k' = k3 | None \<Rightarrow> Resume st' = Resume st1 \<and>
      (\<exists>k4. (k4 = k3 \<or> unhandled E k3 ?i st1 = Inr k4) \<and> k' = exit_interrupt (ie_mmio E) k4 (ucast ?i) True)"
    by (rule dispatch_Inr [OF assms(3)])
  note t = sched_containers.timer_sink_Inr [OF assms(1) s(3) refl]
  have "left = None" using t out by (cases left) auto
  then have t: "mach k3 = mach k2" "k_irq k3 = k_irq k2" "st' = st1" using t out by auto
  obtain k4 where k4: "k4 = k3 \<or> unhandled E k3 ?i st1 = Inr k4" "k' = exit_interrupt (ie_mmio E) k4 (ucast ?i) True"
    using out \<open>left = None\<close> by auto
  have 1: "mach k1 = ?m" "same_hw (k_irq k) (k_irq k1)" using count_spurious_keeps [OF s(1)] by auto
  have 2: "same_ctx (mach k1) (mach k2)" "same_hw (k_irq k1) (k_irq k2)"
    "st1 = st \<or> irq_handlers (k_irq k1) ! unat ?i = Some Syscall_Handler \<and> (\<exists>v. st1 = st\<lparr>i_rax := v\<rparr>)"
    using run_handler_keeps [OF s(2) assms(2)] by auto
  have 4: "same_ctx (mach k3) (mach k4)" "k_irq k4 = k_irq k3" using k4(1) unhandled_keeps [OF _ assms(2)] by auto
  have "same_ctx ?m (mach k4)" using 1(1) 2(1) 4(1) t(1) same_ctx_trans by metis
  note c = same_ctx_saved [OF this]
  have q: "same_hw (k_irq k) (k_irq k4)" using 1(2) 2(2) 4(2) t(2) same_hw_trans by metis
  have "irq_handlers (k_irq k1) = irq_handlers (k_irq k)" using 1(2) by (simp add: same_hw_def)
  moreover have "mach k' = vmm_restore_context (mach k4)" "k_irq k' = irq_eoi (ie_mmio E) (k_irq k4) (ucast ?i)"
    by (simp_all add: k4(2) exit_interrupt_def upd_mach_def Let_def)
  ultimately show ?thesis using c 2(3) t(3) irq_eoi_hw [OF q, of "ie_mmio E" "ucast ?i"] by (simp add: Let_def)
qed

text \<open>C9. Only the timer interrupt leaves the interrupted code for a task: the task is that of the thread the processor now
  runs, in that thread's page tables, with no saved context left behind and the interrupt acknowledged once.\<close>

theorem interrupt_switch:
  assumes "sched_containers (ie_frg E)" "x86_env E" "dispatch_interrupt E k st = Inr (EnterUser r, k')"
  shows "(ucast (i_int_no st) :: u32) = 0x31 \<and>
    (\<exists>p t. runs_thread (ss_sched (k_sys k')) (cur_cpu (mach k)) p t \<and> r = t_state (th_task t) \<and>
       cr3 (mach k') = t_vmm_ctx (th_task t)) \<and>
    saved_vmm_ctx (mach k') = (saved_vmm_ctx (mach k))(cur_cpu (mach k) := 0) \<and>
    irq_lapic (k_irq k') = lapic_eoi (ie_mmio E) (irq_lapic (k_irq k)) \<and> irq_io (k_irq k') = irq_io (k_irq k)"
proof -
  let ?i = "ucast (i_int_no st) :: u32"
  obtain d k1 n st1 k2 left k3 where "cpu_data_get (k_irq k) (cur_cpu (mach k)) = Some d"
    and s: "count_spurious (upd_mach (\<lambda>s. vmm_set_context (vmm_save_context s)
      (arch_mm_get_ctx_kernel s)) k) ?i d = Inr k1" "run_handler E k1 ?i st = Inr (n, st1, k2)"
    "timer_sink E k2 ?i st1 = Inr (left, k3)"
    and out: "case left of Some x \<Rightarrow> EnterUser r = x \<and> k' = k3 | None \<Rightarrow> EnterUser r = Resume st1 \<and>
      (\<exists>k4. (k4 = k3 \<or> unhandled E k3 ?i st1 = Inr k4) \<and> k' = exit_interrupt (ie_mmio E) k4 (ucast ?i) True)"
    by (rule dispatch_Inr [OF assms(3)])
  have l: "left = Some (EnterUser r)" "k' = k3" using out by (auto split: option.splits)
  have 2: "same_ctx (mach k1) (mach k2)" "same_hw (k_irq k1) (k_irq k2)" using run_handler_keeps [OF s(2) assms(2)] by auto
  have 1: "cur_cpu (mach k1) = cur_cpu (mach k)" "same_hw (k_irq k) (k_irq k1)"
    "(saved_vmm_ctx (mach k1))(cur_cpu (mach k) := 0) = (saved_vmm_ctx (mach k))(cur_cpu (mach k) := 0)"
    using count_spurious_keeps [OF s(1)]
    by (auto simp: vmm_set_context_def vmm_save_context_def set_ctx_def)
  have q: "same_hw (k_irq k) (k_irq k2)" using 1(2) 2(2) same_hw_trans by blast
  show ?thesis
    using sched_containers.timer_sink_Inr [OF assms(1) s(3) refl] l 1 2(1) irq_eoi_hw [OF q, of "ie_mmio E" "0x31"]
    by (auto simp: same_ctx_def vmm_set_context_def tss_update_io_bitmap_def vmm_drop_context_def set_ctx_def Let_def
        irq_eoi_def, blast)
qed

text \<open>C36. Every exception for which no handler is registered halts the kernel, in user mode as in kernel mode, unless it is a
  page fault of user code.\<close>

theorem exception_halts:
  assumes "cpu_data_get (k_irq k) (cur_cpu (mach k)) = Some d" "length (irq_handlers (k_irq k)) = IDT_ENTRIES"
    "i_int_no st < 0x20" "irq_handlers (k_irq k) ! unat (i_int_no st) = None" "i_int_no st \<noteq> 0x0E \<or> i_cs st = 0x08"
  shows "dispatch_interrupt E k st = Inl Panic"
proof -
  let ?i = "ucast (i_int_no st) :: u32"
  have lt: "unat (i_int_no st) < 32" using assms(3) by (simp add: word_less_nat_alt)
  then have u: "unat ?i = unat (i_int_no st)" by (simp add: unsigned_ucast_eq take_bit_nat_eq_self)
  then have i: "?i < 0x20" "?i \<noteq> 0x31" "?i = 0x0E \<longleftrightarrow> i_int_no st = 0x0E" "\<not> 0x20 \<le> ?i"
    using lt by (auto simp: word_less_nat_alt word_le_nat_alt word_unat_eq_iff)
  show ?thesis
    using assms i u lt
    by (auto simp: dispatch_interrupt_def Let_def count_spurious_def run_handler_def timer_sink_def unhandled_def
        IDT_ENTRIES_def)
qed

lemma sleep_ticks:
  assumes "\<forall>q. lapic_bsp_ticks (tick q) = lapic_bsp_ticks q + 1" "unat (lapic_bsp_ticks q) + unat ms < 2 ^ 64"
  shows "lapic_sleep_ms_bsp tick ms q = Inr ((tick ^^ unat ms) q)"
proof -
  have "while_option (\<lambda>q. lapic_bsp_ticks q < e) tick q = Some ((tick ^^ n) q)"
    if "unat (lapic_bsp_ticks q) + n = unat e" for n e q
    using that
  proof (induction n arbitrary: q)
    case 0
    then have "\<not> lapic_bsp_ticks q < e" by (simp add: word_less_nat_alt)
    then show ?case by (simp add: while_option_unfold)
  next
    case (Suc n)
    then have lt: "unat (lapic_bsp_ticks q) + 1 < 2 ^ 64" using unsigned_less [of e, where 'a = nat] by simp
    then have "unat (lapic_bsp_ticks (tick q)) = unat (lapic_bsp_ticks q) + 1"
      using assms(1) unat_add_less [of "lapic_bsp_ticks q" 1] by simp
    then have "while_option (\<lambda>q. lapic_bsp_ticks q < e) tick (tick q) = Some ((tick ^^ n) (tick q))"
      using Suc by (intro Suc.IH) simp
    moreover have "lapic_bsp_ticks q < e" using Suc.prems by (simp add: word_less_nat_alt)
    ultimately show ?case by (simp add: while_option_unfold [of _ _ q] funpow_swap1)
  qed
  moreover have "unat (lapic_bsp_ticks q) + unat ms = unat (lapic_bsp_ticks q + ms)"
    using unat_add_less [of "lapic_bsp_ticks q" ms] assms(2) by simp
  ultimately show ?thesis by (simp add: lapic_sleep_ms_bsp_def wait_until_def Let_def)
qed

text \<open>Sleeping ends: if one timer interrupt arrives between two reads of the counter, it ends after as many of them as
  milliseconds were asked for, as long as the counter does not overflow.\<close>

theorem lapic_sleep_ends:
  assumes "\<forall>q. lapic_bsp_ticks (tick q) = lapic_bsp_ticks q + 1" "unat (lapic_bsp_ticks q) + unat ms < 2 ^ 64"
  shows "lapic_sleep_ms_bsp tick ms q = Inr ((tick ^^ unat ms) q)"
  using assms by (rule sleep_ticks)

section \<open>An instance\<close>

text \<open>A device that records what is written to it, one processor, and the scheduler before and after its start.\<close>

definition log_mmio :: "(u64 \<times> u32) list mmio_ops" where
  "log_mmio = \<lparr>mm_read = (\<lambda>d a. (0, d)), mm_write = (\<lambda>d a v. d @ [(a, v)])\<rparr>"

definition demo_ienv :: "(u64 \<times> u32) list irq_env" where
  "demo_ienv = \<lparr>ie_sys = demo_env\<lparr>se_mm := x86_64_mm None\<rparr>, ie_frg = ref_sched, ie_mmio = log_mmio, ie_cr2 = 0,
     ie_sci_event = 0, ACPI_POWER_BUTTON = 1, ACPI_SLEEP_BUTTON = 2, ACPI_WAKE = 4\<rparr>"

definition demo_cpu :: cpu_data_t where
  "demo_cpu = \<lparr>cd_cpu_id = 0, cd_lapic_id = 0, cd_stack_ptr = 0x9000, cd_gdt = 0x5000, cd_tss = VIRT_PHYS_BASE + 0x6000,
     cd_spurious_pic = 0\<rparr>"

definition demo_irqs :: "(u64 \<times> u32) list irq_state" where
  "demo_irqs = \<lparr>irq_handlers = boot_irq_handlers, irq_io = [],
     irq_lapic = \<lparr>lapic_dev = [], lapic_base = 0xFEE00000, lapic_bsp_speed_hz = 0\<rparr>, max_cpus = 1, cpu_data = (\<lambda>_. demo_cpu),
     pit_ticks = 0, lapic_bsp_ticks = 5\<rparr>"

definition demo_kernel :: "sched \<Rightarrow> (u64 \<times> u32) list kernel" where
  "demo_kernel sc = \<lparr>k_sys = demo_state\<lparr>ss_mem := small_machine\<lparr>cr3 := 0x7000, kernel_pml4 := 0x3000\<rparr>, ss_sched := sc\<rparr>,
     k_irq = demo_irqs\<rparr>"

lemmas demo_irq_eval = dispatch_interrupt_def demo_kernel_def demo_irqs_def demo_ienv_def demo_state_def demo_irq_def
  cpu_data_get_def small_machine_def boot_irq_handlers_def IDT_ENTRIES_def count_spurious_def run_handler_def timer_sink_def
  timer_irq_sink_def sched_ready_def upd_mach_def vmm_set_context_def vmm_save_context_def set_ctx_def
  arch_mm_get_ctx_kernel_def Let_def

lemma demo_ienv_ok: "sched_containers (ie_frg demo_ienv)" "x86_env demo_ienv"
  using refsched.sched_containers_axioms by (auto simp: demo_ienv_def x86_env_def env_keeps_ctx_def demo_env_def)

theorem interrupt_transparent_witness:
  "\<exists>k'. dispatch_interrupt demo_ienv (demo_kernel boot_sched) demo_irq = Inr (Resume demo_irq, k') \<and>
     cr3 (mach k') = 0x7000 \<and> lapic_dev (irq_lapic (k_irq k')) = [(0xFEE000B0, 0)] \<and> irq_io (k_irq k') = []"
proof -
  obtain k' where r: "dispatch_interrupt demo_ienv (demo_kernel boot_sched) demo_irq = Inr (Resume demo_irq, k')"
    by (simp add: demo_irq_eval boot_sched_def)
  note i = interrupt_transparent [OF demo_ienv_ok r]
  have c: "cr3 (mach (demo_kernel boot_sched)) = 0x7000" by (simp add: demo_kernel_def)
  have v: "(ucast (ucast (i_int_no demo_irq) :: u32) :: u8) = 0x31" by (simp add: demo_irq_def)
  have "irq_lapic (irq_eoi (ie_mmio demo_ienv) (k_irq (demo_kernel boot_sched)) 0x31) =
      \<lparr>lapic_dev = [(0xFEE000B0, 0)], lapic_base = 0xFEE00000, lapic_bsp_speed_hz = 0\<rparr>"
    "irq_io (irq_eoi (ie_mmio demo_ienv) (k_irq (demo_kernel boot_sched)) 0x31) = []"
    by (simp_all add: irq_eoi_def demo_kernel_def demo_irqs_def demo_ienv_def lapic_eoi_def lapic_write_def log_mmio_def
        LAPIC_EOI_def)
  then show ?thesis using r i [THEN conjunct1] i [THEN conjunct2, THEN conjunct2, THEN conjunct2, THEN conjunct1]
    unfolding c v Let_def by (intro exI [of _ k']) simp
qed

theorem interrupt_switch_witness:
  "\<exists>r k'. dispatch_interrupt demo_ienv (demo_kernel demo_sched) demo_irq = Inr (EnterUser r, k') \<and>
     lapic_dev (irq_lapic (k_irq k')) = [(0xFEE000B0, 0)] \<and>
     (\<exists>p t. runs_thread (ss_sched (k_sys k')) 0 p t \<and> r = t_state (th_task t))"
proof -
  obtain r k' where r: "dispatch_interrupt demo_ienv (demo_kernel demo_sched) demo_irq = Inr (EnterUser r, k')"
    using demo_resched_0 [of demo_irq]
    by (simp add: demo_irq_eval demo_sched_def arch_task_enter_def arch_cpu_ack_interrupt_def irq_eoi_def
        arch_mm_drop_context_def vmm_drop_context_def tss_update_io_bitmap_def)
  have "cur_cpu (mach (demo_kernel demo_sched)) = 0" by (simp add: demo_kernel_def small_machine_def)
  then show ?thesis
    using r interrupt_switch [OF demo_ienv_ok r]
    by (auto simp: demo_kernel_def demo_irqs_def demo_ienv_def lapic_eoi_def lapic_write_def log_mmio_def LAPIC_EOI_def)
qed

theorem exception_halts_witness:
  "dispatch_interrupt demo_ienv (demo_kernel demo_sched) (demo_irq\<lparr>i_int_no := 6\<rparr>) = Inl Panic"
  by (rule exception_halts [where d = demo_cpu])
     (simp_all add: demo_kernel_def demo_irqs_def cpu_data_get_def small_machine_def boot_irq_handlers_def IDT_ENTRIES_def)

theorem lapic_sleep_ends_witness:
  "lapic_sleep_ms_bsp lapic_timer_int 3 demo_irqs = Inr ((lapic_timer_int ^^ 3) demo_irqs) \<and>
   lapic_bsp_ticks ((lapic_timer_int ^^ 3) demo_irqs) = 8"
proof
  show "lapic_sleep_ms_bsp lapic_timer_int 3 demo_irqs = Inr ((lapic_timer_int ^^ 3) demo_irqs)"
    using lapic_sleep_ends [of lapic_timer_int demo_irqs 3] by (simp add: lapic_timer_int_def demo_irqs_def)
  show "lapic_bsp_ticks ((lapic_timer_int ^^ 3) demo_irqs) = 8"
    by (simp add: lapic_timer_int_def demo_irqs_def numeral_3_eq_3)
qed

end
