(* ===== verification/Smp.thy ===== *)
theory Smp
  imports Irq Cmdline CLib
begin

text \<open>
  Per-CPU data and the start of further processors: \<open>arch/x86_64/cpu/cpu_data.cpp\<close>, \<open>cpu/smp.cpp\<close> and the counting functions of
  \<open>cpu/cpu.cpp\<close>. The addresses of the trampoline, of its entry and of \<open>smp_c_entry\<close> come from the linker and are arguments, and
  so are the interrupts that arrive while the code waits and whether the other processor has reported by then. The
  trampoline is mapped at its own physical address before it is copied there. Messages are left out.
\<close>

section \<open>Per-CPU data\<close>

definition DEFAULT_MAX_CPUS :: cint where
  "DEFAULT_MAX_CPUS = 256"

text \<open>The size of \<open>cpu_data_t\<close> with its padding.\<close>

definition sizeof_cpu_data :: u64 where
  "sizeof_cpu_data = 48"

text \<open>The number of processors and the address of their data; \<open>atoi\<close> reads the first value from the memory that holds it.\<close>

definition string_mem :: "string \<Rightarrow> mem" where
  "string_mem v a = (if unat a < length v then of_char (v ! unat a) else 0)"

definition cpu_data_init :: "cmdline_state \<Rightarrow> machine \<Rightarrow> (cint \<times> u64 \<times> machine) result" where
  "cpu_data_init c s =
     and_then (cmdline_get_values c ''cpu'') (\<lambda>cpu_args.
     and_then (case cpu_args of
                 None \<Rightarrow> Inr DEFAULT_MAX_CPUS
               | Some [] \<Rightarrow> Inl OutOfBounds
               | Some (v # _) \<Rightarrow> (case atoi (string_mem v) 0 of None \<Rightarrow> Inl Diverges | Some n \<Rightarrow> Inr n)) (\<lambda>n.
       let (p, s) = pmm_alloc s ((scast n * sizeof_cpu_data + 0xFFF) div 0x1000)
       in Inr (n, VIRT_PHYS_BASE + p, s)))"

section \<open>Stacks and descriptor tables\<close>

definition KERNEL_SMP :: u64 where
  "KERNEL_SMP = 0x400000"

definition STACK_SIZE :: u64 where
  "STACK_SIZE = 0x10000"

definition alloc_stack :: "machine \<Rightarrow> u64 \<times> machine" where
  "alloc_stack s =
     (let (ptr, s) = pmm_alloc s (STACK_SIZE div PAGE_SIZE) in (ptr + VIRT_PHYS_BASE + STACK_SIZE, s))"

definition prepare_data :: "'d kernel \<Rightarrow> nat \<Rightarrow> u8 \<Rightarrow> (u64 \<times> 'd kernel) result" where
  "prepare_data k cpu lapic_id =
     (case cpu_data_get (k_irq k) cpu of
        None \<Rightarrow> Inl NullDeref
      | Some d \<Rightarrow>
          let (stk, s) = alloc_stack (mach k);
              (tss, s) = tss_create_new s;
              s = tss_update_stack s tss stk 0;
              (gdt, s) = gdt_create_new s tss;
              d = d\<lparr>cd_cpu_id := of_nat cpu, cd_lapic_id := lapic_id, cd_stack_ptr := stk, cd_tss := tss, cd_gdt := gdt\<rparr>
          in Inr (stk, (upd_mach (\<lambda>_. s) k)\<lparr>k_irq := (k_irq k)\<lparr>cpu_data := (cpu_data (k_irq k))(cpu := d)\<rparr>\<rparr>))"

text \<open>The first processor also loads its tables, which are instructions.\<close>

definition setup_bsp :: "'d kernel \<Rightarrow> 'd kernel result" where
  "setup_bsp k = and_then (prepare_data k 0 0) (\<lambda>(_, k). Inr k)"

section \<open>Starting a processor\<close>

record smp_symbols =
  trampoline_start :: u64
  trampoline_end :: u64
  smp_entry :: u64
  smp_c_entry_addr :: u64

definition write_mailbox :: "mem \<Rightarrow> u64 \<Rightarrow> u64 \<Rightarrow> u64 \<Rightarrow> u64 \<Rightarrow> u64 \<Rightarrow> mem" where
  "write_mailbox m pml4 stack c_entry core_id apic_id =
     (let m = write64 m 0x500 pml4;
          m = write64 m 0x508 stack;
          m = write64 m 0x510 c_entry;
          m = write64 m 0x518 core_id
      in write64 m 0x520 apic_id)"

definition send_ipi :: "'d mmio_ops \<Rightarrow> 'd irq_state \<Rightarrow> u32 \<Rightarrow> u32 \<Rightarrow> 'd irq_state" where
  "send_ipi M q apic_id command =
     q\<lparr>irq_lapic := lapic_write M (lapic_write M (irq_lapic q) 0x310 (push_bit 24 apic_id)) 0x300 command\<rparr>"

text \<open>The wait for the other processor; \<open>started i\<close> says whether it has reported when \<open>i\<close> sleeps have passed.\<close>

fun wait_started ::
  "('d irq_state \<Rightarrow> 'd irq_state) \<Rightarrow> (nat \<Rightarrow> bool) \<Rightarrow> 'd irq_state \<Rightarrow> nat \<Rightarrow> nat \<Rightarrow> (bool \<times> 'd irq_state) result" where
  "wait_started tick started q i 0 = Inr (started i, q)"
| "wait_started tick started q i (Suc n) =
     (if started i then Inr (True, q)
      else and_then (lapic_sleep_ms_bsp tick 100 q) (\<lambda>q. wait_started tick started q (Suc i) n))"

definition smp_init_single ::
  "'d mmio_ops \<Rightarrow> smp_symbols \<Rightarrow> ('d irq_state \<Rightarrow> 'd irq_state) \<Rightarrow> (nat \<Rightarrow> bool) \<Rightarrow> 'd kernel \<Rightarrow> u32 \<Rightarrow> nat \<Rightarrow>
     (bool \<times> 'd kernel) result" where
  "smp_init_single M y tick started k apic_id core_id =
     (let len = trampoline_end y - trampoline_start y
      in and_then (arch_mm_map_kernel (mach k) (trampoline_start y) (trampoline_start y)
             ((len + PAGE_SIZE - 1) div PAGE_SIZE) 3 0) (\<lambda>s.
         let s = s\<lparr>phys_mem := memcpy (phys_mem s) (trampoline_start y) KERNEL_SMP len\<rparr>;
             pml4 = arch_mm_get_ctx_kernel s
         in kassert (pml4 AND 0xFFFFFFFF00000000 = 0) (
            and_then (prepare_data (upd_mach (\<lambda>_. s) k) core_id (ucast apic_id)) (\<lambda>(stack, k).
            let k = upd_mach (\<lambda>s. s\<lparr>phys_mem :=
                      write_mailbox (phys_mem s) pml4 stack (smp_c_entry_addr y) (of_nat core_id) (ucast apic_id)\<rparr>) k;
                q = send_ipi M (k_irq k) apic_id 0x500
            in and_then (lapic_sleep_ms_bsp tick 10 q) (\<lambda>q.
               let q = send_ipi M q apic_id (0x600 OR ucast (smp_entry y div PAGE_SIZE))
               in and_then (wait_started tick started q 0 1000) (\<lambda>(ok, q). Inr (ok, k\<lparr>k_irq := q\<rparr>)))))))"

text \<open>All processors of the table that are enabled and not the first; \<open>c\<close> counts those that work.\<close>

fun smp_init_loop ::
  "'d mmio_ops \<Rightarrow> smp_symbols \<Rightarrow> ('d irq_state \<Rightarrow> 'd irq_state) \<Rightarrow> (u8 \<Rightarrow> nat \<Rightarrow> bool) \<Rightarrow> 'd kernel \<Rightarrow> nat \<Rightarrow> madt_lapic list \<Rightarrow>
     (nat \<times> 'd kernel) result" where
  "smp_init_loop M y tick started k c [] = Inr (c, k)"
| "smp_init_loop M y tick started k c (l # ls) =
     (if la_flags l AND 1 = 0 \<or> la_apic_id l = 0 then smp_init_loop M y tick started k c ls
      else
        and_then (smp_init_single M y tick (started (la_apic_id l)) k (ucast (la_apic_id l)) (c + 1)) (\<lambda>(ok, k).
          smp_init_loop M y tick started k (if ok then c + 1 else c) ls))"

definition smp_init ::
  "'d mmio_ops \<Rightarrow> smp_symbols \<Rightarrow> ('d irq_state \<Rightarrow> 'd irq_state) \<Rightarrow> (u8 \<Rightarrow> nat \<Rightarrow> bool) \<Rightarrow> madt_state \<Rightarrow> 'd kernel \<Rightarrow>
     (nat \<times> 'd kernel) result" where
  "smp_init M y tick started st k =
     and_then (setup_bsp k) (\<lambda>k. smp_init_loop M y tick started k 0 (madt_lapics st))"

definition arch_cpu_get_count :: "nat \<Rightarrow> nat" where
  "arch_cpu_get_count smp_core_count = smp_core_count + 1"

section \<open>The started processor\<close>

text \<open>What runs on the new processor with its own local controller, up to the loop that waits for interrupts.\<close>

definition smp_c_entry ::
  "'d mmio_ops \<Rightarrow> ('d irq_state \<Rightarrow> 'd irq_state) \<Rightarrow> madt_state \<Rightarrow> 'd kernel \<Rightarrow> nat \<Rightarrow> 'd kernel result" where
  "smp_c_entry M tick st k core_id =
     (case cpu_data_get (k_irq k) core_id of
        None \<Rightarrow> Inl NullDeref
      | Some d \<Rightarrow>
          and_then (lapic_init M st (mach k) (irq_lapic (k_irq k))) (\<lambda>(s, l).
          and_then (lapic_timer_init_ap M tick ((k_irq k)\<lparr>irq_lapic := l\<rparr>)) (\<lambda>q.
            Inr ((upd_mach (\<lambda>_. s) k)\<lparr>k_irq := q\<rparr>))))"

section \<open>What the trampoline finds\<close>

lemma mailbox_apart:
  "apart 0x500 0x508" "apart 0x500 0x510" "apart 0x500 0x518" "apart 0x500 0x520" "apart 0x508 0x510" "apart 0x508 0x518"
  "apart 0x508 0x520" "apart 0x510 0x518" "apart 0x510 0x520" "apart 0x518 0x520"
  by (simp_all add: apart_def)

lemma read_mailbox:
  "read64 (write_mailbox m pml4 stack c_entry core_id apic_id) 0x500 = pml4"
  "read64 (write_mailbox m pml4 stack c_entry core_id apic_id) 0x508 = stack"
  "read64 (write_mailbox m pml4 stack c_entry core_id apic_id) 0x510 = c_entry"
  "read64 (write_mailbox m pml4 stack c_entry core_id apic_id) 0x518 = core_id"
  "read64 (write_mailbox m pml4 stack c_entry core_id apic_id) 0x520 = apic_id"
  by (simp_all add: write_mailbox_def Let_def read64_write64_apart mailbox_apart mailbox_apart [THEN apart_sym])

lemma sleep_keeps:
  assumes "lapic_sleep_ms_bsp tick ms q = Inr q'" "\<forall>q. cpu_data (tick q) = cpu_data q"
  shows "cpu_data q' = cpu_data q"
proof -
  obtain b where "while_option (\<lambda>q. lapic_bsp_ticks q < b) tick q = Some q'"
    using assms(1) by (auto simp: lapic_sleep_ms_bsp_def wait_until_def Let_def split: option.splits)
  then show ?thesis by (rule while_option_rule [rotated, where P = "\<lambda>x. cpu_data x = cpu_data q"]) (use assms(2) in auto)
qed

lemma wait_started_Inr:
  assumes "wait_started tick started q i n = Inr (ok, q')" "\<forall>q. cpu_data (tick q) = cpu_data q"
  shows "(ok \<longleftrightarrow> (\<exists>j. i \<le> j \<and> j \<le> i + n \<and> started j)) \<and> cpu_data q' = cpu_data q"
  using assms(1)
proof (induction n arbitrary: q i)
  case 0
  then show ?case by (auto dest: le_antisym)
next
  case (Suc n)
  show ?case
  proof (cases "started i")
    case True
    then show ?thesis using Suc.prems by auto
  next
    case False
    then obtain q1 where q1: "lapic_sleep_ms_bsp tick 100 q = Inr q1" "wait_started tick started q1 (Suc i) n = Inr (ok, q')"
      using Suc.prems by (auto simp: and_then_Inr_iff)
    have "(\<exists>j. Suc i \<le> j \<and> j \<le> Suc i + n \<and> started j) \<longleftrightarrow> (\<exists>j. i \<le> j \<and> j \<le> i + Suc n \<and> started j)"
      using False by (metis Suc_leD add_Suc_shift le_antisym not_less_eq_eq)
    then show ?thesis using Suc.IH [OF q1(2)] sleep_keeps [OF q1(1) assms(2)] by simp
  qed
qed

lemma prepare_data_Inr:
  assumes "prepare_data k cpu l = Inr (stk, k')"
  shows "cd_stack_ptr (cpu_data (k_irq k') cpu) = stk" "cd_cpu_id (cpu_data (k_irq k') cpu) = of_nat cpu"
  using assms by (auto simp: prepare_data_def Let_def split: option.splits prod.splits)


section \<open>An instance\<close>

lemma wait_started_now: "started i \<Longrightarrow> wait_started tick started q i n = Inr (True, q)"
  by (cases n) simp_all

definition demo_symbols :: smp_symbols where
  "demo_symbols = \<lparr>trampoline_start = 0x1000, trampoline_end = 0x1200, smp_entry = 0x1000,
     smp_c_entry_addr = 0xFFFFFFFF80203000\<rparr>"

definition demo_smp :: "(u64 \<times> u32) list kernel" where
  "demo_smp = \<lparr>k_sys = demo_state\<lparr>ss_mem := table_machine\<rparr>, k_irq = demo_irqs\<lparr>max_cpus := 4\<rparr>\<rparr>"


end
