(* ===== verification/Symtab.thy ===== *)
theory Symtab
  imports Printf CLib Machine
begin

text \<open>
  The symbols of the kernel for its stack traces: \<open>symtab/symtab.cpp\<close>, and \<open>arch/x86_64/symtab.cpp\<close>, which fills the table from the
  section headers the boot loader leaves in memory. Names are copied to the heap and are strings here; the heap is taken to have
  room for them and for the table.
\<close>

section \<open>The table\<close>

record symbol =
  sy_name :: string
  sy_base :: u64
  sy_len :: u64

definition symtab_init :: "u64 \<Rightarrow> symbol list" where
  "symtab_init n_syms = replicate (unat n_syms) \<lparr>sy_name = [], sy_base = 0, sy_len = 0\<rparr>"

text \<open>The check lets one index too many pass.\<close>

definition symtab_define_symbol :: "symbol list \<Rightarrow> nat \<Rightarrow> string \<Rightarrow> u64 \<Rightarrow> u64 \<Rightarrow> symbol list result" where
  "symtab_define_symbol syms idx name base len =
     (if length syms < idx then Inr syms
      else if idx = length syms then Inl OutOfBounds
      else Inr (syms[idx := \<lparr>sy_name = name, sy_base = base, sy_len = len\<rparr>]))"

definition symbol_covers :: "symbol \<Rightarrow> u64 \<Rightarrow> bool" where
  "symbol_covers s addr \<longleftrightarrow> sy_base s \<le> addr \<and> addr \<le> sy_base s + sy_len s"

definition symtab_format_from_addr :: "symbol list \<Rightarrow> nat \<Rightarrow> u64 \<Rightarrow> string result" where
  "symtab_format_from_addr syms dest_size addr =
     (let s = (case find (\<lambda>s. symbol_covers s addr) syms of Some s \<Rightarrow> s | None \<Rightarrow> \<lparr>sy_name = [], sy_base = 0, sy_len = 0\<rparr>)
      in if sy_len s = 0 then snprintf (\<lambda>_. []) dest_size ''??+?'' []
         else snprintf (\<lambda>_. sy_name s) dest_size ''%s+0x%lx'' [0, addr - sy_base s])"

section \<open>Section headers\<close>

definition SHT_SYMTAB :: u32 where
  "SHT_SYMTAB = 2"

definition SHT_STRTAB :: u32 where
  "SHT_STRTAB = 3"

definition STT_FUNC :: u8 where
  "STT_FUNC = 2"

definition MULTIBOOT_INFO_ELF_SHDR :: u32 where
  "MULTIBOOT_INFO_ELF_SHDR = 0x20"

text \<open>The fields of \<open>Elf64_Shdr\<close> and \<open>Elf64_Sym\<close> that are read, at their offsets; the memory is the physical one.\<close>

definition sh_type :: "mem \<Rightarrow> u64 \<Rightarrow> u32" where
  "sh_type m shdr = read32 m (shdr + 4)"

definition sh_addr :: "mem \<Rightarrow> u64 \<Rightarrow> u64" where
  "sh_addr m shdr = read64 m (shdr + 16)"

definition sh_size :: "mem \<Rightarrow> u64 \<Rightarrow> u64" where
  "sh_size m shdr = read64 m (shdr + 32)"

definition sh_entsize :: "mem \<Rightarrow> u64 \<Rightarrow> u64" where
  "sh_entsize m shdr = read64 m (shdr + 56)"

definition st_name :: "mem \<Rightarrow> u64 \<Rightarrow> u32" where
  "st_name m e = read32 m e"

definition st_info :: "mem \<Rightarrow> u64 \<Rightarrow> u8" where
  "st_info m e = m (e + 4)"

definition st_value :: "mem \<Rightarrow> u64 \<Rightarrow> u64" where
  "st_value m e = read64 m (e + 8)"

definition st_size :: "mem \<Rightarrow> u64 \<Rightarrow> u64" where
  "st_size m e = read64 m (e + 16)"

text \<open>The index of the first header of a type. The loop stops as soon as it has both.\<close>

definition find_section :: "mem \<Rightarrow> u64 \<Rightarrow> u32 \<Rightarrow> u32 \<Rightarrow> nat option" where
  "find_section m shdrs num ty = find (\<lambda>i. sh_type m (shdrs + of_nat i * 64) = ty) [0..<unat num]"

definition read_name :: "mem \<Rightarrow> u64 \<Rightarrow> string result" where
  "read_name m p =
     (case strlen m p of
        None \<Rightarrow> Inl Diverges
      | Some n \<Rightarrow> Inr (map (\<lambda>i. char_of (unat (m (p + of_nat i)))) [0..<unat n]))"

fun define_symbols :: "mem \<Rightarrow> u64 \<Rightarrow> u64 \<Rightarrow> symbol list \<Rightarrow> nat \<Rightarrow> nat \<Rightarrow> symbol list result" where
  "define_symbols m symtab strtab syms i 0 = Inr syms"
| "define_symbols m symtab strtab syms i (Suc n) =
     (let e = symtab + of_nat i * 24
      in if st_info m e AND 0xf \<noteq> STT_FUNC then define_symbols m symtab strtab syms (Suc i) n
         else
           and_then (read_name m (strtab + ucast (st_name m e))) (\<lambda>name.
           and_then (symtab_define_symbol syms i name (st_value m e) (st_size m e)) (\<lambda>syms.
             define_symbols m symtab strtab syms (Suc i) n)))"

text \<open>The table before is kept where there are no section headers or one of the two sections is missing. An entry size of zero
  raises an exception.\<close>

definition arch_symtab_parse :: "mem \<Rightarrow> u32 \<Rightarrow> u32 \<Rightarrow> u32 \<Rightarrow> symbol list \<Rightarrow> symbol list result" where
  "arch_symtab_parse m flags num addr syms =
     (if flags AND MULTIBOOT_INFO_ELF_SHDR = 0 then Inr syms
      else
        let shdrs = ucast addr
        in (case (find_section m shdrs num SHT_SYMTAB, find_section m shdrs num SHT_STRTAB) of
              (Some i, Some j) \<Rightarrow>
                let symtab = shdrs + of_nat i * 64; strtab = shdrs + of_nat j * 64
                in if sh_entsize m symtab = 0 then Inl Panic
                   else
                     let n = sh_size m symtab div sh_entsize m symtab
                     in define_symbols m (sh_addr m symtab) (sh_addr m strtab) (symtab_init n) 0 (unat n)
            | _ \<Rightarrow> Inr syms))"

section \<open>The table that results\<close>

text \<open>The entry for the symbol at an index, if its name has an end.\<close>

definition entry_at :: "mem \<Rightarrow> u64 \<Rightarrow> u64 \<Rightarrow> nat \<Rightarrow> symbol" where
  "entry_at m symtab strtab i =
     (let e = symtab + of_nat i * 24
      in if st_info m e AND 0xf \<noteq> STT_FUNC then \<lparr>sy_name = [], sy_base = 0, sy_len = 0\<rparr>
         else (case read_name m (strtab + ucast (st_name m e)) of
                 Inr name \<Rightarrow> \<lparr>sy_name = name, sy_base = st_value m e, sy_len = st_size m e\<rparr>
               | Inl _ \<Rightarrow> \<lparr>sy_name = [], sy_base = 0, sy_len = 0\<rparr>))"

lemma define_symbols_eq:
  assumes "define_symbols m symtab strtab syms i n = Inr syms'" "length syms = i + n"
    "\<forall>j<n. syms ! (i + j) = \<lparr>sy_name = [], sy_base = 0, sy_len = 0\<rparr>"
  shows "syms' = take i syms @ map (entry_at m symtab strtab) [i..<i + n]"
  using assms
proof (induction n arbitrary: syms i)
  case (Suc n)
  let ?e = "symtab + of_nat i * 24"
  have i: "i < length syms" using Suc.prems(2) by simp
  have rest: "[i..<i + Suc n] = i # [Suc i..<Suc i + n]" by (simp add: upt_conv_Cons del: upt_Suc)
  obtain syms1 where s1: "define_symbols m symtab strtab syms1 (Suc i) n = Inr syms'"
    "syms1 = syms[i := entry_at m symtab strtab i]"
  proof (cases "st_info m ?e AND 0xf = STT_FUNC")
    case True
    then obtain name where "read_name m (strtab + ucast (st_name m ?e)) = Inr name"
      using Suc.prems(1) by (cases "read_name m (strtab + ucast (st_name m ?e))") (auto simp: Let_def)
    then show ?thesis
      using that Suc.prems(1) True i by (simp add: Let_def symtab_define_symbol_def entry_at_def)
  next
    case False
    then have "syms[i := entry_at m symtab strtab i] = syms"
      using Suc.prems(3) [rule_format, of 0] i by (simp add: entry_at_def Let_def list_update_same_conv)
    then show ?thesis using that Suc.prems(1) False by (simp add: Let_def)
  qed
  have "syms' = take (Suc i) syms1 @ map (entry_at m symtab strtab) [Suc i..<Suc i + n]"
    using Suc.prems(2,3) s1(2) by (intro Suc.IH [OF s1(1)]) auto
  moreover have "take (Suc i) syms1 = take i syms @ [entry_at m symtab strtab i]"
    using i s1(2) by (simp add: take_Suc_conv_app_nth)
  ultimately show ?case unfolding rest by simp
qed simp

lemma define_symbols_inside: "i + n \<le> length syms \<Longrightarrow> define_symbols m symtab strtab syms i n \<noteq> Inl OutOfBounds"
proof (induction n arbitrary: syms i)
  case (Suc n)
  have "read_name m p \<noteq> Inl OutOfBounds" for p by (simp add: read_name_def split: option.splits)
  then show ?case
    using Suc.IH [of "Suc i"] Suc.prems
    by (cases "read_name m (strtab + ucast (st_name m (symtab + of_nat i * 24)))")
       (auto simp: Let_def symtab_define_symbol_def)
qed simp

text \<open>A table that is read from the boot loader's sections has one entry for each symbol, in order: the name, address and size
  of a function, and an empty one for every other symbol. No entry is written outside the table.\<close>

theorem symtab_parse_entries:
  assumes "flags AND MULTIBOOT_INFO_ELF_SHDR \<noteq> 0" "find_section m (ucast addr) num SHT_SYMTAB = Some i"
    "find_section m (ucast addr) num SHT_STRTAB = Some j"
  defines "symtab \<equiv> ucast addr + of_nat i * 64" and "strtab \<equiv> ucast addr + of_nat j * 64"
  assumes "arch_symtab_parse m flags num addr syms = r" "sh_entsize m symtab \<noteq> 0"
  shows "r \<noteq> Inl OutOfBounds \<and> (\<forall>syms'. r = Inr syms' \<longrightarrow>
    syms' = map (entry_at m (sh_addr m symtab) (sh_addr m strtab)) [0..<unat (sh_size m symtab div sh_entsize m symtab)])"
proof -
  let ?n = "sh_size m symtab div sh_entsize m symtab"
  have r: "r = define_symbols m (sh_addr m symtab) (sh_addr m strtab) (symtab_init ?n) 0 (unat ?n)"
    using assms by (auto simp: arch_symtab_parse_def Let_def symtab_def strtab_def)
  have l: "length (symtab_init ?n) = 0 + unat ?n" by (simp add: symtab_init_def)
  have z: "\<forall>j<unat ?n. symtab_init ?n ! (0 + j) = \<lparr>sy_name = [], sy_base = 0, sy_len = 0\<rparr>" by (simp add: symtab_init_def)
  have "r \<noteq> Inl OutOfBounds" unfolding r by (rule define_symbols_inside) (simp add: l)
  moreover have "syms' = map (entry_at m (sh_addr m symtab) (sh_addr m strtab)) [0..<unat ?n]" if "r = Inr syms'" for syms'
    using define_symbols_eq [OF _ l z] that r by simp
  ultimately show ?thesis by blast
qed

section \<open>An instance\<close>

text \<open>Two section headers at 0x1000 and one symbol, the function at 0x201000, whose name is at 0x3000.\<close>

definition demo_sections :: mem where
  "demo_sections = (\<lambda>_. 0)(0x1004 := 2, 0x1011 := 0x20, 0x1020 := 24, 0x1038 := 24, 0x1044 := 3, 0x1051 := 0x30,
     0x2004 := 2, 0x2009 := 0x10, 0x200A := 0x20, 0x2010 := 0x40, 0x3000 := 0x66)"

theorem symtab_parse_entries_witness:
  "arch_symtab_parse demo_sections 0x20 2 0x1000 [] = Inr [\<lparr>sy_name = ''f'', sy_base = 0x201000, sy_len = 0x40\<rparr>] \<and>
   symtab_format_from_addr [\<lparr>sy_name = ''f'', sy_base = 0x201000, sy_len = 0x40\<rparr>] 256 0x201004 = Inr ''f+0x4''"
proof -
  have f: "find_section demo_sections (ucast (0x1000 :: u32)) 2 SHT_SYMTAB = Some 0"
    "find_section demo_sections (ucast (0x1000 :: u32)) 2 SHT_STRTAB = Some 1"
    by code_simp+
  have e: "sh_entsize demo_sections 0x1000 = 24" "sh_size demo_sections 0x1000 = 24" "sh_addr demo_sections 0x1000 = 0x2000"
    "sh_addr demo_sections 0x1040 = 0x3000" "st_info demo_sections 0x2000 AND 0xf = STT_FUNC" "st_name demo_sections 0x2000 = 0"
    "st_value demo_sections 0x2000 = 0x201000" "st_size demo_sections 0x2000 = 0x40"
    by code_simp+
  have "strlen demo_sections 0x3000 = Some 1"
    unfolding strlen_def by (subst strlen_loop.simps, subst strlen_loop.simps) (simp add: demo_sections_def)
  then have n: "read_name demo_sections 0x3000 = Inr ''f''"
    by (simp add: read_name_def demo_sections_def char_of_def bit_0)
  have "\<exists>syms. arch_symtab_parse demo_sections 0x20 2 0x1000 [] = Inr syms"
    using f e n by (simp add: arch_symtab_parse_def MULTIBOOT_INFO_ELF_SHDR_def symtab_define_symbol_def symtab_init_def Let_def)
  then obtain syms where p: "arch_symtab_parse demo_sections 0x20 2 0x1000 [] = Inr syms" by blast
  have "syms = [\<lparr>sy_name = ''f'', sy_base = 0x201000, sy_len = 0x40\<rparr>]"
    using symtab_parse_entries [of "0x20", OF _ f p] e n by (simp add: MULTIBOOT_INFO_ELF_SHDR_def entry_at_def Let_def)
  then show ?thesis using p by (simp, code_simp)
qed

end
