(* ===== verification/Pci.thy ===== *)
theory Pci
  imports Ports Ioapic Frg
begin

text \<open>
  PCI, \<open>arch/x86_64/io/pci.cpp\<close> and \<open>pci.h\<close>: configuration space through the ports 0xCF8 and 0xCFC, the base address
  registers of a device, the enumeration of the buses and the routing of interrupt pins. Devices and buses are objects on
  the heap: their addresses are indices into lists. The answers of the library \<open>lai\<close> are an argument; messages are left out.
\<close>

section \<open>Configuration space\<close>

definition pci_address :: "u32 \<Rightarrow> u32 \<Rightarrow> u32 \<Rightarrow> u16 \<Rightarrow> u32" where
  "pci_address bus slot func offset =
     push_bit 16 bus OR push_bit 11 slot OR push_bit 8 func OR ucast offset OR 0x80000000"

definition pci_read_byte ::
  "devices \<Rightarrow> io_event list \<Rightarrow> u32 \<Rightarrow> u32 \<Rightarrow> u32 \<Rightarrow> u16 \<Rightarrow> u8 \<times> io_event list" where
  "pci_read_byte D io bus slot func offset =
     inb D (outd io 0xCF8 (pci_address bus slot func (offset AND 0xFFFF))) (0xCFC + offset mod 4)"

definition pci_write_byte ::
  "io_event list \<Rightarrow> u32 \<Rightarrow> u32 \<Rightarrow> u32 \<Rightarrow> u16 \<Rightarrow> u8 \<Rightarrow> io_event list" where
  "pci_write_byte io bus slot func offset v =
     outb (outd io 0xCF8 (pci_address bus slot func (offset AND 0xFFFF))) (0xCFC + offset mod 4) v"

definition pci_read_word ::
  "devices \<Rightarrow> io_event list \<Rightarrow> u32 \<Rightarrow> u32 \<Rightarrow> u32 \<Rightarrow> u16 \<Rightarrow> u16 \<times> io_event list" where
  "pci_read_word D io bus slot func offset =
     inw D (outd io 0xCF8 (pci_address bus slot func (offset AND 0xFFFE))) (0xCFC + offset mod 4)"

definition pci_write_word ::
  "io_event list \<Rightarrow> u32 \<Rightarrow> u32 \<Rightarrow> u32 \<Rightarrow> u16 \<Rightarrow> u16 \<Rightarrow> io_event list" where
  "pci_write_word io bus slot func offset v =
     outw (outd io 0xCF8 (pci_address bus slot func (offset AND 0xFFFE))) (0xCFC + offset mod 4) v"

definition pci_read_dword ::
  "devices \<Rightarrow> io_event list \<Rightarrow> u32 \<Rightarrow> u32 \<Rightarrow> u32 \<Rightarrow> u16 \<Rightarrow> u32 \<times> io_event list" where
  "pci_read_dword D io bus slot func offset =
     ind D (outd io 0xCF8 (pci_address bus slot func (offset AND 0xFFFC))) (0xCFC + offset mod 4)"

definition pci_write_dword ::
  "io_event list \<Rightarrow> u32 \<Rightarrow> u32 \<Rightarrow> u32 \<Rightarrow> u16 \<Rightarrow> u32 \<Rightarrow> io_event list" where
  "pci_write_dword io bus slot func offset v =
     outd (outd io 0xCF8 (pci_address bus slot func (offset AND 0xFFFC))) (0xCFC + offset mod 4) v"

section \<open>Registers, devices and buses\<close>

datatype pci_reg = vendor | device | header_type | base_class | sub_class | prog_if | sec_bus | bar0_off | irq_pin

fun pci_reg_offset :: "pci_reg \<Rightarrow> u16" where
  "pci_reg_offset vendor = 0x00"
| "pci_reg_offset device = 0x02"
| "pci_reg_offset header_type = 0x0E"
| "pci_reg_offset base_class = 0x0B"
| "pci_reg_offset sub_class = 0x0A"
| "pci_reg_offset prog_if = 0x09"
| "pci_reg_offset sec_bus = 0x19"
| "pci_reg_offset bar0_off = 0x10"
| "pci_reg_offset irq_pin = 0x3D"

datatype bar_type = Io | Mmio

record pci_bar =
  bar_ty :: bar_type
  bar_addr :: u64
  bar_length :: u64
  bar_prefetch :: bool

record pci_dev =
  pd_parent :: "nat option"
  pd_bus :: u8
  pd_slot :: u8
  pd_func :: u8
  pd_vendor :: u16
  pd_device :: u16
  pd_base_class :: u8
  pd_sub_class :: u8
  pd_prog_if :: u8
  pd_header_type :: u8
  pd_multifunction :: bool
  pd_sec_bus :: u8
  pd_irq_pin :: u8
  pd_irq :: u8
  pd_gsi :: u8

record prt_entry =
  prt_slot :: int
  prt_function :: int
  prt_pin :: u8
  prt_gsi :: u32

record 'n pci_bus =
  pb_parent :: "nat option"
  pb_device :: "nat option"
  pb_children :: "nat list"
  pb_bus :: u8
  pb_has_prt :: bool
  pb_tried_prt_fetch :: bool
  pb_acpi_node :: "'n option"
  pb_acpi_prt :: "prt_entry list"

text \<open>The constructors initialise the fields given here; the others keep what their memory held.\<close>

definition new_pci_dev :: "pci_dev \<Rightarrow> u8 \<Rightarrow> u8 \<Rightarrow> u8 \<Rightarrow> pci_dev" where
  "new_pci_dev garbage bus slot func = garbage\<lparr>pd_parent := None, pd_bus := bus, pd_slot := slot, pd_func := func\<rparr>"

definition new_pci_bus :: "'n pci_bus \<Rightarrow> u8 \<Rightarrow> nat option \<Rightarrow> 'n pci_bus" where
  "new_pci_bus garbage bus dev = garbage\<lparr>pb_parent := None, pb_device := dev, pb_children := [], pb_bus := bus\<rparr>"

definition pci_bridge_pin :: "int \<Rightarrow> int \<Rightarrow> int" where
  "pci_bridge_pin pin dev = ((pin - 1) + dev mod 4) mod 4 + 1"

text \<open>The library: the devices below \<open>\_SB_\<close>, whether a device lacks both identifiers of a root bus, its bus number
  (\<open>None\<close> where there is none, \<open>Some None\<close> where evaluating it fails), the node of a device below a bus, and its routing
  table.\<close>

record 'n lai_pci =
  lai_sb_children :: "'n list option"
  lai_not_root :: "'n \<Rightarrow> bool"
  lai_bbn :: "'n \<Rightarrow> u64 option option"
  lai_pci_find_device :: "'n \<Rightarrow> u8 \<Rightarrow> u8 \<Rightarrow> 'n option"
  lai_eval_prt :: "'n \<Rightarrow> prt_entry list option option"

text \<open>The heaps of objects, the two vectors of pointers, and the ports.\<close>

record 'n pci_state =
  ps_io :: "io_event list"
  ps_devs :: "pci_dev list"
  ps_buses :: "'n pci_bus list"
  ps_devices :: "nat list"
  ps_pci_buses :: "nat list"

definition exists :: "devices \<Rightarrow> io_event list \<Rightarrow> pci_dev \<Rightarrow> bool \<times> io_event list" where
  "exists D io d =
     (case pci_read_word D io (ucast (pd_bus d)) (ucast (pd_slot d)) (ucast (pd_func d)) (pci_reg_offset vendor) of
        (v, io) \<Rightarrow> (v \<noteq> 0xFFFF, io))"

definition pci_dev_init :: "devices \<Rightarrow> io_event list \<Rightarrow> pci_dev \<Rightarrow> pci_dev \<times> io_event list" where
  "pci_dev_init D io d =
     (let b = ucast (pd_bus d); s = ucast (pd_slot d); f = ucast (pd_func d);
          (e, io) = exists D io d
      in if \<not> e then (d, io)
         else
           let (vend, io) = pci_read_word D io b s f (pci_reg_offset vendor);
               (dev, io) = pci_read_word D io b s f (pci_reg_offset device);
               (bc, io) = pci_read_byte D io b s f (pci_reg_offset base_class);
               (sc, io) = pci_read_byte D io b s f (pci_reg_offset sub_class);
               (pi, io) = pci_read_byte D io b s f (pci_reg_offset prog_if);
               (ht, io) = pci_read_byte D io b s f (pci_reg_offset header_type);
               (pin, io) = pci_read_byte D io b s f (pci_reg_offset irq_pin);
               (sb, io) = pci_read_byte D io b s f (pci_reg_offset sec_bus)
           in (d\<lparr>pd_vendor := vend, pd_device := dev, pd_base_class := bc, pd_sub_class := sc, pd_prog_if := pi,
                 pd_header_type := ht, pd_irq_pin := pin, pd_sec_bus := sb, pd_irq := 0, pd_gsi := 0,
                 pd_multifunction := ht AND 0x80 \<noteq> 0\<rparr>, io))"

text \<open>The bits of a register that are flags.\<close>

definition bar_flags :: "bool \<Rightarrow> u64" where
  "bar_flags is_mmio = (if is_mmio then 0xF else 0x3)"

definition fetch_bar :: "devices \<Rightarrow> io_event list \<Rightarrow> pci_dev \<Rightarrow> nat \<Rightarrow> pci_bar option \<times> io_event list" where
  "fetch_bar D io d bar =
     (if pd_header_type d AND 0x7F \<noteq> 0 then (None, io)
      else
        let b = ucast (pd_bus d); s = ucast (pd_slot d); f = ucast (pd_func d);
            bar_off = pci_reg_offset bar0_off + of_nat bar * 4;
            (bar_lo, io) = pci_read_dword D io b s f bar_off
        in if bar_lo = 0 then (None, io)
           else
             let is_mmio = (bar_lo AND 1 = 0);
                 is_prefetch = (is_mmio \<and> bar_lo AND 8 \<noteq> 0);
                 is_64bit = (is_mmio \<and> bar_lo AND 6 = 4);
                 (bar_hi, io) = (if is_64bit then pci_read_dword D io b s f (bar_off + 4) else (0, io));
                 base = (push_bit 32 (ucast bar_hi) OR ucast bar_lo) AND NOT (bar_flags is_mmio);
                 io = pci_write_dword io b s f bar_off 0xFFFFFFFF;
                 (bar_size_lo, io) = pci_read_dword D io b s f bar_off;
                 io = pci_write_dword io b s f bar_off bar_lo;
                 (bar_size_hi, io) =
                   (if is_64bit
                    then
                      let io = pci_write_dword io b s f (bar_off + 4) 0xFFFFFFFF;
                          (hi, io) = pci_read_dword D io b s f (bar_off + 4)
                      in (hi, pci_write_dword io b s f (bar_off + 4) bar_hi)
                    else (0xFFFFFFFF, io));
                 sz = NOT ((push_bit 32 (ucast bar_size_hi) OR ucast bar_size_lo) AND NOT (bar_flags is_mmio))
             in (Some \<lparr>bar_ty = if is_mmio then Mmio else Io,
                   bar_addr = if is_mmio then base else base AND 0xFFFF,
                   bar_length = if is_mmio then sz else sz AND 0xFFFF,
                   bar_prefetch = is_prefetch\<rparr>, io))"

section \<open>Nodes and routing tables\<close>

definition get_bus :: "'n pci_state \<Rightarrow> nat \<Rightarrow> 'n pci_bus result" where
  "get_bus st b = (if b < length (ps_buses st) then Inr (ps_buses st ! b) else Inl UseAfterFree)"

definition put_bus :: "'n pci_state \<Rightarrow> nat \<Rightarrow> 'n pci_bus \<Rightarrow> 'n pci_state" where
  "put_bus st b v = st\<lparr>ps_buses := (ps_buses st)[b := v]\<rparr>"

definition get_dev :: "'n pci_state \<Rightarrow> nat \<Rightarrow> pci_dev result" where
  "get_dev st d = (if d < length (ps_devs st) then Inr (ps_devs st ! d) else Inl UseAfterFree)"

text \<open>The end of \<open>find_node\<close>, after the call for the parent.\<close>

definition find_node_here :: "'n lai_pci \<Rightarrow> 'n pci_state \<Rightarrow> nat \<Rightarrow> 'n pci_state result" where
  "find_node_here L st b =
     and_then (get_bus st b) (\<lambda>bus.
       (case pb_parent bus of
          None \<Rightarrow> Inl AssertFailed
        | Some p \<Rightarrow>
            and_then (get_bus st p) (\<lambda>parent.
              (case pb_acpi_node parent of
                 None \<Rightarrow> Inr st
               | Some node \<Rightarrow>
                   (case pb_device bus of
                      None \<Rightarrow> Inl AssertFailed
                    | Some d \<Rightarrow>
                        and_then (get_dev st d) (\<lambda>dev.
                          Inr (put_bus st b (bus\<lparr>pb_acpi_node := lai_pci_find_device L node (pd_slot dev) (pd_func dev)\<rparr>))))))))"

partial_function (option) find_node :: "'n lai_pci \<Rightarrow> 'n pci_state \<Rightarrow> nat \<Rightarrow> 'n pci_state result option" where
  "find_node L st b =
     (case get_bus st b of
        Inl e \<Rightarrow> Some (Inl e)
      | Inr bus \<Rightarrow>
          if pb_acpi_node bus \<noteq> None then Some (Inr st)
          else
            (case pb_parent bus of
               None \<Rightarrow> Some (find_node_here L st b)
             | Some p \<Rightarrow>
                 Option.bind (find_node L st p) (\<lambda>r. Some (and_then r (\<lambda>st. find_node_here L st b)))))"

definition fetch_prt :: "'n lai_pci \<Rightarrow> 'n pci_bus \<Rightarrow> 'n pci_bus" where
  "fetch_prt L bus =
     (if pb_tried_prt_fetch bus then bus
      else
        let bus = bus\<lparr>pb_tried_prt_fetch := True\<rparr>
        in (case pb_acpi_node bus of
              None \<Rightarrow> bus
            | Some node \<Rightarrow>
                (case lai_eval_prt L node of
                   None \<Rightarrow> bus
                 | Some None \<Rightarrow> bus\<lparr>pb_has_prt := False\<rparr>
                 | Some (Some prt) \<Rightarrow> bus\<lparr>pb_has_prt := True, pb_acpi_prt := prt\<rparr>)))"

section \<open>Enumeration\<close>

text \<open>A new device that answers, attached to its bus; \<open>i\<close> counts the functions of the 32 slots.\<close>

definition probe ::
  "devices \<Rightarrow> nat frg_vector_ops \<Rightarrow> pci_dev \<Rightarrow> 'n pci_state \<Rightarrow> nat \<Rightarrow> nat \<Rightarrow> (nat option \<times> 'n pci_state) result" where
  "probe D V g st b i =
     and_then (get_bus st b) (\<lambda>bus.
       let d = new_pci_dev g (pb_bus bus) (of_nat (i div 8)) (of_nat (i mod 8));
           (e, io) = exists D (ps_io st) d
       in if \<not> e then Inr (None, st\<lparr>ps_io := io\<rparr>)
          else
            let (d, io) = pci_dev_init D io d;
                k = length (ps_devs st);
                st = st\<lparr>ps_io := io, ps_devs := ps_devs st @ [d\<lparr>pd_parent := Some b\<rparr>]\<rparr>
            in Inr (Some k, put_bus st b (bus\<lparr>pb_children := fv_push_back V (pb_children bus) k\<rparr>)))"

definition is_bridge :: "pci_dev \<Rightarrow> bool" where
  "is_bridge d \<longleftrightarrow> pd_base_class d = 0x06 \<and> pd_sub_class d = 0x04"

text \<open>A new bus behind a bridge; it gets its node next.\<close>

definition add_bridge ::
  "'n lai_pci \<Rightarrow> 'n pci_bus \<Rightarrow> 'n pci_state \<Rightarrow> nat \<Rightarrow> nat \<Rightarrow> (nat \<times> 'n pci_state) result option" where
  "add_bridge L g st b k =
     (let bridge = length (ps_buses st);
          st = st\<lparr>ps_buses := ps_buses st @ [(new_pci_bus g (pd_sec_bus (ps_devs st ! k)) (Some k))\<lparr>pb_parent := Some b\<rparr>]\<rparr>
      in Option.bind (find_node L st bridge) (\<lambda>r. Some (and_then r (\<lambda>st. Inr (bridge, st)))))"

partial_function (option) enumerate_from ::
  "devices \<Rightarrow> nat frg_vector_ops \<Rightarrow> 'n lai_pci \<Rightarrow> pci_dev \<Rightarrow> 'n pci_bus \<Rightarrow> 'n pci_state \<Rightarrow> nat \<Rightarrow> nat \<Rightarrow>
     'n pci_state result option" where
  "enumerate_from D V L gd gb st b i =
     (if 256 \<le> i then Some (Inr st)
      else
        (case probe D V gd st b i of
           Inl e \<Rightarrow> Some (Inl e)
         | Inr (None, st) \<Rightarrow> enumerate_from D V L gd gb st b (Suc i)
         | Inr (Some k, st) \<Rightarrow>
             if is_bridge (ps_devs st ! k)
             then
               Option.bind (add_bridge L gb st b k) (\<lambda>r.
                 (case r of
                    Inl e \<Rightarrow> Some (Inl e)
                  | Inr (bridge, st) \<Rightarrow>
                      Option.bind (enumerate_from D V L gd gb st bridge 0) (\<lambda>r.
                        (case r of
                           Inl e \<Rightarrow> Some (Inl e)
                         | Inr st \<Rightarrow>
                             enumerate_from D V L gd gb (st\<lparr>ps_pci_buses := fv_push_back V (ps_pci_buses st) bridge,
                               ps_devices := fv_push_back V (ps_devices st) k\<rparr>) b (Suc i)))))
             else enumerate_from D V L gd gb (st\<lparr>ps_devices := fv_push_back V (ps_devices st) k\<rparr>) b (Suc i)))"

definition pci_enumerate ::
  "devices \<Rightarrow> nat frg_vector_ops \<Rightarrow> 'n lai_pci \<Rightarrow> pci_dev \<Rightarrow> 'n pci_bus \<Rightarrow> 'n pci_state \<Rightarrow> nat \<Rightarrow>
     'n pci_state result option" where
  "pci_enumerate D V L gd gb st b = enumerate_from D V L gd gb st b 0"

section \<open>Root buses\<close>

fun root_buses :: "nat frg_vector_ops \<Rightarrow> 'n lai_pci \<Rightarrow> 'n pci_bus \<Rightarrow> 'n pci_state \<Rightarrow> 'n list \<Rightarrow> 'n pci_state" where
  "root_buses V L g st [] = st"
| "root_buses V L g st (node # nodes) =
     root_buses V L g
       (if lai_not_root L node \<or> lai_bbn L node = Some None then st
        else
          let bbn = (case lai_bbn L node of Some (Some v) \<Rightarrow> v | _ \<Rightarrow> 0);
              k = length (ps_buses st)
          in st\<lparr>ps_buses := ps_buses st @ [(new_pci_bus g (ucast bbn) None)\<lparr>pb_acpi_node := Some node\<rparr>],
                ps_pci_buses := fv_push_back V (ps_pci_buses st) k\<rparr>) nodes"

definition pci_find_root_buses ::
  "nat frg_vector_ops \<Rightarrow> 'n lai_pci \<Rightarrow> 'n pci_bus \<Rightarrow> 'n pci_state \<Rightarrow> 'n pci_state result" where
  "pci_find_root_buses V L g st =
     (case lai_sb_children L of None \<Rightarrow> Inl AssertFailed | Some nodes \<Rightarrow> Inr (root_buses V L g st nodes))"

section \<open>Interrupt pins\<close>

text \<open>The way up from a device to the first bus with a routing table: the device of that bus and the pin there.\<close>

partial_function (option) route_up ::
  "'n lai_pci \<Rightarrow> 'n pci_state \<Rightarrow> nat option \<Rightarrow> nat \<Rightarrow> u8 \<Rightarrow> ((prt_entry list \<times> nat \<times> u8) \<times> 'n pci_state) result option" where
  "route_up L st bus bus_dev pin =
     (case bus of
        None \<Rightarrow> Some (Inl NullDeref)
      | Some b \<Rightarrow>
          (case get_bus st b of
             Inl e \<Rightarrow> Some (Inl e)
           | Inr v \<Rightarrow>
               let v = fetch_prt L v; st = put_bus st b v
               in if pb_has_prt v then Some (Inr ((pb_acpi_prt v, bus_dev, pin), st))
                  else
                    (case pb_device v of
                       None \<Rightarrow> Some (Inl NullDeref)
                     | Some d \<Rightarrow>
                         (case get_dev st d of
                            Inl e \<Rightarrow> Some (Inl e)
                          | Inr dev \<Rightarrow>
                              route_up L st (pb_parent v) (if pb_parent v \<noteq> None then d else bus_dev)
                                (of_int (pci_bridge_pin (int (unat pin)) (int (unat (pd_slot dev)))))))))"

definition prt_matches :: "pci_dev \<Rightarrow> u8 \<Rightarrow> prt_entry \<Rightarrow> bool" where
  "prt_matches dev pin e \<longleftrightarrow>
     prt_slot e = int (unat (pd_slot dev)) \<and> (prt_function e = int (unat (pd_func dev)) \<or> prt_function e = -1) \<and>
     int (unat (prt_pin e)) = int (unat pin) - 1"

definition route_irq ::
  "'d mmio_ops \<Rightarrow> madt_state \<Rightarrow> 'n lai_pci \<Rightarrow> 'n pci_state \<times> 'd \<Rightarrow> nat \<Rightarrow> ('n pci_state \<times> 'd) result option" where
  "route_irq M apics L = (\<lambda>(st, io) k.
     (case get_dev st k of
        Inl e \<Rightarrow> Some (Inl e)
      | Inr d \<Rightarrow>
          if pd_irq_pin d = 0 then Some (Inr (st, io))
          else
            Option.bind (route_up L st (pd_parent d) k (pd_irq_pin d)) (\<lambda>r.
              Some (and_then r (\<lambda>((prt, bus_dev, pin), st).
                and_then (get_dev st bus_dev) (\<lambda>dev.
                  (case find (prt_matches dev pin) prt of
                     None \<Rightarrow> Inr (st, io)
                   | Some e \<Rightarrow>
                       and_then (ioapic_get_vector_by_gsi M apics io (prt_gsi e)) (\<lambda>(v, io).
                         Inr (st\<lparr>ps_devs := (ps_devs st)[k := (ps_devs st ! k)\<lparr>pd_irq := v, pd_gsi := ucast (prt_gsi e)\<rparr>]\<rparr>,
                              io)))))))))"

section \<open>Initialisation\<close>

fun each :: "('s \<Rightarrow> nat \<Rightarrow> 's result option) \<Rightarrow> 's \<Rightarrow> nat list \<Rightarrow> 's result option" where
  "each f s [] = Some (Inr s)"
| "each f s (k # ks) = Option.bind (f s k) (\<lambda>r. (case r of Inl e \<Rightarrow> Some (Inl e) | Inr s \<Rightarrow> each f s ks))"

text \<open>The registers of all devices are read to print them.\<close>

definition print_bars :: "devices \<Rightarrow> 'n pci_state \<Rightarrow> nat \<Rightarrow> 'n pci_state" where
  "print_bars D st k = st\<lparr>ps_io := fold (\<lambda>i io. snd (fetch_bar D io (ps_devs st ! k) i)) [0..<6] (ps_io st)\<rparr>"

definition pci_init ::
  "devices \<Rightarrow> nat frg_vector_ops \<Rightarrow> 'n lai_pci \<Rightarrow> pci_dev \<Rightarrow> 'n pci_bus \<Rightarrow> 'd mmio_ops \<Rightarrow> madt_state \<Rightarrow>
     'n pci_state \<Rightarrow> 'd \<Rightarrow> ('n pci_state \<times> 'd) result option" where
  "pci_init D V L gd gb M apics st io =
     (case pci_find_root_buses V L gb st of
        Inl e \<Rightarrow> Some (Inl e)
      | Inr st \<Rightarrow>
          Option.bind (each (pci_enumerate D V L gd gb) st (ps_pci_buses st)) (\<lambda>r.
            (case r of
               Inl e \<Rightarrow> Some (Inl e)
             | Inr st \<Rightarrow>
                 Option.bind (each (route_irq M apics L) (st, io) (ps_devices st)) (\<lambda>r.
                   Some (and_then r (\<lambda>(st, io). Inr (fold (\<lambda>k st. print_bars D st k) (ps_devices st) st, io)))))))"

section \<open>The contract of the host bridge\<close>

text \<open>The double words of configuration space by their address as written to the first port, and the bits of each that can be
  written. An access is a selection followed by a read or a write of the second port.\<close>

definition masked_write :: "u32 \<Rightarrow> u32 \<Rightarrow> u32 \<Rightarrow> u32" where
  "masked_write w old v = (v AND w) OR (old AND NOT w)"

lemma masked_write_back: "masked_write w (masked_write w v x) v = v"
  unfolding masked_write_def by (rule bit_word_eqI) (auto simp: bit_simps)

abbreviation dword_addr :: "u32 \<Rightarrow> u32 \<Rightarrow> u32 \<Rightarrow> u16 \<Rightarrow> u32" where
  "dword_addr b s f off \<equiv> pci_address b s f (off AND 0xFFFC)"

abbreviation bar_offset :: "nat \<Rightarrow> u16" where
  "bar_offset bar \<equiv> pci_reg_offset bar0_off + of_nat bar * 4"

lemma bar_aligned:
  "bar < 6 \<Longrightarrow> (0x10 + of_nat bar * 4 :: u16) mod 4 = 0 \<and> (0x14 + of_nat bar * 4 :: u16) mod 4 = 0"
proof -
  assume "bar < 6"
  then consider "bar = 0" | "bar = 1" | "bar = 2" | "bar = 3" | "bar = 4" | "bar = 5" by linarith
  then show ?thesis by cases simp_all
qed

text \<open>Where the lowest \<open>n\<close> bits cannot be written and are zero but for the flags, the probe gives these bits.\<close>

lemma bar_size_bits:
  assumes "take_bit n lo < 16" "4 \<le> n" "n \<le> 32"
  shows "NOT ((push_bit 32 (ucast (0xFFFFFFFF :: u32)) OR ucast (masked_write (NOT (mask n)) lo 0xFFFFFFFF)) AND NOT 0xF) =
    (mask n :: u64)"
proof -
  have c: "(0xFFFFFFFF :: u32) = mask 32" "(0xF :: u64) = mask 4" by (simp_all add: mask_eq_exp_minus_1)
  have "take_bit n lo = take_bit 4 (take_bit n lo)"
    using assms(1) by (simp add: take_bit_eq_mod word_less_nat_alt word_arith_nat_mod)
  then have lo: "bit lo k \<Longrightarrow> k < n \<Longrightarrow> k < 4" for k by (metis bit_take_bit_iff)
  show ?thesis
    unfolding c masked_write_def by (rule bit_word_eqI) (use assms(2,3) lo in \<open>auto simp: bit_simps\<close>)
qed

locale pci_host =
  fixes D :: devices and space :: "io_event list \<Rightarrow> u32 \<Rightarrow> u32" and wmask :: "u32 \<Rightarrow> u32"
  assumes space_read: "dev_ind D (io @ [OutD 0xCF8 a]) 0xCFC = space io a"
    and space_keep: "space (io @ [OutD 0xCF8 a, InD 0xCFC]) = space io"
    and space_write: "space (io @ [OutD 0xCF8 a, OutD 0xCFC v]) = (space io)(a := masked_write (wmask a) (space io a) v)"
begin

lemma space_keep2: "space (io @ [OutD 0xCF8 a, InD 0xCFC, OutD 0xCF8 b, InD 0xCFC]) = space io"
  using space_keep [of "io @ [OutD 0xCF8 a, InD 0xCFC]" b] space_keep [of io a] by simp

lemma read_dword:
  "off mod 4 = 0 \<Longrightarrow> pci_read_dword D io b s f off =
     (space io (dword_addr b s f off), io @ [OutD 0xCF8 (dword_addr b s f off), InD 0xCFC])"
  using space_read by (simp add: pci_read_dword_def ind_def outd_def)

lemma write_dword:
  "off mod 4 = 0 \<Longrightarrow> space (pci_write_dword io b s f off v) =
     (space io)(dword_addr b s f off := masked_write (wmask (dword_addr b s f off)) (space io (dword_addr b s f off)) v)"
  using space_write by (simp add: pci_write_dword_def outd_def)

lemma probe_register:
  assumes "off mod 4 = 0" "space io (dword_addr b s f off) = old"
  shows "space (pci_write_dword (pci_write_dword io b s f off v @ [OutD 0xCF8 (dword_addr b s f off), InD 0xCFC]) b s f off old)
      = space io"
  using assms by (auto simp: write_dword space_keep masked_write_back)

lemma fetch_bar_restores:
  assumes "bar < 6" "fetch_bar D io d bar = (r, io')"
  shows "space io' = space io"
proof -
  note o = bar_aligned [OF assms(1)]
  show ?thesis
    using assms(2)
    by (auto simp: fetch_bar_def Let_def read_dword o probe_register space_keep space_keep2 split: if_splits)
qed

lemma fetch_bar_memory:
  assumes "bar < 6" "pd_header_type d AND 0x7F = 0"
    "space io (dword_addr (ucast (pd_bus d)) (ucast (pd_slot d)) (ucast (pd_func d)) (bar_offset bar)) = lo"
    "wmask (dword_addr (ucast (pd_bus d)) (ucast (pd_slot d)) (ucast (pd_func d)) (bar_offset bar)) = NOT (mask n)"
    "lo \<noteq> 0" "lo AND 1 = 0" "lo AND 6 \<noteq> 4" "take_bit n lo < 16" "4 \<le> n" "n \<le> 32"
  shows "fst (fetch_bar D io d bar) =
    Some \<lparr>bar_ty = Mmio, bar_addr = ucast lo AND NOT 0xF, bar_length = mask n, bar_prefetch = (lo AND 8 \<noteq> 0)\<rparr>"
proof -
  note o = bar_aligned [OF assms(1)]
  show ?thesis
    using assms bar_size_bits [OF assms(8-10)]
    by (simp add: fetch_bar_def Let_def read_dword write_dword o space_keep bar_flags_def)
qed

end

section \<open>Base address registers\<close>

text \<open>C38. Reading a base address register writes to it, and yet leaves configuration space as it was. For a 32-bit memory
  register of which the lowest \<open>n\<close> bits are fixed, the address is right and the length reported is one less than the size.\<close>

theorem pci_bar_probe:
  assumes "pci_host D space wmask" "bar < 6"
  defines "a \<equiv> \<lambda>d. dword_addr (ucast (pd_bus d)) (ucast (pd_slot d)) (ucast (pd_func d)) (bar_offset bar)"
  shows "space (snd (fetch_bar D io d bar)) = space io \<and>
    (pd_header_type d AND 0x7F = 0 \<and> space io (a d) \<noteq> 0 \<and> space io (a d) AND 1 = 0 \<and> space io (a d) AND 6 \<noteq> 4 \<and>
       wmask (a d) = NOT (mask n) \<and> take_bit n (space io (a d)) < 16 \<and> 4 \<le> n \<and> n \<le> 32 \<longrightarrow>
     fst (fetch_bar D io d bar) = Some \<lparr>bar_ty = Mmio, bar_addr = ucast (space io (a d)) AND NOT 0xF, bar_length = 2 ^ n - 1,
       bar_prefetch = (space io (a d) AND 8 \<noteq> 0)\<rparr>)"
  using pci_host.fetch_bar_restores [OF assms(1,2)] pci_host.fetch_bar_memory [OF assms(1,2) _ refl]
  by (simp add: a_def flip: mask_eq_exp_minus_1) (metis surjective_pairing)

section \<open>Finding devices\<close>

lemma pci_dev_init_keeps:
  "pd_slot (fst (pci_dev_init D io d)) = pd_slot d" "pd_func (fst (pci_dev_init D io d)) = pd_func d"
  by (simp_all add: pci_dev_init_def Let_def split: prod.splits)

text \<open>The function that \<open>i\<close> counts, as a new object.\<close>

abbreviation function_at :: "pci_dev \<Rightarrow> u8 \<Rightarrow> nat \<Rightarrow> pci_dev" where
  "function_at g bus i \<equiv> new_pci_dev g bus (of_nat (i div 8)) (of_nat (i mod 8))"

lemma enumerate_from_flat:
  assumes "frg_vector V v0" "b < length (ps_buses st)" "pb_bus (ps_buses st ! b) = bus" "i \<le> 256"
    "\<forall>io i. i < 256 \<longrightarrow> fst (exists D io (function_at gd bus i)) = present i"
    "\<forall>io i. i < 256 \<longrightarrow> \<not> is_bridge (fst (pci_dev_init D io (function_at gd bus i)))"
  shows "\<exists>st' ds. enumerate_from D V L gd gb st b i = Some (Inr st') \<and> ps_devs st' = ps_devs st @ ds \<and>
    ps_devices st' = ps_devices st @ [length (ps_devs st)..<length (ps_devs st) + length ds] \<and>
    map (\<lambda>d. (pd_parent d, pd_slot d, pd_func d)) ds =
      map (\<lambda>i. (Some b, of_nat (i div 8), of_nat (i mod 8))) (filter present [i..<256])"
  using assms(2-4)
proof (induction "256 - i" arbitrary: i st)
  case 0
  then show ?case by (simp add: enumerate_from.simps)
next
  case (Suc n)
  then have i: "i < 256" "[i..<256] = i # [Suc i..<256]" by (auto simp: upt_conv_Cons)
  let ?d = "function_at gd bus i"
  obtain e io where e: "exists D (ps_io st) ?d = (e, io)" by fastforce
  have p: "present i = e" using assms(5) e i(1) by (metis fst_conv)
  have push: "fv_push_back V xs x = xs @ [x]" for xs x by (rule frg_vector.vec_push_back [OF assms(1)])
  show ?case
  proof (cases e)
    case False
    then have "probe D V gd st b i = Inr (None, st\<lparr>ps_io := io\<rparr>)"
      using e Suc.prems by (simp add: probe_def get_bus_def)
    then have "enumerate_from D V L gd gb st b i = enumerate_from D V L gd gb (st\<lparr>ps_io := io\<rparr>) b (Suc i)"
      using i by (subst enumerate_from.simps) simp
    then show ?thesis using Suc.hyps(1) [of "Suc i" "st\<lparr>ps_io := io\<rparr>"] Suc.hyps(2) Suc.prems i p False by simp
  next
    case True
    obtain d io2 where d: "pci_dev_init D io ?d = (d, io2)" by fastforce
    have nb: "\<not> is_bridge d" using assms(6) d i(1) by (metis fst_conv)
    have sf: "pd_slot d = of_nat (i div 8)" "pd_func d = of_nat (i mod 8)"
      using pci_dev_init_keeps [of D io ?d] d by (simp_all add: new_pci_dev_def)
    let ?k = "length (ps_devs st)"
    define st1 where "st1 = put_bus (st\<lparr>ps_io := io2, ps_devs := ps_devs st @ [d\<lparr>pd_parent := Some b\<rparr>]\<rparr>) b
      ((ps_buses st ! b)\<lparr>pb_children := fv_push_back V (pb_children (ps_buses st ! b)) ?k\<rparr>)"
    have "probe D V gd st b i = Inr (Some ?k, st1)"
      using e d Suc.prems True by (simp add: probe_def get_bus_def st1_def Let_def)
    moreover have "\<not> is_bridge (ps_devs st1 ! ?k)" using nb by (simp add: st1_def put_bus_def is_bridge_def)
    moreover define st2 where "st2 = st1\<lparr>ps_devices := ps_devices st1 @ [?k]\<rparr>"
    ultimately have e1: "enumerate_from D V L gd gb st b i = enumerate_from D V L gd gb st2 b (Suc i)"
      using i by (subst enumerate_from.simps) (simp add: push)
    have st2: "b < length (ps_buses st2)" "pb_bus (ps_buses st2 ! b) = bus" "length (ps_devs st2) = Suc ?k"
      "ps_devs st2 = ps_devs st @ [d\<lparr>pd_parent := Some b\<rparr>]" "ps_devices st2 = ps_devices st @ [?k]"
      using Suc.prems by (simp_all add: st2_def st1_def put_bus_def)
    have n: "n = 256 - Suc i" "Suc i \<le> 256" using Suc.hyps(2) i by auto
    obtain st' ds where r: "enumerate_from D V L gd gb st2 b (Suc i) = Some (Inr st')" "ps_devs st' = ps_devs st2 @ ds"
      "ps_devices st' = ps_devices st2 @ [length (ps_devs st2)..<length (ps_devs st2) + length ds]"
      "map (\<lambda>d. (pd_parent d, pd_slot d, pd_func d)) ds =
        map (\<lambda>i. (Some b, of_nat (i div 8), of_nat (i mod 8))) (filter present [Suc i..<256])"
      using Suc.hyps(1) [OF n(1) st2(1,2) n(2)] by blast
    have "[?k] @ [Suc ?k..<Suc ?k + length ds] = [?k..<?k + Suc (length ds)]" by (simp add: upt_conv_Cons del: upt_Suc)
    then show ?thesis
      using e1 r st2 i p True sf
      by (intro exI [of _ st'] exI [of _ "d\<lparr>pd_parent := Some b\<rparr> # ds"]) (simp del: upt_Suc)
  qed
qed

text \<open>C39. Enumerating a bus without bridges ends and finds exactly the functions that answer, in order, attached to that
  bus.\<close>

theorem pci_enumerate_finds:
  assumes "frg_vector V v0" "b < length (ps_buses st)"
    "\<forall>io i. i < 256 \<longrightarrow> fst (exists D io (function_at gd (pb_bus (ps_buses st ! b)) i)) = present i"
    "\<forall>io i. i < 256 \<longrightarrow> \<not> is_bridge (fst (pci_dev_init D io (function_at gd (pb_bus (ps_buses st ! b)) i)))"
  shows "\<exists>st' ds. pci_enumerate D V L gd gb st b = Some (Inr st') \<and> ps_devs st' = ps_devs st @ ds \<and>
    ps_devices st' = ps_devices st @ [length (ps_devs st)..<length (ps_devs st) + length ds] \<and>
    map (\<lambda>d. (pd_parent d, pd_slot d, pd_func d)) ds =
      map (\<lambda>i. (Some b, of_nat (i div 8), of_nat (i mod 8))) (filter present [0..<256])"
  unfolding pci_enumerate_def using enumerate_from_flat [OF assms(1,2) refl _ assms(3,4), of 0] by simp

section \<open>An instance\<close>

text \<open>A host bridge that keeps the double words written to it.\<close>

fun host_step :: "(u32 \<Rightarrow> u32) \<Rightarrow> io_event \<Rightarrow> u32 \<times> (u32 \<Rightarrow> u32) \<Rightarrow> u32 \<times> (u32 \<Rightarrow> u32)" where
  "host_step w (OutD port v) (a, sp) =
     (if port = 0xCF8 then (v, sp) else if port = 0xCFC then (a, sp(a := masked_write (w a) (sp a) v)) else (a, sp))"
| "host_step w e s = s"

lemma host_step_ports:
  "host_step w (OutD 0xCF8 v) s = (v, snd s)"
  "host_step w (OutD 0xCFC v) s = (fst s, (snd s)(fst s := masked_write (w (fst s)) (snd s (fst s)) v))"
  "host_step w (InD p) s = s"
  by (cases s, simp)+

definition host_space :: "(u32 \<Rightarrow> u32) \<Rightarrow> (u32 \<Rightarrow> u32) \<Rightarrow> io_event list \<Rightarrow> u32 \<Rightarrow> u32" where
  "host_space w init io = snd (fold (host_step w) io (0, init))"

definition ref_pci :: "(u32 \<Rightarrow> u32) \<Rightarrow> (u32 \<Rightarrow> u32) \<Rightarrow> devices" where
  "ref_pci w init =
     \<lparr>dev_inb = (\<lambda>io p. case fold (host_step w) io (0, init) of (a, sp) \<Rightarrow>
        ucast (drop_bit (8 * unat (p - 0xCFC)) (sp (a AND NOT 3)))),
      dev_inw = (\<lambda>io p. case fold (host_step w) io (0, init) of (a, sp) \<Rightarrow>
        ucast (drop_bit (8 * unat (p - 0xCFC)) (sp (a AND NOT 3)))),
      dev_ind = (\<lambda>io p. case fold (host_step w) io (0, init) of (a, sp) \<Rightarrow> sp a)\<rparr>"

interpretation refpci: pci_host "ref_pci w init" "host_space w init" w for w init
  by unfold_locales (simp_all add: ref_pci_def host_space_def host_step_ports)

text \<open>A bus of which only the function 0 of slot 3 answers, with a memory register of 4096 bytes.\<close>

definition demo_dev :: pci_dev where
  "demo_dev = \<lparr>pd_parent = None, pd_bus = 0, pd_slot = 3, pd_func = 0, pd_vendor = 0x1234, pd_device = 0x1111,
     pd_base_class = 3, pd_sub_class = 0, pd_prog_if = 0, pd_header_type = 0, pd_multifunction = False, pd_sec_bus = 0,
     pd_irq_pin = 0, pd_irq = 0, pd_gsi = 0\<rparr>"

definition demo_bar_host :: "u32 \<Rightarrow> u32" where
  "demo_bar_host a = (if a = 0x80001810 then 0xFEB00000 else 0)"

theorem pci_bar_probe_witness:
  "fst (fetch_bar (ref_pci (\<lambda>_. NOT (mask 12)) demo_bar_host) [] demo_dev 0) =
     Some \<lparr>bar_ty = Mmio, bar_addr = 0xFEB00000, bar_length = 4095, bar_prefetch = False\<rparr>"
proof -
  let ?w = "\<lambda>_ :: u32. NOT (mask 12) :: u32"
  have a: "dword_addr (ucast (pd_bus demo_dev)) (ucast (pd_slot demo_dev)) (ucast (pd_func demo_dev)) (bar_offset 0) = 0x80001810"
    by (simp add: demo_dev_def pci_address_def)
  have v: "host_space ?w demo_bar_host [] 0x80001810 = 0xFEB00000" by (simp add: host_space_def demo_bar_host_def)
  have "take_bit 12 (0xFEB00000 :: u32) = 0" "pd_header_type demo_dev = 0" by (simp_all add: demo_dev_def)
  then show ?thesis
    using pci_bar_probe [OF refpci.pci_host_axioms, of 0 ?w demo_bar_host "[]" demo_dev 12] unfolding a v by simp
qed

definition demo_slot3 :: devices where
  "demo_slot3 = \<lparr>dev_inb = (\<lambda>io p. 0),
     dev_inw = (\<lambda>io p. if io \<noteq> [] \<and> last io = OutD 0xCF8 0x80001800 then 0x1234 else 0xFFFF), dev_ind = (\<lambda>io p. 0)\<rparr>"

definition demo_pci :: "unit pci_state" where
  "demo_pci = \<lparr>ps_io = [], ps_devs = [], ps_buses = [\<lparr>pb_parent = None, pb_device = None, pb_children = [], pb_bus = 0,
     pb_has_prt = False, pb_tried_prt_fetch = False, pb_acpi_node = Some (), pb_acpi_prt = []\<rparr>], ps_devices = [],
     ps_pci_buses = [0]\<rparr>"

lemma demo_address:
  "i < 256 \<Longrightarrow> pci_address 0 (ucast (of_nat (i div 8) :: u8)) (ucast (of_nat (i mod 8) :: u8)) 0 = 0x80001800 \<longleftrightarrow> i = 24"
proof -
  have "list_all (\<lambda>i. (pci_address 0 (ucast (of_nat (i div 8) :: u8)) (ucast (of_nat (i mod 8) :: u8)) 0 = 0x80001800) = (i = 24))
      [0..<256]"
    by code_simp
  then show "i < 256 \<Longrightarrow> ?thesis" by (simp add: list_all_iff)
qed

lemma distinct_filter_eq: "distinct xs \<Longrightarrow> x \<in> set xs \<Longrightarrow> filter (\<lambda>y. y = x) xs = [x]"
  by (induction xs) (auto simp: filter_empty_conv)

definition demo_lai :: "unit lai_pci" where
  "demo_lai = \<lparr>lai_sb_children = Some [()], lai_not_root = (\<lambda>_. False), lai_bbn = (\<lambda>_. None),
     lai_pci_find_device = (\<lambda>_ _ _. None), lai_eval_prt = (\<lambda>_. None)\<rparr>"

theorem pci_enumerate_finds_witness:
  "\<exists>st' d. pci_enumerate demo_slot3 (ref_vector 0) demo_lai demo_dev (ps_buses demo_pci ! 0) demo_pci 0 = Some (Inr st') \<and>
     ps_devs st' = [d] \<and> ps_devices st' = [0] \<and> pd_parent d = Some 0 \<and> pd_slot d = 3 \<and> pd_func d = 0"
proof -
  have b: "0 < length (ps_buses demo_pci)" "pb_bus (ps_buses demo_pci ! 0) = 0" by (simp_all add: demo_pci_def)
  have p: "\<forall>io i. i < 256 \<longrightarrow> fst (exists demo_slot3 io (function_at demo_dev 0 i)) = (i = 24)"
    using demo_address by (simp add: exists_def pci_read_word_def inw_def outd_def new_pci_dev_def demo_slot3_def)
  have n: "\<forall>io i. i < 256 \<longrightarrow> \<not> is_bridge (fst (pci_dev_init demo_slot3 io (function_at demo_dev 0 i)))"
    by (simp add: is_bridge_def pci_dev_init_def pci_read_byte_def inb_def demo_slot3_def new_pci_dev_def demo_dev_def Let_def
        split: prod.splits)
  have "filter (\<lambda>i. i = 24) [0..<256] = [24 :: nat]"
    using distinct_filter_eq [of "[0..<256]" 24] by simp
  moreover have "\<exists>st' ds. pci_enumerate demo_slot3 (ref_vector 0) demo_lai demo_dev (ps_buses demo_pci ! 0) demo_pci 0 =
        Some (Inr st') \<and> ps_devs st' = ps_devs demo_pci @ ds \<and>
      ps_devices st' = ps_devices demo_pci @ [length (ps_devs demo_pci)..<length (ps_devs demo_pci) + length ds] \<and>
      map (\<lambda>d. (pd_parent d, pd_slot d, pd_func d)) ds =
        map (\<lambda>i. (Some 0, of_nat (i div 8), of_nat (i mod 8))) (filter (\<lambda>i. i = 24) [0..<256])"
    by (rule pci_enumerate_finds [OF refvec.frg_vector_axioms b(1)]) (use p n b(2) in simp_all)
  ultimately show ?thesis by (auto simp: demo_pci_def)
qed

end
