(* ===== verification/LaiHost.thy ===== *)
theory LaiHost
  imports Heap Pci Acpi Printf
begin

text \<open>
  What the kernel offers the ACPI library \<open>lai\<close>: \<open>arch/x86_64/acpi/lai_host.cpp\<close>. Memory comes from the kernel heap, ports and
  configuration space are those of \<open>Ports\<close> and \<open>Pci\<close>.
\<close>

section \<open>Memory\<close>

definition laihost_malloc :: "'s heap_ops \<Rightarrow> 's kheap \<Rightarrow> u64 \<Rightarrow> (u64 \<times> 's kheap) result" where
  "laihost_malloc A h len =
     and_then (kmalloc A h len) (\<lambda>(p, h). and_then (heap_memset h p 0 len) (\<lambda>h. Inr (p, h)))"

definition laihost_realloc :: "'s heap_ops \<Rightarrow> 's kheap \<Rightarrow> u64 \<Rightarrow> u64 \<Rightarrow> (u64 \<times> 's kheap) result" where
  "laihost_realloc A h ptr len =
     and_then (krealloc A h ptr len) (\<lambda>(p, h). and_then (heap_memset h p 0 len) (\<lambda>h. Inr (p, h)))"

definition laihost_free :: "'s heap_ops \<Rightarrow> 's kheap \<Rightarrow> u64 \<Rightarrow> 's kheap result" where
  "laihost_free A h ptr = kfree A h ptr"

definition laihost_map :: "u64 \<Rightarrow> u64 \<Rightarrow> u64 result" where
  "laihost_map addr cnt = (if 0xFFFFFFFF < addr + cnt then Inl Panic else Inr (addr + VIRT_PHYS_BASE))"

section \<open>Messages and tables\<close>

definition laihost_log :: "kmesg_state \<Rightarrow> string \<Rightarrow> kmesg_state result" where
  "laihost_log lg msg = kmesg (\<lambda>_. msg) lg ''lai'' ''%s'' [0]"

definition laihost_panic :: "kmesg_state \<Rightarrow> string \<Rightarrow> kmesg_state result" where
  "laihost_panic lg msg = and_then (kmesg (\<lambda>_. msg) lg ''lai'' ''%s'' [0]) (\<lambda>_. Inl Panic)"

definition laihost_scan :: "fadt_fields \<Rightarrow> mem \<Rightarrow> u64 option \<Rightarrow> string \<Rightarrow> u64 \<Rightarrow> u64 option result" where
  "laihost_scan T m rsdt sig idx = acpi_find_table T m rsdt sig idx"

section \<open>Ports\<close>

definition laihost_outb :: "io_event list \<Rightarrow> u16 \<Rightarrow> u8 \<Rightarrow> io_event list" where
  "laihost_outb io port v = outb io port v"

definition laihost_outw :: "io_event list \<Rightarrow> u16 \<Rightarrow> u16 \<Rightarrow> io_event list" where
  "laihost_outw io port v = outw io port v"

definition laihost_outd :: "io_event list \<Rightarrow> u16 \<Rightarrow> u32 \<Rightarrow> io_event list" where
  "laihost_outd io port v = outd io port v"

definition laihost_inb :: "devices \<Rightarrow> io_event list \<Rightarrow> u16 \<Rightarrow> u8 \<times> io_event list" where
  "laihost_inb D io port = inb D io port"

definition laihost_inw :: "devices \<Rightarrow> io_event list \<Rightarrow> u16 \<Rightarrow> u16 \<times> io_event list" where
  "laihost_inw D io port = inw D io port"

definition laihost_ind :: "devices \<Rightarrow> io_event list \<Rightarrow> u16 \<Rightarrow> u32 \<times> io_event list" where
  "laihost_ind D io port = ind D io port"

section \<open>Configuration space\<close>

definition laihost_pci_writeb ::
  "io_event list \<Rightarrow> u16 \<Rightarrow> u8 \<Rightarrow> u8 \<Rightarrow> u8 \<Rightarrow> u16 \<Rightarrow> u8 \<Rightarrow> io_event list result" where
  "laihost_pci_writeb io seg bus dev fn off v =
     kassert (seg = 0) (Inr (pci_write_byte io (ucast bus) (ucast dev) (ucast fn) off v))"

definition laihost_pci_readb ::
  "devices \<Rightarrow> io_event list \<Rightarrow> u16 \<Rightarrow> u8 \<Rightarrow> u8 \<Rightarrow> u8 \<Rightarrow> u16 \<Rightarrow> (u8 \<times> io_event list) result" where
  "laihost_pci_readb D io seg bus dev fn off =
     kassert (seg = 0) (Inr (pci_read_byte D io (ucast bus) (ucast dev) (ucast fn) off))"

definition laihost_pci_writew ::
  "io_event list \<Rightarrow> u16 \<Rightarrow> u8 \<Rightarrow> u8 \<Rightarrow> u8 \<Rightarrow> u16 \<Rightarrow> u16 \<Rightarrow> io_event list result" where
  "laihost_pci_writew io seg bus dev fn off v =
     kassert (seg = 0) (Inr (pci_write_word io (ucast bus) (ucast dev) (ucast fn) off v))"

definition laihost_pci_readw ::
  "devices \<Rightarrow> io_event list \<Rightarrow> u16 \<Rightarrow> u8 \<Rightarrow> u8 \<Rightarrow> u8 \<Rightarrow> u16 \<Rightarrow> (u16 \<times> io_event list) result" where
  "laihost_pci_readw D io seg bus dev fn off =
     kassert (seg = 0) (Inr (pci_read_word D io (ucast bus) (ucast dev) (ucast fn) off))"

definition laihost_pci_writed ::
  "io_event list \<Rightarrow> u16 \<Rightarrow> u8 \<Rightarrow> u8 \<Rightarrow> u8 \<Rightarrow> u16 \<Rightarrow> u32 \<Rightarrow> io_event list result" where
  "laihost_pci_writed io seg bus dev fn off v =
     kassert (seg = 0) (Inr (pci_write_dword io (ucast bus) (ucast dev) (ucast fn) off v))"

definition laihost_pci_readd ::
  "devices \<Rightarrow> io_event list \<Rightarrow> u16 \<Rightarrow> u8 \<Rightarrow> u8 \<Rightarrow> u8 \<Rightarrow> u16 \<Rightarrow> (u32 \<times> io_event list) result" where
  "laihost_pci_readd D io seg bus dev fn off =
     kassert (seg = 0) (Inr (pci_read_dword D io (ucast bus) (ucast dev) (ucast fn) off))"

section \<open>Reallocation\<close>

text \<open>Reallocating clears the whole new block, so that nothing of the old one is left.\<close>

lemma laihost_realloc_clears:
  assumes "laihost_realloc A h ptr len = Inr (p, h')" "i < unat len"
  shows "h_mem h' (p + of_nat i) = 0"
proof -
  obtain h1 where "h' = h1\<lparr>h_mem := memset (h_mem h1) p 0 len\<rparr>"
    using assms(1) by (auto simp: laihost_realloc_def heap_memset_def and_then_Inr_iff split: if_splits)
  moreover have "unat (of_nat i :: u64) = i" using assms(2) unat_u64_less [of len] by (simp add: unat_of_nat)
  ultimately show ?thesis using assms(2) by (simp add: memset_fill fill_def word_less_nat_alt)
qed

end
