(* ===== verification/Elf.thy ===== *)
theory Elf
  imports Frames Scheduler Heap
begin

text \<open>
  The program loader, \<open>loader/elf64.cpp\<close>. The file is in the kernel's memory; its headers are read there, and each
  loadable segment becomes a region of the thread's address space that the segment's bytes are copied into.
\<close>

section \<open>Reading the headers\<close>

definition ehdr_at :: "mem \<Rightarrow> u64 \<Rightarrow> elf64_ehdr" where
  "ehdr_at m a =
     \<lparr>e_ident = map (\<lambda>i. m (a + of_nat i)) [0..<16],
      e_type = read16 m (a + 16), e_machine = read16 m (a + 18), e_version = read32 m (a + 20),
      e_entry = read64 m (a + 24), e_phoff = read64 m (a + 32), e_shoff = read64 m (a + 40),
      e_flags = read32 m (a + 48), e_ehsize = read16 m (a + 52), e_phentsize = read16 m (a + 54),
      e_phnum = read16 m (a + 56), e_shentsize = read16 m (a + 58), e_shnum = read16 m (a + 60),
      e_shstrndx = read16 m (a + 62)\<rparr>"

definition phdr_at :: "mem \<Rightarrow> u64 \<Rightarrow> elf64_phdr" where
  "phdr_at m a =
     \<lparr>p_type = read32 m a, p_flags = read32 m (a + 4), p_offset = read64 m (a + 8), p_vaddr = read64 m (a + 16),
      p_paddr = read64 m (a + 24), p_filesz = read64 m (a + 32), p_memsz = read64 m (a + 40),
      p_align = read64 m (a + 48)\<rparr>"

definition ELF_MAGIC :: "u8 list" where
  "ELF_MAGIC = [0x7F, 0x45, 0x4C, 0x46]"

definition ELF_IDENT_CLASS :: nat where
  "ELF_IDENT_CLASS = 4"

definition ELF_IDENT_DATA :: nat where
  "ELF_IDENT_DATA = 5"

definition ELF_CLASS_64 :: u8 where
  "ELF_CLASS_64 = 2"

definition ELF_DATA_LSB :: u8 where
  "ELF_DATA_LSB = 1"

definition ELF_TYPE_EXEC :: u16 where
  "ELF_TYPE_EXEC = 2"

definition ELF_VER_CURRENT :: u32 where
  "ELF_VER_CURRENT = 1"

text \<open>The magic has no null character, so \<open>strncmp\<close> returns 0 exactly when the four bytes agree.\<close>

definition elf64_check :: "elf64_ehdr \<Rightarrow> bool" where
  "elf64_check ehdr =
     (if take 4 (e_ident ehdr) \<noteq> ELF_MAGIC then False
      else if e_ident ehdr ! ELF_IDENT_CLASS \<noteq> ELF_CLASS_64 then False
      else if e_ident ehdr ! ELF_IDENT_DATA \<noteq> ELF_DATA_LSB then False
      else if e_version ehdr \<noteq> ELF_VER_CURRENT then False
      else if e_type ehdr \<noteq> ELF_TYPE_EXEC then False
      else True)"

section \<open>Loading\<close>

definition vm_perm_user :: cint where
  "vm_perm_user = 8"

definition vm_perm_execute :: cint where
  "vm_perm_execute = 4"

definition vm_perm_read :: cint where
  "vm_perm_read = 1"

definition vm_perm_write :: cint where
  "vm_perm_write = 2"

definition segment_flags :: "elf64_phdr \<Rightarrow> cint" where
  "segment_flags ph =
     (let flags = vm_perm_user;
          flags = (if p_flags ph AND ELF_PHDR_FLAG_X \<noteq> 0 then flags OR vm_perm_execute else flags);
          flags = (if p_flags ph AND ELF_PHDR_FLAG_R \<noteq> 0 then flags OR vm_perm_read else flags);
          flags = (if p_flags ph AND ELF_PHDR_FLAG_W \<noteq> 0 then flags OR vm_perm_write else flags)
      in flags)"

definition segment_pages :: "elf64_phdr \<Rightarrow> u64" where
  "segment_pages ph = (p_memsz ph + vm_page_size - 1) div vm_page_size"

text \<open>One iteration of the loop: the result of \<open>allocate_at\<close> is not looked at.\<close>

definition load_segment ::
  "'s arch_mm_ops \<Rightarrow> vm_frg \<Rightarrow> u64 \<Rightarrow> 's \<Rightarrow> address_space \<Rightarrow> elf64_phdr \<Rightarrow> ('s \<times> address_space) result" where
  "load_segment A F file s a ph =
     (if p_type ph \<noteq> ELF_PHDR_TYPE_LOAD then Inr (s, a)
      else
        and_then (space_allocate_at A F s a (p_vaddr ph) (segment_pages ph) (segment_flags ph) vm_cache_def) (\<lambda>(_, s, a).
          space_load A s a (p_vaddr ph) (file + p_offset ph) (p_filesz ph)))"

fun load_segments ::
  "'s arch_mm_ops \<Rightarrow> vm_frg \<Rightarrow> u64 \<Rightarrow> 's \<Rightarrow> address_space \<Rightarrow> elf64_phdr list \<Rightarrow> ('s \<times> address_space) result" where
  "load_segments A F file s a [] = Inr (s, a)"
| "load_segments A F file s a (ph # phs) =
     and_then (load_segment A F file s a ph) (\<lambda>(s, a). load_segments A F file s a phs)"

definition elf64_phdrs :: "mem \<Rightarrow> u64 \<Rightarrow> elf64_phdr list" where
  "elf64_phdrs m file =
     map (\<lambda>i. phdr_at m (file + e_phoff (ehdr_at m file) + of_nat i * 56)) [0..<unat (e_phnum (ehdr_at m file))]"

definition elf64_load ::
  "'s arch_mm_ops \<Rightarrow> vm_frg \<Rightarrow> mem \<Rightarrow> 's \<Rightarrow> u64 \<Rightarrow> thread \<Rightarrow> (bool \<times> 's \<times> thread) result" where
  "elf64_load A F m s file t =
     (let ehdr = ehdr_at m file
      in if \<not> elf64_check ehdr then Inr (False, s, t)
         else
           and_then (load_segments A F file s (th_addr_space t) (elf64_phdrs m file)) (\<lambda>(s, a).
             Inr (True, s, t\<lparr>th_addr_space := a, th_task := set_ip (th_task t) (e_entry ehdr)\<rparr>)))"

section \<open>Carving a range out keeps the rest covered\<close>

text \<open>Two page ranges with no page in common.\<close>

definition disjoint_ivl :: "u64 \<Rightarrow> u64 \<Rightarrow> u64 \<Rightarrow> u64 \<Rightarrow> bool" where
  "disjoint_ivl b n c k \<longleftrightarrow>
     unat b + unat n * 4096 \<le> unat c \<or> unat c + unat k * 4096 \<le> unat b"

lemma covers_unat:
  assumes "wf_hole h" "wf_ivl b n"
  shows "covers h b n \<longleftrightarrow>
    unat (h_base h) \<le> unat b \<and> unat b + unat n * 4096 \<le> unat (h_base h) + unat (h_size h) * 4096"
  using assms wf_ivl_end [of "h_base h" "h_size h"] wf_ivl_end [of b n]
  by (simp add: covers_def wf_hole_def word_le_nat_alt)

context vm_containers
begin

lemma carve_parts:
  assumes i: "i < length hs" and wt: "wf_hole (hs ! i)" and wf: "wf_ivl base sz" and c: "covers (hs ! i) base sz"
  defines "t \<equiv> hs ! i" defines "k \<equiv> (base - h_base t) div vm_page_size"
  shows "x \<in> set hs \<Longrightarrow> x \<noteq> t \<Longrightarrow> x \<in> set (carve_hole F hs i base sz)"
    "k \<noteq> 0 \<Longrightarrow> \<lparr>h_base = h_base t, h_size = k\<rparr> \<in> set (carve_hole F hs i base sz)"
    "h_size t - sz - k \<noteq> 0 \<Longrightarrow>
       \<lparr>h_base = base + sz * vm_page_size, h_size = h_size t - sz - k\<rparr> \<in> set (carve_hole F hs i base sz)"
proof -
  have wt': "wf_ivl (h_base t) (h_size t)" using wt by (simp add: wf_hole_def t_def)
  note cv = carve_ivl [OF wt' wf c [folded t_def, unfolded covers_def, THEN conjunct1]
      c [folded t_def, unfolded covers_def, THEN conjunct2], folded k_def]
  have er: "set (fl_erase (hole_list F) hs i) \<supseteq> set hs - {t}"
    using hl.mset_erase_at [OF i, folded t_def] by (metis Diff_subset_conv insert_is_Un order_refl set_mset_add_mset_insert set_mset_mset)
  have up: "x \<in> set hs \<Longrightarrow> x \<noteq> t \<Longrightarrow> x \<in> set (hs[i := y])" "y \<in> set (hs[i := y])" for x y
    using i by (auto simp: t_def set_conv_nth nth_list_update)
  have ins: "set (fl_insert (hole_list F) (hs[i := y]) i z) = insert z (set (hs[i := y]))" for y z
    using hl.mset_insert_before [of i "hs[i := y]" z] i by (metis length_list_update set_mset_add_mset_insert set_mset_mset)
  have "unat base = unat (h_base t) + unat k * 4096" using wf_ivl_end [OF cv(2)] by (simp only: cv(1) [symmetric])
  then have kz: "k = 0 \<longleftrightarrow> base = h_base t" using word_unat_eq_iff [of base "h_base t"] by (simp add: unat_eq_zero)
  have tz: "base + sz * vm_page_size = h_base t + h_size t * vm_page_size \<longleftrightarrow> h_size t - sz - k = 0"
    using wf_ivl_end [OF wt'] wf_ivl_end [OF wf] wf_ivl_end [OF cv(2), folded cv(1)] cv(5)
    by (auto simp: word_unat_eq_iff)
  have "carve_hole F hs i base sz =
    (if k = 0 \<and> h_size t - sz - k = 0 then fl_erase (hole_list F) hs i
     else if k = 0 then hs[i := \<lparr>h_base = base + sz * vm_page_size, h_size = h_size t - sz - k\<rparr>]
     else if h_size t - sz - k = 0 then hs[i := \<lparr>h_base = h_base t, h_size = k\<rparr>]
     else fl_insert (hole_list F) (hs[i := \<lparr>h_base = base + sz * vm_page_size, h_size = h_size t - sz - k\<rparr>]) i
       \<lparr>h_base = h_base t, h_size = k\<rparr>)"
  proof (cases "k = 0")
    case True
    have "h_size t - sz - k = 0 \<longleftrightarrow> sz = h_size t" using True by (metis diff_zero right_minus_eq)
    then show ?thesis using True kz unfolding carve_hole_def t_def [symmetric] Let_def by (simp only: if_True if_False simp_thms diff_zero)
  next
    case False
    show ?thesis
    proof (cases "h_size t - sz - k = 0")
      case True
      then have "h_size t - sz = k" by (simp only: right_minus_eq)
      then have "\<lparr>h_base = h_base t, h_size = k\<rparr> = t\<lparr>h_size := h_size t - sz\<rparr>" by simp
      then show ?thesis using False True kz tz unfolding carve_hole_def t_def [symmetric] Let_def by (simp only: if_True if_False simp_thms)
    next
      case nz: False
      then show ?thesis using False kz tz unfolding carve_hole_def t_def [symmetric] Let_def k_def [symmetric]
        by (simp only: if_True if_False simp_thms)
    qed
  qed
  then show "x \<in> set hs \<Longrightarrow> x \<noteq> t \<Longrightarrow> x \<in> set (carve_hole F hs i base sz)"
    "k \<noteq> 0 \<Longrightarrow> \<lparr>h_base = h_base t, h_size = k\<rparr> \<in> set (carve_hole F hs i base sz)"
    "h_size t - sz - k \<noteq> 0 \<Longrightarrow>
       \<lparr>h_base = base + sz * vm_page_size, h_size = h_size t - sz - k\<rparr> \<in> set (carve_hole F hs i base sz)"
    using er up by (auto simp: ins)
qed

lemma carve_covers:
  assumes i: "i < length hs" and wfs: "\<forall>h\<in>set hs. wf_hole h" and wf: "wf_ivl base sz" "wf_ivl b n" and n: "n \<noteq> 0"
    and c: "covers (hs ! i) base sz" and d: "disjoint_ivl base sz b n" and h: "h \<in> set hs" "covers h b n"
  shows "\<exists>h'\<in>set (carve_hole F hs i base sz). covers h' b n"
proof (cases "h = hs ! i")
  case False
  then show ?thesis using carve_parts(1) [OF i _ wf(1) c h(1)] i wfs h(2) by auto
next
  case True
  define t k where "t = hs ! i" and "k = (base - h_base t) div vm_page_size"
  have wt: "wf_hole t" "wf_ivl (h_base t) (h_size t)" using i wfs by (simp_all add: wf_hole_def t_def)
  note cv = carve_ivl [OF wt(2) wf(1) c [folded t_def, unfolded covers_def, THEN conjunct1]
      c [folded t_def, unfolded covers_def, THEN conjunct2], folded k_def]
  note p = carve_parts(2,3) [OF i wt(1) [unfolded t_def] wf(1) c, folded t_def, folded k_def]
  have ub: "unat base = unat (h_base t) + unat k * 4096" using wf_ivl_end [OF cv(2)] cv(1) by simp
  have ct: "unat (h_base t) \<le> unat b" "unat b + unat n * 4096 \<le> unat (h_base t) + unat (h_size t) * 4096"
    using h(2) True covers_unat [OF wt(1) wf(2)] by (simp_all add: t_def)
  have nz: "0 < unat n" using n by (simp add: unat_gt_0)
  show ?thesis
  proof (cases "unat b + unat n * 4096 \<le> unat base")
    case True
    then have "k \<noteq> 0" using ub ct(1) nz by (intro notI) simp
    moreover have "covers \<lparr>h_base = h_base t, h_size = k\<rparr> b n"
      using covers_unat [of "\<lparr>h_base = h_base t, h_size = k\<rparr>" b n] cv(2) wf(2) True ub ct(1) by (simp add: wf_hole_def)
    ultimately show ?thesis using p(1) by blast
  next
    case False
    let ?r = "\<lparr>h_base = base + sz * vm_page_size, h_size = h_size t - sz - k\<rparr>"
    have e: "unat base + unat sz * 4096 \<le> unat b" using d False by (simp add: disjoint_ivl_def)
    then have "h_size t - sz - k \<noteq> 0" using ub ct(2) nz cv(5) by (intro notI) simp
    moreover have "covers ?r b n"
      using covers_unat [of ?r b n] cv(3,5) wf(2) e ub ct(2) wf_ivl_end [OF wf(1)] by (simp add: wf_hole_def)
    ultimately show ?thesis using p(2) by blast
  qed
qed

lemma bind_exact_covers:
  assumes inv: "space_inv a" and wf: "wf_ivl base sz" "wf_ivl b n" and nz: "n \<noteq> 0"
    and e: "bind_exact F a base sz = Inr (r, a')" and d: "disjoint_ivl base sz b n"
    and h: "h \<in> set (memory_holes a)" "covers h b n"
  shows "\<exists>h'\<in>set (memory_holes a'). covers h' b n"
proof -
  obtain a1 where m: "merge_holes F a = Inr a1" "space_inv a1" using merge_holes_inv [OF inv] by blast
  then obtain hs where l: "merge_holes_loop F (Suc (length (memory_holes a))) (memory_holes a) 0 = Inr hs"
    and a1: "a1 = a\<lparr>memory_holes := hs\<rparr>"
    unfolding merge_holes_def and_then_Inr_iff by auto
  have w: "\<forall>h\<in>set (memory_holes a). wf_hole h" "\<forall>h\<in>set hs. wf_hole h" using inv m(2) a1 by (simp_all add: space_inv_def)
  from merge_holes_loop_covers [OF l w(1) h] obtain h' where h': "h' \<in> set hs" "covers h' b n" by blast
  show ?thesis
  proof (cases "find_target_hole hs 0 base sz")
    case None
    then show ?thesis using e m a1 h' by (auto simp: bind_exact_def kassert_Inr_iff)
  next
    case (Some i)
    note t = find_target_hole_spec [OF Some, simplified]
    obtain q a2 where p: "put_mapping F (a1\<lparr>memory_holes := carve_hole F hs i base sz\<rparr>) (new_mapping F base sz) = (q, a2)"
      by force
    have "\<exists>h'\<in>set (carve_hole F hs i base sz). covers h' b n"
      using t by (intro carve_covers [OF _ w(2) wf nz _ d h']) (simp_all add: covers_def)
    then show ?thesis using e m a1 Some p put_mapping_frame [OF p] by (auto simp: bind_exact_def kassert_Inr_iff)
  qed
qed

end

section \<open>Copying into a lazily allocated region\<close>

text \<open>The errors that come from the architecture's own operations: mapping a page and copying to a region.\<close>

definition arch_fault :: "'s arch_mm_ops \<Rightarrow> fault \<Rightarrow> bool" where
  "arch_fault A e \<longleftrightarrow> (\<exists>s c d p n f ca. am_map A s c d p n f ca = Inl e) \<or> (\<exists>s m off d n. am_mapping_load A s m off d n = Inl e)"

definition backable :: "memory_mapping \<Rightarrow> bool" where
  "backable m \<longleftrightarrow> (\<forall>p\<in>set (m_pages m). bp_allocated p)"

definition region_id :: "memory_mapping \<Rightarrow> u64 \<times> u64 \<times> cint \<times> cint" where
  "region_id m = (m_base m, m_size m, m_perms m, m_cache_mode m)"

lemma region_id_pages [simp]: "region_id (m\<lparr>m_pages := ps\<rparr>) = region_id m" "region_id (m\<lparr>m_mapped := b\<rparr>) = region_id m"
  by (simp_all add: region_id_def)

lemma mapping_touch_backable:
  assumes "backable m" "unat i < length (m_pages m)"
  shows "\<exists>t s' ps. mapping_touch A s m i = Inr (t, s', m\<lparr>m_pages := ps\<rparr>) \<and> length ps = length (m_pages m) \<and>
    backable (m\<lparr>m_pages := ps\<rparr>)"
proof -
  let ?p = "m_pages m ! unat i"
  have al: "bp_allocated ?p" using assms by (simp add: backable_def)
  have same: "m\<lparr>m_pages := m_pages m\<rparr> = m" by simp
  have up: "backable (m\<lparr>m_pages := (m_pages m)[unat i := ?p\<lparr>bp_exists := True, bp_ptr := q\<rparr>]\<rparr>)" for q
    using assms al by (auto simp: backable_def dest!: set_update_subset_insert [THEN subsetD])
  show ?thesis
  proof (cases "bp_exists ?p \<or> fst (am_alloc_phys A s 1) = 0")
    case True
    then show ?thesis using assms al same
      by (intro exI [of _ False] exI [of _ "if bp_exists ?p then s else snd (am_alloc_phys A s 1)"] exI [of _ "m_pages m"])
         (auto simp: mapping_touch_def split: prod.splits)
  next
    case False
    then show ?thesis using assms al up by (auto simp: mapping_touch_def split: prod.splits)
  qed
qed

lemma touch_range_backable:
  assumes "backable m" "unat i + n \<le> length (m_pages m)" "length (m_pages m) < 2 ^ 64"
  shows "\<exists>t s' ps. touch_range A s m i n b = Inr (t, s', m\<lparr>m_pages := ps\<rparr>) \<and> length ps = length (m_pages m) \<and>
    backable (m\<lparr>m_pages := ps\<rparr>)"
  using assms
proof (induction n arbitrary: s m i b)
  case 0
  have "m\<lparr>m_pages := m_pages m\<rparr> = m" by simp
  then show ?case using 0(1) by (metis touch_range.simps(1))
next
  case (Suc n)
  from mapping_touch_backable [OF Suc.prems(1), of i A s] Suc.prems(2) obtain t s1 ps where
    t: "mapping_touch A s m i = Inr (t, s1, m\<lparr>m_pages := ps\<rparr>)" "length ps = length (m_pages m)" "backable (m\<lparr>m_pages := ps\<rparr>)"
    by auto
  have "unat (i + 1) = unat i + 1" using Suc.prems(2,3) by (simp add: unat_Suc_word)
  then have "unat (i + 1) + n \<le> length (m_pages (m\<lparr>m_pages := ps\<rparr>))" "length (m_pages (m\<lparr>m_pages := ps\<rparr>)) < 2 ^ 64"
    using Suc.prems(2,3) t(2) by simp_all
  from Suc.IH [OF t(3) this, of s1 "b \<or> t"] t show ?case by auto
qed

lemma map_region_loop_fault:
  "map_region_loop A s ctx m i n = Inl e \<Longrightarrow> unat i + n \<le> length (m_pages m) \<Longrightarrow> length (m_pages m) < 2 ^ 64 \<Longrightarrow>
   arch_fault A e"
proof (induction n arbitrary: s i)
  case (Suc n)
  have u: "unat (i + 1) = unat i + 1" using Suc.prems(2,3) by (simp add: unat_Suc_word)
  show ?case
  proof (cases "if bp_exists (m_pages m ! unat i) then am_map A s ctx (m_base m + i * vm_page_size)
      (bp_ptr (m_pages m ! unat i)) 1 (m_perms m) (m_cache_mode m) else Inr s")
    case (Inl f)
    then show ?thesis using Suc.prems(1,2) by (auto simp: arch_fault_def split: if_splits)
  next
    case (Inr s1)
    then show ?thesis using Suc.IH [of s1 "i + 1"] Suc.prems u by simp
  qed
qed simp

section \<open>The region an address belongs to\<close>

lemma sum_list_two:
  fixes f :: "'a \<Rightarrow> nat"
  assumes "i < length xs" "j < length xs" "i \<noteq> j"
  shows "f (xs ! i) + f (xs ! j) \<le> (\<Sum>x\<leftarrow>xs. f x)"
proof -
  have "(\<Sum>k\<in>{i, j}. f (xs ! k)) \<le> (\<Sum>k\<in>{0..<length xs}. f (xs ! k))" using assms by (intro sum_mono2) auto
  then show ?thesis using assms(3) by (simp add: sum_list_sum_nth)
qed

lemma region_page:
  assumes "wf_ivl (m_base m) (m_size m)" "unat v mod 4096 = 0"
  shows "count (region_pages m) (unat v div 4096) =
    (if unat (m_base m) \<le> unat v \<and> unat v < unat (m_base m) + unat (m_size m) * 4096 then 1 else 0)"
proof -
  obtain c where c: "unat (m_base m) = c * 4096" using assms(1) by (metis wf_ivl_def mod_0_imp_dvd dvd_def mult.commute)
  obtain d where d: "unat v = d * 4096" using assms(2) by (metis mod_0_imp_dvd dvd_def mult.commute)
  have "d \<in> {c ..< c + unat (m_size m)} \<longleftrightarrow> c * 4096 \<le> d * 4096 \<and> d * 4096 < c * 4096 + unat (m_size m) * 4096"
    by auto
  then show ?thesis by (simp add: region_pages_def pages_of_def c d count_mset_set')
qed

lemma region_for_address_loop_Some:
  "region_for_address_loop ms i v = Some r \<Longrightarrow>
   \<exists>k<length ms. r = i + k \<and> m_base (ms ! k) \<le> v \<and> v \<le> m_base (ms ! k) + m_size (ms ! k) * vm_page_size"
proof (induction ms arbitrary: i)
  case (Cons m ms)
  show ?case
  proof (cases "m_base m \<le> v \<and> v \<le> m_base m + m_size m * vm_page_size")
    case True
    then show ?thesis using Cons.prems by (intro exI [of _ 0]) simp
  next
    case False
    then obtain k where "k < length ms" "r = Suc i + k" "m_base (ms ! k) \<le> v"
      "v \<le> m_base (ms ! k) + m_size (ms ! k) * vm_page_size"
      using Cons.IH [of "Suc i"] Cons.prems by (auto split: if_splits)
    then show ?thesis by (intro exI [of _ "Suc k"]) simp
  qed
qed simp

lemma region_for_address_loop_None:
  "region_for_address_loop ms i v = None \<Longrightarrow> m \<in> set ms \<Longrightarrow> \<not> (m_base m \<le> v \<and> v \<le> m_base m + m_size m * vm_page_size)"
  by (induction ms arbitrary: i) (auto split: if_splits)

text \<open>Where no region ends at the address, the region found is the one the address lies in.\<close>

lemma region_for_address_unique:
  assumes inv: "space_inv a" and m: "k < length (mapped_regions a)" "m_base (mapped_regions a ! k) = v"
    "m_size (mapped_regions a ! k) \<noteq> 0"
    and e: "\<forall>m\<in>set (mapped_regions a). m_base m + m_size m * vm_page_size \<noteq> v"
  shows "region_for_address a v = Some k"
proof -
  let ?ms = "mapped_regions a"
  have w: "wf_ivl (m_base m) (m_size m)" if "m \<in> set ?ms" for m using inv that by (simp add: space_inv_def wf_region_def)
  have wk: "wf_ivl v (m_size (?ms ! k))" using w [of "?ms ! k"] m by simp
  have "v \<le> v + m_size (?ms ! k) * vm_page_size" using wf_ivl_end [OF wk] by (simp add: word_le_nat_alt)
  then have "region_for_address a v \<noteq> None"
    using region_for_address_loop_None [of ?ms 0 v "?ms ! k"] m by (auto simp: region_for_address_def)
  then obtain r where r: "region_for_address a v = Some r" by blast
  have rl: "r < length ?ms" "m_base (?ms ! r) \<le> v" "v \<le> m_base (?ms ! r) + m_size (?ms ! r) * vm_page_size"
    using region_for_address_loop_Some [of ?ms 0 v r] r by (auto simp: region_for_address_def)
  have al: "unat v mod 4096 = 0" using wk by (simp add: wf_ivl_def)
  have "v < m_base (?ms ! r) + m_size (?ms ! r) * vm_page_size" using rl e by (auto simp: order_less_le)
  then have 1: "count (region_pages (?ms ! r)) (unat v div 4096) = 1"
    using region_page [OF w al, of "?ms ! r"] rl wf_ivl_end [OF w, of "?ms ! r"]
    by (simp add: word_le_nat_alt word_less_nat_alt)
  have 2: "count (region_pages (?ms ! k)) (unat v div 4096) = 1"
    using region_page [OF w al, of "?ms ! k"] m by (simp add: unat_gt_0)
  have "count (bound_of ?ms) (unat v div 4096) \<le> count user_pages (unat v div 4096)"
    using inv unfolding space_inv_def by (metis count_union le_add2)
  also have "\<dots> \<le> 1" by (simp add: count_user_pages)
  finally have "(\<Sum>m\<leftarrow>?ms. count (region_pages m) (unat v div 4096)) \<le> 1" unfolding count_bound_of .
  then have "r = k" using sum_list_two [OF rl(1) m(1), of "\<lambda>m. count (region_pages m) (unat v div 4096)"] 1 2 by fastforce
  then show ?thesis using r by simp
qed

lemma pages_for:
  fixes sz n :: u64
  assumes "unat sz \<le> unat n * 4096" "unat n < 2 ^ 50"
  shows "unat ((sz + vm_page_size - 1) div vm_page_size) \<le> unat n"
proof -
  have e: "sz + vm_page_size - 1 = sz + 4095" by (simp add: vm_page_size_def)
  have "unat (sz + 4095) = unat sz + 4095" using assms unat_add_less [of sz 4095] by simp
  then have "unat ((sz + vm_page_size - 1) div vm_page_size) = (unat sz + 4095) div 4096" unfolding e by (simp add: unat_div)
  also have "\<dots> \<le> (unat n * 4096 + 4095) div 4096" using assms(1) by (intro div_le_mono) simp
  finally show ?thesis by simp
qed

lemma ensure_lazy:
  assumes "backable m" "length (m_pages m) = unat (m_size m)" "unat sz \<le> unat (m_size m) * 4096" "unat (m_size m) < 2 ^ 50"
  shows "\<exists>t s' ps. ensure_load_store A s m 0 sz = Inr (t, s', m\<lparr>m_pages := ps\<rparr>) \<and> length ps = unat (m_size m)"
proof -
  define pages where "pages = (sz + vm_page_size - 1) div vm_page_size"
  have up: "unat pages \<le> unat (m_size m)" unfolding pages_def by (rule pages_for [OF assms(3,4)])
  from touch_range_backable [OF assms(1), of 0 "unat pages" A s False] up assms(2) unat_u64_less [of "m_size m"] obtain t s1 ps where
    t: "touch_range A s m 0 (unat pages) False = Inr (t, s1, m\<lparr>m_pages := ps\<rparr>)" "length ps = unat (m_size m)"
    by auto
  have "ensure_load_store A s m 0 sz = touch_range A s m 0 (unat pages) False"
    using up unfolding ensure_load_store_def Let_def add_0 pages_def [symmetric]
    by (simp add: word_less_nat_alt linorder_not_less)
  then show ?thesis using t by auto
qed

lemma space_load_lazy:
  assumes inv: "space_inv a" and k: "k < length (mapped_regions a)" "mapped_regions a ! k = lazy_region v n perms cache"
    and n: "n \<noteq> 0" "unat sz \<le> unat n * 4096" "unat n < 2 ^ 50"
    and e: "\<forall>m\<in>set (mapped_regions a). m_base m + m_size m * vm_page_size \<noteq> v"
  shows "case space_load A s a v data sz of
      Inl e \<Rightarrow> arch_fault A e
    | Inr (s', a') \<Rightarrow> memory_holes a' = memory_holes a \<and>
        map region_id (mapped_regions a') = map region_id (mapped_regions a)"
proof -
  let ?m = "mapped_regions a ! k"
  have r: "region_for_address a v = Some k"
    using k n(1) by (intro region_for_address_unique [OF inv k(1) _ _ e]) (simp_all add: lazy_region_def)
  have ab: "backable ?m" "length (m_pages ?m) = unat n" "m_size ?m = n" "m_base ?m = v"
    using k(2) by (auto simp: backable_def lazy_region_def)
  from ensure_lazy [OF ab(1), of sz A s] ab n obtain t s1 ps where
    el: "ensure_load_store A s ?m 0 sz = Inr (t, s1, ?m\<lparr>m_pages := ps\<rparr>)" and t: "length ps = unat n"
    by auto
  show ?thesis
  proof (cases "am_mapping_load A s1 (?m\<lparr>m_pages := ps\<rparr>) 0 data sz")
    case (Inl f)
    then show ?thesis using r ab(4) el by (auto simp: space_load_def mapping_load_def arch_fault_def)
  next
    case (Inr s2)
    let ?a = "set_region a k (?m\<lparr>m_pages := ps\<rparr>)"
    have sl: "space_load A s a v data sz = (if t then map_region A s2 ?a k else Inr (s2, ?a))"
      using Inr r ab(4) el by (simp add: space_load_def mapping_load_def)
    have id: "map region_id ((mapped_regions a)[k := x]) = map region_id (mapped_regions a)"
      if "region_id x = region_id ?m" for x
      using that k(1) by (simp add: map_update list_update_same_conv)
    show ?thesis
    proof (cases "map_region_loop A s2 (vmm_ctx ?a) (?m\<lparr>m_pages := ps\<rparr>) 0 (unat n)")
      case (Inl f)
      then have "arch_fault A f" using map_region_loop_fault [OF Inl] t unat_u64_less [of n] by simp
      then show ?thesis using sl Inl k(1) ab(3) id by (auto simp: map_region_def Let_def set_region_def)
    next
      case (Inr s3)
      then show ?thesis using sl k(1) ab(3) id by (auto simp: map_region_def Let_def set_region_def)
    qed
  qed
qed

section \<open>Loading a program\<close>

text \<open>A segment that can be loaded into an address space: aligned, not empty, inside the user half, no larger in the file than
  in memory, all of it in one hole, and not right behind an existing region.\<close>

definition loadable :: "address_space \<Rightarrow> elf64_phdr \<Rightarrow> bool" where
  "loadable a ph \<longleftrightarrow>
     wf_ivl (p_vaddr ph) (segment_pages ph) \<and> p_vaddr ph \<noteq> 0 \<and> segment_pages ph \<noteq> 0 \<and>
     unat (p_filesz ph) \<le> unat (segment_pages ph) * 4096 \<and>
     (\<exists>h\<in>set (memory_holes a). covers h (p_vaddr ph) (segment_pages ph)) \<and>
     (\<forall>m\<in>set (mapped_regions a). m_base m + m_size m * vm_page_size \<noteq> p_vaddr ph)"

text \<open>Two segments with at least one byte between them.\<close>

definition gap :: "elf64_phdr \<Rightarrow> elf64_phdr \<Rightarrow> bool" where
  "gap p q \<longleftrightarrow> unat (p_vaddr p) + unat (segment_pages p) * 4096 < unat (p_vaddr q) \<or>
     unat (p_vaddr q) + unat (segment_pages q) * 4096 < unat (p_vaddr p)"

definition segment_id :: "elf64_phdr \<Rightarrow> u64 \<times> u64 \<times> cint \<times> cint" where
  "segment_id ph = (p_vaddr ph, segment_pages ph, segment_flags ph, vm_cache_def)"

definition is_load :: "elf64_phdr \<Rightarrow> bool" where
  "is_load ph \<longleftrightarrow> p_type ph = ELF_PHDR_TYPE_LOAD"

lemma wf_ivl_bound: "wf_ivl v n \<Longrightarrow> unat n < 2 ^ 50"
  by (simp add: wf_ivl_def)

lemma space_allocate_at_holes:
  assumes "space_allocate_at A F s a b n p c = Inr (v, s', a')"
  shows "\<exists>r a1. bind_exact F a b n = Inr (r, a1) \<and> memory_holes a' = memory_holes a1"
proof (cases "bind_exact F a b n")
  case (Inr x)
  obtain r a1 where x: "x = (r, a1)" by (cases x)
  show ?thesis
  proof (cases r)
    case (Some q)
    then obtain mem s1 a2 where "map_region A s (set_region a1 q mem) q = Inr (s1, a2)" "a' = a2"
      using assms Inr x by (auto simp: space_allocate_at_def and_then_Inr_iff)
    then show ?thesis using Inr x by (auto simp: map_region_def Let_def and_then_Inr_iff set_region_def)
  qed (use assms Inr x in \<open>auto simp: space_allocate_at_def\<close>)
qed (use assms in \<open>auto simp: space_allocate_at_def\<close>)

lemma region_end_id:
  assumes "set (map region_id ms') \<subseteq> set (map region_id ms) \<union> {(b, n, p, c)}"
    "\<forall>m\<in>set ms. m_base m + m_size m * vm_page_size \<noteq> v" "b + n * vm_page_size \<noteq> v"
  shows "\<forall>m\<in>set ms'. m_base m + m_size m * vm_page_size \<noteq> v"
proof
  fix m assume "m \<in> set ms'"
  then have "region_id m \<in> set (map region_id ms) \<union> {(b, n, p, c)}" using assms(1) by auto
  then show "m_base m + m_size m * vm_page_size \<noteq> v" using assms(2,3) by (auto simp: region_id_def)
qed

context arch_space
begin

text \<open>A segment that is still to be loaded stays loadable when one that ends before it has been given its range.\<close>

lemma loadable_kept:
  assumes "space_inv a" "loadable a ph" "loadable a q" "gap ph q"
    "bind_exact F a (p_vaddr ph) (segment_pages ph) = Inr (r, a2)" "memory_holes a' = memory_holes a2"
    "set (map region_id (mapped_regions a')) \<subseteq> set (map region_id (mapped_regions a)) \<union> {segment_id ph}"
  shows "loadable a' q"
proof -
  let ?v = "p_vaddr ph" let ?n = "segment_pages ph"
  note l = assms(2) [unfolded loadable_def]
  have d: "disjoint_ivl ?v ?n (p_vaddr q) (segment_pages q)" using assms(4) by (auto simp: gap_def disjoint_ivl_def)
  have "\<exists>h'\<in>set (memory_holes a2). covers h' (p_vaddr q) (segment_pages q)"
    using assms(3) l bind_exact_covers [OF assms(1) _ _ _ assms(5) d] unfolding loadable_def by blast
  moreover have "?v + ?n * vm_page_size \<noteq> p_vaddr q"
    using wf_ivl_end [of ?v ?n] wf_ivl_end [of "p_vaddr q" "segment_pages q"] l assms(3,4) unfolding gap_def loadable_def
    by (metis add_lessD1 nat_neq_iff)
  ultimately show ?thesis
    using assms(3,6,7) region_end_id [of "mapped_regions a'" "mapped_regions a"] unfolding loadable_def segment_id_def by auto
qed

lemma segment_loaded:
  assumes inv: "owned_reach A F used ok s a" and ph: "loadable a ph" "is_load ph"
  shows "case load_segment A F file s a ph of
      Inl e \<Rightarrow> arch_fault A e
    | Inr (s', a') \<Rightarrow> owned_reach A F used ok s' a' \<and>
        mset (map region_id (mapped_regions a')) = add_mset (segment_id ph) (mset (map region_id (mapped_regions a))) \<and>
        (\<forall>q. loadable a q \<longrightarrow> gap ph q \<longrightarrow> loadable a' q)"
proof -
  let ?v = "p_vaddr ph" let ?n = "segment_pages ph"
  note l = ph(1) [unfolded loadable_def]
  have si: "space_inv a" using owned_reach_inv [OF inv] by simp
  from allocate_at_eq [OF si, of ?v ?n A s "segment_flags ph" vm_cache_def] l obtain a1 where
    al: "space_allocate_at A F s a ?v ?n (segment_flags ph) vm_cache_def = Inr (?v, s, a1)" "space_inv a1"
    and ms: "mset (mapped_regions a1) = add_mset (lazy_region ?v ?n (segment_flags ph) vm_cache_def) (mset (mapped_regions a))"
    by auto
  have o1: "owned_reach A F used ok s a1" using owned_reach.allocate_at [OF inv _ al(1)] l by blast
  have set: "set (mapped_regions a1) = insert (lazy_region ?v ?n (segment_flags ph) vm_cache_def) (set (mapped_regions a))"
    using arg_cong [OF ms, of set_mset] by simp
  then obtain k where k: "k < length (mapped_regions a1)"
    "mapped_regions a1 ! k = lazy_region ?v ?n (segment_flags ph) vm_cache_def"
    by (metis in_set_conv_nth insertI1)
  have id1: "mset (map region_id (mapped_regions a1)) = add_mset (segment_id ph) (mset (map region_id (mapped_regions a)))"
    using ms by (simp add: region_id_def segment_id_def lazy_region_def)
  have "?v + ?n * vm_page_size \<noteq> ?v"
    using l wf_ivl_end [of ?v ?n] by (metis add_cancel_right_right mult_eq_0_iff unat_eq_0 zero_neq_numeral)
  then have ne: "\<forall>m\<in>set (mapped_regions a1). m_base m + m_size m * vm_page_size \<noteq> ?v"
    using l set by (simp add: lazy_region_def)
  note ld = space_load_lazy [OF al(2) k _ _ _ ne, of "p_filesz ph" A s "file + p_offset ph"]
  have e: "load_segment A F file s a ph = space_load A s a1 ?v (file + p_offset ph) (p_filesz ph)"
    using al(1) ph(2) by (simp add: load_segment_def is_load_def)
  obtain r a2 where be: "bind_exact F a ?v ?n = Inr (r, a2)" "memory_holes a1 = memory_holes a2"
    using space_allocate_at_holes [OF al(1)] by blast
  show ?thesis
  proof (cases "space_load A s a1 ?v (file + p_offset ph) (p_filesz ph)")
    case (Inl f)
    then show ?thesis using ld l e wf_ivl_bound [of ?v ?n] by simp
  next
    case (Inr x)
    obtain s' a' where x: "x = (s', a')" by (cases x)
    have ld': "memory_holes a' = memory_holes a1" "map region_id (mapped_regions a') = map region_id (mapped_regions a1)"
      using ld l Inr x wf_ivl_bound [of ?v ?n] by simp_all
    have "owned_reach A F used ok s' a'" using owned_reach.load [OF o1] Inr x by blast
    moreover have "set (map region_id (mapped_regions a')) \<subseteq> set (map region_id (mapped_regions a)) \<union> {segment_id ph}"
      using arg_cong [OF id1, of set_mset] ld'(2) by simp
    then have "loadable a' q" if "loadable a q" "gap ph q" for q
      using loadable_kept [OF si ph(1) that be(1)] be(2) ld'(1) by simp
    moreover have "mset (map region_id (mapped_regions a')) = add_mset (segment_id ph) (mset (map region_id (mapped_regions a)))"
      unfolding ld'(2) by (rule id1)
    ultimately show ?thesis using e Inr x by (simp del: mset_map)
  qed
qed

lemma segments_loaded:
  assumes "owned_reach A F used ok s a" "\<forall>ph\<in>set (filter is_load phs). loadable a ph" "sorted_wrt gap (filter is_load phs)"
  shows "case load_segments A F file s a phs of
      Inl e \<Rightarrow> arch_fault A e
    | Inr (s', a') \<Rightarrow> owned_reach A F used ok s' a' \<and>
        mset (map region_id (mapped_regions a')) =
          mset (map segment_id (filter is_load phs)) + mset (map region_id (mapped_regions a))"
  using assms
proof (induction phs arbitrary: s a)
  case (Cons ph phs)
  show ?case
  proof (cases "is_load ph")
    case False
    then have "load_segment A F file s a ph = Inr (s, a)" by (simp add: load_segment_def is_load_def)
    then show ?thesis using Cons.IH [OF Cons.prems(1)] Cons.prems(2,3) False by (simp split: sum.splits prod.splits)
  next
    case True
    show ?thesis
    proof (cases "load_segment A F file s a ph")
      case (Inl f)
      then show ?thesis using segment_loaded [OF Cons.prems(1) _ True, of "file"] Cons.prems(2) True by simp
    next
      case (Inr x)
      obtain s1 a1 where x: "x = (s1, a1)" by (cases x)
      have st: "owned_reach A F used ok s1 a1"
        "mset (map region_id (mapped_regions a1)) = add_mset (segment_id ph) (mset (map region_id (mapped_regions a)))"
        "\<And>q. loadable a q \<Longrightarrow> gap ph q \<Longrightarrow> loadable a1 q"
        using segment_loaded [OF Cons.prems(1) _ True, of "file"] Cons.prems(2) True Inr x by simp_all
      have "\<forall>q\<in>set (filter is_load phs). loadable a1 q" using st(3) Cons.prems(2,3) True by simp
      from Cons.IH [OF st(1) this] Cons.prems(3) show ?thesis
        using Inr x st(2) True by (simp split: sum.splits prod.splits)
    qed
  qed
qed simp

end


section \<open>Witness\<close>

text \<open>A program with a text segment of two pages and a data segment of one.\<close>

definition demo_elf :: "u8 list" where
  "demo_elf =
    [0x7F, 0x45, 0x4C, 0x46, 2, 1, 1, 0, 0, 0, 0, 0, 0, 0, 0, 0,
     2, 0, 0x3E, 0, 1, 0, 0, 0, 0, 0, 0x40, 0, 0, 0, 0, 0,
     0x40, 0, 0, 0, 0, 0, 0, 0, 0, 0, 0, 0, 0, 0, 0, 0,
     0, 0, 0, 0, 0x40, 0, 0x38, 0, 2, 0, 0, 0, 0, 0, 0, 0,
     1, 0, 0, 0, 5, 0, 0, 0, 0, 0x10, 0, 0, 0, 0, 0, 0,
     0, 0, 0x40, 0, 0, 0, 0, 0, 0, 0, 0x40, 0, 0, 0, 0, 0,
     0, 8, 0, 0, 0, 0, 0, 0, 0, 0x18, 0, 0, 0, 0, 0, 0,
     0, 0x10, 0, 0, 0, 0, 0, 0, 1, 0, 0, 0, 6, 0, 0, 0,
     0, 0x20, 0, 0, 0, 0, 0, 0, 0, 0, 0x60, 0, 0, 0, 0, 0,
     0, 0, 0x60, 0, 0, 0, 0, 0, 0x10, 0, 0, 0, 0, 0, 0, 0,
     0, 0x10, 0, 0, 0, 0, 0, 0, 0, 0x10, 0, 0, 0, 0, 0, 0]"

definition demo_file :: mem where
  "demo_file a = (if unat a < length demo_elf then demo_elf ! unat a else 0)"

lemma demo_elf_headers:
  "elf64_check (ehdr_at demo_file 0)" "e_entry (ehdr_at demo_file 0) = 0x400000"
  by code_simp+

lemma demo_elf_phdrs:
  "elf64_phdrs demo_file 0 =
    [\<lparr>p_type = 1, p_flags = 5, p_offset = 0x1000, p_vaddr = 0x400000, p_paddr = 0x400000, p_filesz = 0x800,
      p_memsz = 0x1800, p_align = 0x1000\<rparr>,
     \<lparr>p_type = 1, p_flags = 6, p_offset = 0x2000, p_vaddr = 0x600000, p_paddr = 0x600000, p_filesz = 0x10,
      p_memsz = 0x1000, p_align = 0x1000\<rparr>]"
  by code_simp

definition demo_thread :: thread where
  "demo_thread = new_thread
     \<lparr>t_state = \<lparr>c_r15 = 0, c_r14 = 0, c_r13 = 0, c_r12 = 0, c_r11 = 0, c_r10 = 0, c_r9 = 0, c_r8 = 0, c_rdi = 0, c_rsi = 0,
        c_rbp = 0, c_rdx = 0, c_rcx = 0, c_rbx = 0, c_rax = 0, c_ss = 0x1b, c_rsp = 0, c_rflags = 0x202, c_cs = 0x13, c_rip = 0\<rparr>,
      t_vmm_ctx = 0, t_io_bitmap = []\<rparr> fresh_space (0, 0)"


end
