(* ===== verification/Initrd.thy ===== *)
theory Initrd
  imports CLib
begin

text \<open>
  The initial ramdisk of \<open>util/initrd.cpp\<close>: an archive of 512-byte blocks in memory, a header block per file followed by
  its data. A file is found by walking the headers; the walk is a \<open>partial_function\<close>, because nothing in the code
  bounds it but the archive itself.
\<close>

section \<open>Data\<close>

definition USTAR_BLOCK_SIZE :: u64 where
  "USTAR_BLOCK_SIZE = 512"

text \<open>Offsets of the fields of \<open>ustar_entry_t\<close> that the code reads.\<close>

definition ustar_name :: u64 where "ustar_name = 0"
definition ustar_size :: u64 where "ustar_size = 100 + 8 + 8 + 8"
definition ustar_signature :: u64 where "ustar_signature = 100 + 8 + 8 + 8 + 12 + 12 + 8 + 1 + 100"

record initrd =
  initrd_buf :: u64
  initrd_size :: u64

definition initrd_init :: "u64 \<Rightarrow> u64 \<Rightarrow> initrd" where
  "initrd_init buf sz = \<lparr>initrd_buf = buf, initrd_size = sz\<rparr>"

section \<open>Operations\<close>

text \<open>The loop of \<open>oct_to_dec\<close>, downwards from index \<open>i\<close>; index 0 is never read.\<close>

fun oct_loop :: "mem \<Rightarrow> u64 \<Rightarrow> nat \<Rightarrow> u64 \<Rightarrow> u64 \<Rightarrow> u64" where
  "oct_loop m s 0 integer multiplier = integer"
| "oct_loop m s (Suc i) integer multiplier =
     (let c = m (s + of_nat (Suc i))
      in if 0x30 \<le>s c \<and> c \<le>s 0x37
         then oct_loop m s i (integer + scast (c - 48) * multiplier) (multiplier * 8)
         else integer)"

definition oct_to_dec :: "mem \<Rightarrow> u64 \<Rightarrow> u64 option" where
  "oct_to_dec m s = Option.bind (strlen m s) (\<lambda>n. Some (oct_loop m s (unat (n - 1)) 0 1))"

text \<open>\<open>memcmp(entry->signature, "ustar", 5) == 0\<close>.\<close>

definition has_signature :: "mem \<Rightarrow> u64 \<Rightarrow> bool" where
  "has_signature m entry \<longleftrightarrow>
     map (\<lambda>i. m (entry + ustar_signature + of_nat i)) [0..<5] = [0x75, 0x73, 0x74, 0x61, 0x72]"

partial_function (option) find_entry :: "mem \<Rightarrow> initrd \<Rightarrow> u64 \<Rightarrow> u64 \<Rightarrow> u64 option option" where
  "find_entry m rd path block =
     (let entry = initrd_buf rd + block * USTAR_BLOCK_SIZE
      in if initrd_buf rd + initrd_size rd < entry then Some None
         else if \<not> has_signature m entry then Some None
         else Option.bind (strcmp m (entry + ustar_name) path) (\<lambda>r.
           if r = 0 then Some (Some block)
           else Option.bind (oct_to_dec m (entry + ustar_size)) (\<lambda>file_size.
             find_entry m rd path
               (block + (file_size + USTAR_BLOCK_SIZE - 1) div USTAR_BLOCK_SIZE + 1))))"

text \<open>The file is copied to \<open>dst\<close>, the block that \<open>kmalloc\<close> returned.\<close>

definition initrd_read_file :: "mem \<Rightarrow> initrd \<Rightarrow> u64 \<Rightarrow> u64 \<Rightarrow> (u64 \<times> mem) option" where
  "initrd_read_file m rd path dst =
     Option.bind (find_entry m rd path 0) (\<lambda>r.
       (case r of
          None \<Rightarrow> Some (0, m)
        | Some off \<Rightarrow>
            Option.bind (oct_to_dec m (initrd_buf rd + off * USTAR_BLOCK_SIZE + ustar_size)) (\<lambda>file_size.
              Some (file_size, memcpy m dst (initrd_buf rd + (off + 1) * USTAR_BLOCK_SIZE) file_size))))"

section \<open>Octal numbers\<close>

definition oct_value :: "u8 list \<Rightarrow> u64" where
  "oct_value ds = foldl (\<lambda>a d. a * 8 + scast (d - 48)) 0 ds"

definition is_octal :: "u8 \<Rightarrow> bool" where
  "is_octal d \<longleftrightarrow> 0x30 \<le>s d \<and> d \<le>s 0x37"

lemma oct_value_snoc: "oct_value (ds @ [d]) = oct_value ds * 8 + scast (d - 48)"
  by (simp add: oct_value_def)

lemma oct_loop_value:
  assumes "\<forall>j<length ds. m (s + 1 + of_nat j) = ds ! j" "\<forall>d\<in>set ds. is_octal d" "k \<le> length ds"
  shows "oct_loop m s k integer mul = integer + mul * oct_value (take k ds)"
  using assms(3)
proof (induction k arbitrary: integer mul)
  case 0
  then show ?case by (simp add: oct_value_def)
next
  case (Suc k)
  then have k: "k < length ds" by simp
  have c: "m (s + of_nat (Suc k)) = ds ! k" using assms(1) k by (simp add: add.assoc)
  have oc: "is_octal (ds ! k)" using assms(2) k by simp
  have "oct_loop m s (Suc k) integer mul = oct_loop m s k (integer + scast (ds ! k - 48) * mul) (mul * 8)"
    using c oc by (simp add: is_octal_def Let_def)
  also have "\<dots> = integer + scast (ds ! k - 48) * mul + mul * 8 * oct_value (take k ds)"
    using Suc by simp
  also have "\<dots> = integer + mul * oct_value (take (Suc k) ds)"
    using k by (simp add: take_Suc_conv_app_nth oct_value_snoc algebra_simps)
  finally show ?case .
qed

lemma oct_to_dec_cstr:
  assumes "cstr m s (d # ds)" "\<forall>x\<in>set ds. is_octal x" "length ds < 2 ^ 63"
  shows "oct_to_dec m s = Some (oct_value ds)"
proof -
  have n: "strlen m s = Some (of_nat (length (d # ds)))" by (rule strlen_cstr [OF assms(1)])
  have "of_nat (length (d # ds)) - 1 = (of_nat (length ds) :: u64)" by simp
  then have u: "unat (of_nat (length (d # ds)) - 1 :: u64) = length ds" using assms(3) by (simp add: unat_of_nat)
  have "\<forall>j<length ds. m (s + 1 + of_nat j) = ds ! j" using assms(1) cstr_iff [of m "s + 1" ds] by simp
  from oct_loop_value [OF this assms(2) order_refl, of 0 1] show ?thesis using n u by (simp add: oct_to_dec_def)
qed

text \<open>\<open>oct_to_dec\<close> skips the first character: on a string of octal digits it returns the number that all digits but the first
  stand for. A size is read correctly when its first digit is 0.\<close>

theorem oct_to_dec_value:
  assumes "cstr m s (d # ds)" "\<forall>x\<in>set ds. is_octal x" "length ds < 2 ^ 63"
  shows "oct_to_dec m s = Some (oct_value ds) \<and> (d = 0x30 \<longrightarrow> oct_to_dec m s = Some (oct_value (d # ds)))"
  using oct_to_dec_cstr [OF assms] by (simp add: oct_value_def)

section \<open>Archives\<close>

text \<open>An archive in memory from a block on: for each file a header with its name and its size in octal, inside the ramdisk, and
  the data in the following blocks; then a place where the walk stops.\<close>

definition data_blocks :: "u8 list \<Rightarrow> u64" where
  "data_blocks data = (of_nat (length data) + USTAR_BLOCK_SIZE - 1) div USTAR_BLOCK_SIZE"

fun archive :: "mem \<Rightarrow> initrd \<Rightarrow> u64 \<Rightarrow> (u8 list \<times> u8 list \<times> u8 list) list \<Rightarrow> bool" where
  "archive m rd block [] \<longleftrightarrow>
     initrd_buf rd + initrd_size rd < initrd_buf rd + block * USTAR_BLOCK_SIZE \<or>
     \<not> has_signature m (initrd_buf rd + block * USTAR_BLOCK_SIZE)"
| "archive m rd block ((name, digits, data) # files) \<longleftrightarrow>
     (let entry = initrd_buf rd + block * USTAR_BLOCK_SIZE
      in entry \<le> initrd_buf rd + initrd_size rd \<and> has_signature m entry \<and> cstr m (entry + ustar_name) name \<and>
         cstr m (entry + ustar_size) (0x30 # digits) \<and> (\<forall>x\<in>set digits. is_octal x) \<and> length digits < 12 \<and>
         oct_value digits = of_nat (length data) \<and>
         (\<forall>i<length data. m (entry + USTAR_BLOCK_SIZE + of_nat i) = data ! i) \<and>
         archive m rd (block + data_blocks data + 1) files)"

lemma find_entry_archive:
  assumes "archive m rd block files" "cstr m path p"
  shows "case find (\<lambda>f. fst f = p) files of
      None \<Rightarrow> find_entry m rd path block = Some None
    | Some (name, digits, data) \<Rightarrow> \<exists>b. find_entry m rd path block = Some (Some b) \<and>
        oct_to_dec m (initrd_buf rd + b * USTAR_BLOCK_SIZE + ustar_size) = Some (of_nat (length data)) \<and>
        (\<forall>i<length data. m (initrd_buf rd + (b + 1) * USTAR_BLOCK_SIZE + of_nat i) = data ! i)"
  using assms
proof (induction m rd block files rule: archive.induct)
  case (1 m rd block)
  then show ?case by (subst find_entry.simps) (auto simp: Let_def)
next
  case (2 m rd block name digits data files)
  let ?e = "initrd_buf rd + block * USTAR_BLOCK_SIZE"
  have e: "\<not> initrd_buf rd + initrd_size rd < ?e" "has_signature m ?e" "cstr m (?e + ustar_name) name"
    "cstr m (?e + ustar_size) (0x30 # digits)" "\<forall>x\<in>set digits. is_octal x" "length digits < 12"
    "oct_value digits = of_nat (length data)" "\<forall>i<length data. m (?e + USTAR_BLOCK_SIZE + of_nat i) = data ! i"
    "archive m rd (block + data_blocks data + 1) files"
    using 2(2) by (simp_all add: Let_def not_less)
  have sz: "oct_to_dec m (?e + ustar_size) = Some (of_nat (length data))"
    using oct_to_dec_cstr [OF e(4,5)] e(6,7) by simp
  obtain r where r: "strcmp m (?e + ustar_name) path = Some r" "r = 0 \<longleftrightarrow> name = p"
    using strcmp_cstr [OF e(3) 2(3)] by blast
  show ?case
  proof (cases "name = p")
    case True
    then have "find_entry m rd path block = Some (Some block)"
      using e(1,2) r by (subst find_entry.simps) (simp add: Let_def)
    then show ?thesis using True sz e(8) by (simp add: algebra_simps)
  next
    case False
    then have "find_entry m rd path block = find_entry m rd path (block + data_blocks data + 1)"
      using e(1,2) r sz by (subst find_entry.simps) (simp add: Let_def data_blocks_def)
    then show ?thesis using False 2(1) [OF refl e(9) 2(3)] by (auto split: option.splits)
  qed
qed

text \<open>C28. Reading a file from a well-formed archive: the walk ends, the result is 0 and nothing is written exactly when no file
  has the name (or the file is empty), and otherwise the data of the first file with the name is copied to the
  destination.\<close>

theorem initrd_reads_file:
  assumes "archive m rd 0 files" "cstr m path p"
  shows "\<exists>n m'. initrd_read_file m rd path dst = Some (n, m') \<and>
    (case find (\<lambda>f. fst f = p) files of
       None \<Rightarrow> n = 0 \<and> m' = m
     | Some (name, digits, data) \<Rightarrow> n = of_nat (length data) \<and>
         (\<exists>src. m' = memcpy m dst src n \<and> (\<forall>i<length data. m (src + of_nat i) = data ! i)))"
proof (cases "find (\<lambda>f. fst f = p) files")
  case None
  then show ?thesis using find_entry_archive [OF assms] by (simp add: initrd_read_file_def)
next
  case (Some f)
  obtain name digits data where f: "f = (name, digits, data)" by (cases f) auto
  obtain b where b: "find_entry m rd path 0 = Some (Some b)"
    "oct_to_dec m (initrd_buf rd + b * USTAR_BLOCK_SIZE + ustar_size) = Some (of_nat (length data))"
    "\<forall>i<length data. m (initrd_buf rd + (b + 1) * USTAR_BLOCK_SIZE + of_nat i) = data ! i"
    using find_entry_archive [OF assms] Some f by auto
  then show ?thesis using Some f by (auto simp: initrd_read_file_def)
qed

section \<open>A small archive\<close>

text \<open>One file, named \<open>a\<close>, of three bytes, at address 0x1000; the name to look for is at address 0.\<close>

definition demo_initrd :: mem where
  "demo_initrd = (\<lambda>_. 0)
     (0 := 0x61,
      0x1000 := 0x61,
      0x107C := 0x30, 0x107D := 0x30, 0x107E := 0x33,
      0x1101 := 0x75, 0x1102 := 0x73, 0x1103 := 0x74, 0x1104 := 0x61, 0x1105 := 0x72,
      0x1200 := 0x78, 0x1201 := 0x79, 0x1202 := 0x7A)"

lemma demo_archive:
  "archive demo_initrd (initrd_init 0x1000 0x400) 0 [([0x61], [0x30, 0x33], [0x78, 0x79, 0x7A])]"
  by (simp add: demo_initrd_def initrd_init_def USTAR_BLOCK_SIZE_def has_signature_def ustar_name_def ustar_size_def
      ustar_signature_def is_octal_def oct_value_def data_blocks_def Let_def upt_rec less_Suc_eq numeral_3_eq_3)

theorem oct_to_dec_value_witness: "oct_to_dec demo_initrd 0x107C = Some 3"
proof -
  have "cstr demo_initrd 0x107C [0x30, 0x30, 0x33]" by (simp add: demo_initrd_def)
  from oct_to_dec_value [OF this] show ?thesis by (simp add: is_octal_def oct_value_def)
qed

theorem initrd_reads_file_witness:
  "\<exists>m' src. initrd_read_file demo_initrd (initrd_init 0x1000 0x400) 0 0x8000 = Some (3, m') \<and>
     m' = memcpy demo_initrd 0x8000 src 3 \<and> demo_initrd src = 0x78"
proof -
  have "cstr demo_initrd 0 [0x61]" by (simp add: demo_initrd_def)
  from initrd_reads_file [OF demo_archive this, of "0x8000"] show ?thesis by fastforce
qed

end
