(* ===== verification/Objects.thy ===== *)
theory Objects
  imports Frg Spinlock
begin

text \<open>
  Kernel objects: \<open>object/object.h\<close>, \<open>object/group.cpp\<close>, \<open>object/ipc_queue.cpp\<close> and \<open>proc/groups.h\<close>.
  Objects live in a heap, a list of slots: a pointer to an object is its slot, the null pointer is \<open>None\<close>, and
  deleting an object empties its slot for good, so that a use of a dangling pointer is seen.
\<close>

section \<open>Data\<close>

datatype object_type = type_none | type_object_group | type_ipc_queue

type_synonym obj_ref = "nat option"

record message =
  msg_data :: u64
  msg_size :: u64
  msg_sender :: u64

record ipc_queue =
  q_parent :: obj_ref
  q_has_new :: bool
  q_n_messages :: u64
  q_buffer :: "message option list"
  q_enqueue :: u64
  q_dequeue :: u64

record object_group =
  g_parent :: obj_ref
  g_objects :: "u64 \<rightharpoonup> obj_ref"
  g_members :: "u64 \<rightharpoonup> bool"
  g_next_id :: u64
  g_lock :: bool
  g_dont_lock :: bool

datatype base_object = Group object_group | Queue ipc_queue

type_synonym obj_heap = "base_object option list"

record locked_group =
  lg_grp :: obj_ref
  lg_lock :: bool

text \<open>The containers: the vector of message pointers, the two maps of a group with the iteration over the first, and the map
  of all groups.\<close>

record obj_frg =
  buf_vector :: "message option frg_vector_ops"
  obj_map :: "(u64, obj_ref) frg_map_ops"
  obj_iter :: "(u64 \<rightharpoonup> obj_ref) \<Rightarrow> obj_ref list"
  member_map :: "(u64, bool) frg_map_ops"
  group_map :: "(u64, locked_group) frg_map_ops"

section \<open>Message queues\<close>

definition new_ipc_queue :: "obj_ref \<Rightarrow> ipc_queue" where
  "new_ipc_queue parent =
     \<lparr>q_parent = parent, q_has_new = False, q_n_messages = 0, q_buffer = [], q_enqueue = 0, q_dequeue = 0\<rparr>"

definition send :: "obj_frg \<Rightarrow> ipc_queue \<Rightarrow> message \<Rightarrow> ipc_queue result" where
  "send F q m =
     (let buf = (if of_nat (length (q_buffer q)) = q_n_messages q
                 then fv_push_back (buf_vector F) (q_buffer q) None else q_buffer q);
          e = q_enqueue q
      in if length buf \<le> unat e then Inl OutOfBounds
         else kassert (buf ! unat e = None)
           (let buf = buf[unat e := Some m];
                e = e + 1;
                e = (if of_nat (length buf) \<le> e then 0 else e)
            in Inr (q\<lparr>q_buffer := buf, q_enqueue := e, q_has_new := True,
                      q_n_messages := q_n_messages q + 1\<rparr>)))"

definition peek :: "ipc_queue \<Rightarrow> message result" where
  "peek q =
     (let d = unat (q_dequeue q)
      in if length (q_buffer q) \<le> d then Inl OutOfBounds
         else (case q_buffer q ! d of None \<Rightarrow> Inl AssertFailed | Some m \<Rightarrow> Inr m))"

definition pop :: "ipc_queue \<Rightarrow> (message \<times> ipc_queue) result" where
  "pop q =
     (let d = unat (q_dequeue q)
      in if length (q_buffer q) \<le> d then Inl OutOfBounds
         else (case q_buffer q ! d of
                 None \<Rightarrow> Inl AssertFailed
               | Some m \<Rightarrow> Inr (m, q\<lparr>q_buffer := (q_buffer q)[d := None], q_n_messages := q_n_messages q - 1\<rparr>)))"

definition has_new :: "ipc_queue \<Rightarrow> bool \<times> ipc_queue" where
  "has_new q = (q_has_new q, q\<lparr>q_has_new := False\<rparr>)"

definition get_queue_size :: "ipc_queue \<Rightarrow> u64" where
  "get_queue_size q = q_n_messages q"

section \<open>The object heap\<close>

definition get_obj :: "obj_heap \<Rightarrow> obj_ref \<Rightarrow> base_object result" where
  "get_obj h p =
     (case p of
        None \<Rightarrow> Inl NullDeref
      | Some i \<Rightarrow>
          if length h \<le> i then Inl UseAfterFree
          else (case h ! i of None \<Rightarrow> Inl UseAfterFree | Some x \<Rightarrow> Inr x))"

definition put_obj :: "obj_heap \<Rightarrow> obj_ref \<Rightarrow> base_object \<Rightarrow> obj_heap" where
  "put_obj h p x = (case p of None \<Rightarrow> h | Some i \<Rightarrow> h[i := Some x])"

definition new_obj :: "obj_heap \<Rightarrow> base_object \<Rightarrow> obj_ref \<times> obj_heap" where
  "new_obj h x = (Some (length h), h @ [Some x])"

definition obj_type :: "base_object \<Rightarrow> object_type" where
  "obj_type x = (case x of Group _ \<Rightarrow> type_object_group | Queue _ \<Rightarrow> type_ipc_queue)"

definition obj_parent :: "base_object \<Rightarrow> obj_ref" where
  "obj_parent x = (case x of Group g \<Rightarrow> g_parent g | Queue q \<Rightarrow> q_parent q)"

definition set_parent :: "obj_heap \<Rightarrow> obj_ref \<Rightarrow> obj_ref \<Rightarrow> obj_heap result" where
  "set_parent h p parent =
     and_then (get_obj h p) (\<lambda>x.
       Inr (put_obj h p
         (case x of Group g \<Rightarrow> Group (g\<lparr>g_parent := parent\<rparr>) | Queue q \<Rightarrow> Queue (q\<lparr>q_parent := parent\<rparr>))))"

definition get_group :: "obj_heap \<Rightarrow> obj_ref \<Rightarrow> object_group result" where
  "get_group h p = and_then (get_obj h p) (\<lambda>x. case x of Group g \<Rightarrow> Inr g | Queue q \<Rightarrow> Inl UseAfterFree)"

text \<open>Deleting objects: the destructor of a group deletes the objects in it, in iteration order. The slot is emptied
  before its members are visited, so that a group that contains itself is reported as a double delete.\<close>

definition live_objs :: "obj_heap \<Rightarrow> nat" where
  "live_objs h = length (filter (\<lambda>x. x \<noteq> None) h)"

lemma live_objs_delete: "i < length h \<Longrightarrow> h ! i \<noteq> None \<Longrightarrow> live_objs (h[i := None]) < live_objs h"
proof (induction h arbitrary: i)
  case (Cons x h)
  then show ?case by (cases i) (auto simp: live_objs_def)
qed simp

function delete_objects ::
  "((u64 \<rightharpoonup> obj_ref) \<Rightarrow> obj_ref list) \<Rightarrow> obj_heap \<Rightarrow> obj_ref list \<Rightarrow> obj_heap result" where
  "delete_objects it h [] = Inr h"
| "delete_objects it h (None # ps) = delete_objects it h ps"
| "delete_objects it h (Some i # ps) =
     (if length h \<le> i then Inl UseAfterFree
      else (case h ! i of
              None \<Rightarrow> Inl UseAfterFree
            | Some (Queue q) \<Rightarrow> delete_objects it (h[i := None]) ps
            | Some (Group g) \<Rightarrow> delete_objects it (h[i := None]) (it (g_objects g) @ ps)))"
  by pat_completeness auto
termination
  by (relation "measures [\<lambda>(it, h, ps). live_objs h, \<lambda>(it, h, ps). length ps]")
     (simp_all add: live_objs_delete)

section \<open>Object groups\<close>

text \<open>The constructor leaves \<open>_dont_lock\<close> as the memory had it.\<close>

definition new_object_group :: "bool \<Rightarrow> obj_ref \<Rightarrow> object_group" where
  "new_object_group garbage parent =
     \<lparr>g_parent = parent, g_objects = Map.empty, g_members = Map.empty, g_next_id = 0, g_lock = False,
      g_dont_lock = garbage\<rparr>"

definition group_lock :: "object_group \<Rightarrow> object_group result" where
  "group_lock g = (if \<not> g_dont_lock g then and_then (spin_lock (g_lock g)) (\<lambda>l. Inr (g\<lparr>g_lock := l\<rparr>)) else Inr g)"

definition group_unlock :: "object_group \<Rightarrow> object_group" where
  "group_unlock g = (if \<not> g_dont_lock g then g\<lparr>g_lock := spin_unlock (g_lock g)\<rparr> else g)"

definition add_object :: "obj_frg \<Rightarrow> obj_ref \<Rightarrow> obj_ref \<Rightarrow> obj_heap \<Rightarrow> (u64 \<times> obj_heap) result" where
  "add_object F this obj h =
     and_then (get_group h this) (\<lambda>g.
     and_then (group_lock g) (\<lambda>g.
       let hnd = g_next_id g;
           g = g\<lparr>g_next_id := hnd + 1, g_objects := (snd (fm_index (obj_map F) (g_objects g) hnd))(hnd \<mapsto> obj)\<rparr>
       in and_then (set_parent (put_obj h this (Group g)) obj this) (\<lambda>h.
          and_then (get_group h this) (\<lambda>g.
            Inr (hnd, put_obj h this (Group (group_unlock g)))))))"

definition remove_object :: "obj_frg \<Rightarrow> obj_ref \<Rightarrow> u64 \<Rightarrow> obj_heap \<Rightarrow> obj_heap result" where
  "remove_object F this hnd h =
     and_then (get_group h this) (\<lambda>g.
     and_then (group_lock g) (\<lambda>g.
       let (item, objs) = fm_remove (obj_map F) (g_objects g) hnd;
           h = put_obj h this (Group (g\<lparr>g_objects := objs\<rparr>))
       in (case item of
             None \<Rightarrow> Inl AssertFailed
           | Some p \<Rightarrow>
               and_then (delete_objects (obj_iter F) h [p]) (\<lambda>h.
               and_then (get_group h this) (\<lambda>g.
                 Inr (put_obj h this (Group (group_unlock g))))))))"

definition get_object :: "obj_frg \<Rightarrow> obj_ref \<Rightarrow> u64 \<Rightarrow> obj_heap \<Rightarrow> (obj_ref \<times> obj_heap) result" where
  "get_object F this hnd h =
     and_then (get_group h this) (\<lambda>g.
       let (p, objs) = fm_index (obj_map F) (g_objects g) hnd
       in Inr (p, put_obj h this (Group (g\<lparr>g_objects := objs\<rparr>))))"

definition check_membership :: "obj_frg \<Rightarrow> obj_ref \<Rightarrow> u64 \<Rightarrow> obj_heap \<Rightarrow> (bool \<times> obj_heap) result" where
  "check_membership F this t h =
     and_then (get_group h this) (\<lambda>g.
       let (b, ms) = fm_index (member_map F) (g_members g) t
       in Inr (b, put_obj h this (Group (g\<lparr>g_members := ms\<rparr>))))"

definition set_member :: "obj_frg \<Rightarrow> obj_ref \<Rightarrow> u64 \<Rightarrow> bool \<Rightarrow> obj_heap \<Rightarrow> obj_heap result" where
  "set_member F this t b h =
     and_then (get_group h this) (\<lambda>g.
     and_then (group_lock g) (\<lambda>g.
       let g = g\<lparr>g_members := (snd (fm_index (member_map F) (g_members g) t))(t \<mapsto> b)\<rparr>
       in Inr (put_obj h this (Group (group_unlock g)))))"

definition add_member :: "obj_frg \<Rightarrow> obj_ref \<Rightarrow> u64 \<Rightarrow> obj_heap \<Rightarrow> obj_heap result" where
  "add_member F this t h = set_member F this t True h"

definition remove_member :: "obj_frg \<Rightarrow> obj_ref \<Rightarrow> u64 \<Rightarrow> obj_heap \<Rightarrow> obj_heap result" where
  "remove_member F this t h = set_member F this t False h"

text \<open>Both versions of the template, for functions with a result and without one (a unit result).\<close>

definition check_membership_and ::
  "obj_frg \<Rightarrow> obj_ref \<Rightarrow> u64 \<Rightarrow> (obj_heap \<Rightarrow> ('r \<times> obj_heap) result) \<Rightarrow> obj_heap \<Rightarrow>
   ('r option \<times> obj_heap) result" where
  "check_membership_and F this t func h =
     and_then (get_group h this) (\<lambda>g.
     and_then (spin_lock (g_lock g)) (\<lambda>l.
       let (b, ms) = fm_index (member_map F) (g_members g) t;
           g = g\<lparr>g_lock := l, g_members := ms\<rparr>
       in if \<not> b then Inr (None, put_obj h this (Group (g\<lparr>g_lock := spin_unlock (g_lock g)\<rparr>)))
          else and_then (func (put_obj h this (Group (g\<lparr>g_dont_lock := True\<rparr>)))) (\<lambda>(r, h).
               and_then (get_group h this) (\<lambda>g.
                 Inr (Some r, put_obj h this
                   (Group (g\<lparr>g_dont_lock := False, g_lock := spin_unlock (g_lock g)\<rparr>)))))))"

section \<open>All groups\<close>

record object_groups =
  og_groups :: "u64 \<rightharpoonup> locked_group"
  og_next_id :: u64
  og_lock :: bool
  og_heap :: obj_heap

definition new_object_groups :: "obj_heap \<Rightarrow> object_groups" where
  "new_object_groups h = \<lparr>og_groups = Map.empty, og_next_id = 0, og_lock = False, og_heap = h\<rparr>"

definition groups_check_membership_and ::
  "obj_frg \<Rightarrow> u64 \<Rightarrow> u64 \<Rightarrow> (obj_ref \<Rightarrow> obj_heap \<Rightarrow> ('r \<times> obj_heap) result) \<Rightarrow> object_groups \<Rightarrow>
   ('r option \<times> object_groups) result" where
  "groups_check_membership_and F t gid func s =
     (case og_groups s gid of
        None \<Rightarrow> Inl AssertFailed
      | Some lg \<Rightarrow>
          and_then (spin_lock (lg_lock lg)) (\<lambda>l.
            kassert (lg_grp lg \<noteq> None)
              (and_then (check_membership_and F (lg_grp lg) t (func (lg_grp lg)) (og_heap s)) (\<lambda>(r, h).
                 Inr (r, s\<lparr>og_heap := h, og_groups := (og_groups s)(gid \<mapsto> lg\<lparr>lg_lock := spin_unlock l\<rparr>)\<rparr>)))))"

definition new_group :: "obj_frg \<Rightarrow> bool \<Rightarrow> u64 \<Rightarrow> object_groups \<Rightarrow> (u64 \<times> object_groups) result" where
  "new_group F garbage t s =
     and_then (spin_lock (og_lock s)) (\<lambda>l.
       let gid = og_next_id s;
           (p, h) = new_obj (og_heap s) (Group (new_object_group garbage None));
           gs = fm_insert (group_map F) (og_groups s) gid \<lparr>lg_grp = p, lg_lock = False\<rparr>;
           (lg, gs) = fm_index (group_map F) gs gid
       in and_then (add_member F (lg_grp lg) t h) (\<lambda>h.
            Inr (gid, \<lparr>og_groups = gs, og_next_id = gid + 1, og_lock = spin_unlock l, og_heap = h\<rparr>)))"

definition remove_group :: "obj_frg \<Rightarrow> u64 \<Rightarrow> u64 \<Rightarrow> object_groups \<Rightarrow> (bool \<times> object_groups) result" where
  "remove_group F t gid s =
     and_then (spin_lock (og_lock s)) (\<lambda>_.
       (case og_groups s gid of
          None \<Rightarrow> Inr (False, s)
        | Some lg \<Rightarrow>
            and_then (spin_lock (lg_lock lg)) (\<lambda>_.
              if lg_grp lg = None then Inr (False, s)
              else
                and_then (check_membership F (lg_grp lg) t (og_heap s)) (\<lambda>(b, h).
                  if \<not> b then Inr (False, s\<lparr>og_heap := h\<rparr>)
                  else
                    let (lg', gs) = fm_index (group_map F) (og_groups s) gid
                    in and_then (delete_objects (obj_iter F) h [lg_grp lg']) (\<lambda>h.
                         Inr (True, s\<lparr>og_groups := gs, og_heap := h\<rparr>))))))"

section \<open>The contract of the containers\<close>

locale obj_containers =
  bv: frg_vector "buf_vector F" None + om: frg_map "obj_map F" None + mm: frg_map "member_map F" False +
  gm: frg_map "group_map F" "\<lparr>lg_grp = None, lg_lock = False\<rparr>"
  for F :: obj_frg +
  assumes iter_values: "finite (dom m) \<Longrightarrow> set (obj_iter F m) = ran m"

definition ref_obj :: obj_frg where
  "ref_obj = \<lparr>buf_vector = ref_vector None, obj_map = ref_map None,
     obj_iter = (\<lambda>m. map (\<lambda>k. the (m k)) (sorted_list_of_set (dom m))),
     member_map = ref_map False, group_map = ref_map \<lparr>lg_grp = None, lg_lock = False\<rparr>\<rparr>"

interpretation refobj: obj_containers ref_obj
proof
  show "set (obj_iter ref_obj m) = ran m" if "finite (dom m)" for m
    using that by (force simp: ref_obj_def ran_def image_def dom_def)
qed (simp_all add: ref_obj_def refvec.vec_push_back refvec.vec_resize refmap.index_present refmap.index_missing
      refmap.insert_entry refmap.remove_entry)

section \<open>A message queue is a mailbox for one message\<close>

datatype ipc_op = Send message | Peek | Pop | HasNew | QueueSize

datatype ipc_out = Done | Msg message | Flag bool | Num u64

fun ipc_step :: "obj_frg \<Rightarrow> ipc_queue \<Rightarrow> ipc_op \<Rightarrow> (ipc_out \<times> ipc_queue) result" where
  "ipc_step F q (Send m) = and_then (send F q m) (\<lambda>q. Inr (Done, q))"
| "ipc_step F q Peek = and_then (peek q) (\<lambda>m. Inr (Msg m, q))"
| "ipc_step F q Pop = and_then (pop q) (\<lambda>(m, q). Inr (Msg m, q))"
| "ipc_step F q HasNew = (let (b, q) = has_new q in Inr (Flag b, q))"
| "ipc_step F q QueueSize = Inr (Num (get_queue_size q), q)"

fun ipc_run :: "obj_frg \<Rightarrow> ipc_queue \<Rightarrow> ipc_op list \<Rightarrow> (ipc_out list \<times> ipc_queue) result" where
  "ipc_run F q [] = Inr ([], q)"
| "ipc_run F q (x # xs) =
     and_then (ipc_step F q x) (\<lambda>(y, q). and_then (ipc_run F q xs) (\<lambda>(ys, q). Inr (y # ys, q)))"

text \<open>The specification: a slot for one message and the flag; \<open>None\<close> where the kernel halts.\<close>

fun mailbox_step :: "message option \<times> bool \<Rightarrow> ipc_op \<Rightarrow> (ipc_out \<times> message option \<times> bool) option" where
  "mailbox_step (None, n) (Send m) = Some (Done, Some m, True)"
| "mailbox_step (Some x, n) (Send m) = None"
| "mailbox_step (None, n) Peek = None"
| "mailbox_step (Some x, n) Peek = Some (Msg x, Some x, n)"
| "mailbox_step (None, n) Pop = None"
| "mailbox_step (Some x, n) Pop = Some (Msg x, None, n)"
| "mailbox_step (x, n) HasNew = Some (Flag n, x, False)"
| "mailbox_step (x, n) QueueSize = Some (Num (if x = None then 0 else 1), x, n)"

fun mailbox_run :: "message option \<times> bool \<Rightarrow> ipc_op list \<Rightarrow> ipc_out list option" where
  "mailbox_run s [] = Some []"
| "mailbox_run s (x # xs) =
     (case mailbox_step s x of
        None \<Rightarrow> None
      | Some (y, s) \<Rightarrow> map_option ((#) y) (mailbox_run s xs))"

text \<open>The queue in memory stands for a mailbox.\<close>

fun mailbox_rel :: "ipc_queue \<Rightarrow> message option \<times> bool \<Rightarrow> bool" where
  "mailbox_rel q (x, n) \<longleftrightarrow>
     q_enqueue q = 0 \<and> q_dequeue q = 0 \<and> q_has_new q = n \<and> q_n_messages q = (if x = None then 0 else 1) \<and>
     (q_buffer q = [x] \<or> q_buffer q = [] \<and> x = None)"

lemma mailbox_rel_new: "mailbox_rel (new_ipc_queue p) (None, False)"
  by (simp add: new_ipc_queue_def)

context obj_containers
begin

lemma mailbox_send:
  assumes "mailbox_rel q (x, n)"
  shows "case send F q m of Inl _ \<Rightarrow> x \<noteq> None | Inr q' \<Rightarrow> x = None \<and> mailbox_rel q' (Some m, True)"
  using assms by (cases x) (auto simp: send_def Let_def bv.vec_push_back kassert_def)

lemma mailbox_pop:
  assumes "mailbox_rel q (x, n)"
  shows "case pop q of Inl _ \<Rightarrow> x = None | Inr (m, q') \<Rightarrow> x = Some m \<and> mailbox_rel q' (None, n)"
  using assms by (cases x) (auto simp: pop_def Let_def)

lemma mailbox_peek:
  assumes "mailbox_rel q (x, n)"
  shows "case peek q of Inl _ \<Rightarrow> x = None | Inr m \<Rightarrow> x = Some m"
  using assms by (cases x) (auto simp: peek_def Let_def)

lemma mailbox_simulation:
  assumes "mailbox_rel q s"
  shows "case ipc_step F q op of
           Inl _ \<Rightarrow> mailbox_step s op = None
         | Inr (y, q') \<Rightarrow> \<exists>s'. mailbox_step s op = Some (y, s') \<and> mailbox_rel q' s'"
proof -
  obtain x n where s: "s = (x, n)" by fastforce
  show ?thesis
  proof (cases op)
    case (Send m)
    then show ?thesis using mailbox_send [of q x n m] assms s by (auto split: sum.splits)
  next
    case Peek
    then show ?thesis using mailbox_peek [of q x n] assms s by (auto split: sum.splits)
  next
    case Pop
    then show ?thesis using mailbox_pop [of q x n] assms s by (auto split: sum.splits)
  next
    case HasNew
    then show ?thesis using assms s by (simp add: has_new_def)
  next
    case QueueSize
    then show ?thesis using assms s by (simp add: get_queue_size_def)
  qed
qed

lemma mailbox_runs:
  assumes "mailbox_rel q s"
  shows "(case ipc_run F q ops of Inl _ \<Rightarrow> None | Inr (ys, _) \<Rightarrow> Some ys) = mailbox_run s ops"
  using assms
proof (induction ops arbitrary: q s)
  case (Cons op ops)
  note sim = mailbox_simulation [OF Cons.prems, of op]
  show ?case
  proof (cases "ipc_step F q op")
    case (Inl e)
    then show ?thesis using sim by simp
  next
    case (Inr yq)
    obtain y q' where yq: "yq = (y, q')" by fastforce
    then obtain s' where s': "mailbox_step s op = Some (y, s')" "mailbox_rel q' s'" using sim Inr by auto
    have "(case ipc_run F q (op # ops) of Inl _ \<Rightarrow> None | Inr (ys, _) \<Rightarrow> Some ys) =
        map_option ((#) y) (case ipc_run F q' ops of Inl _ \<Rightarrow> None | Inr (ys, _) \<Rightarrow> Some ys)"
      using Inr yq by (cases "ipc_run F q' ops") auto
    then show ?thesis using Cons.IH [OF s'(2)] s' by simp
  qed
qed simp

end

text \<open>C20. A message queue behaves as a mailbox with room for one message, for every sequence of its operations: a second
  \<open>send\<close> before a \<open>pop\<close> halts the kernel, as does \<open>peek\<close> or \<open>pop\<close> on an empty queue, and otherwise \<open>pop\<close> returns the
  message sent last.\<close>

theorem ipc_queue_mailbox:
  assumes "obj_containers F"
  shows "(case ipc_run F (new_ipc_queue parent) ops of Inl _ \<Rightarrow> None | Inr (ys, _) \<Rightarrow> Some ys) =
         mailbox_run (None, False) ops"
  by (rule obj_containers.mailbox_runs [OF assms mailbox_rel_new])

theorem ipc_queue_mailbox_witness:
  "let m = \<lparr>msg_data = 0x1000, msg_size = 4, msg_sender = 7\<rparr>;
       ops = [Send m, QueueSize, HasNew, Pop, HasNew, Send m, Peek]
   in (case ipc_run ref_obj (new_ipc_queue None) ops of Inl _ \<Rightarrow> None | Inr (ys, _) \<Rightarrow> Some ys) =
        Some [Done, Num 1, Flag True, Msg m, Flag False, Done, Msg m] \<and>
      (case ipc_run ref_obj (new_ipc_queue None) [Send m, Send m] of Inl _ \<Rightarrow> None | Inr (ys, _) \<Rightarrow> Some ys) = None"
  unfolding Let_def
  by (simp only: ipc_queue_mailbox [OF refobj.obj_containers_axioms]) simp

section \<open>The heap of objects\<close>

lemma get_obj_put:
  assumes "get_obj h p = Inr x"
  shows "get_obj (put_obj h p y) q = (if q = p then Inr y else get_obj h q)"
  using assms by (auto simp: get_obj_def put_obj_def split: option.splits if_splits)

lemma get_group_iff: "get_group h p = Inr g \<longleftrightarrow> get_obj h p = Inr (Group g)"
  by (cases "get_obj h p") (auto simp: get_group_def split: base_object.split)

lemma get_group_put:
  assumes "get_group h p = Inr g"
  shows "get_group (put_obj h p (Group g')) p = Inr g'"
    "q \<noteq> p \<Longrightarrow> get_obj (put_obj h p (Group g')) q = get_obj h q"
  using assms by (simp_all add: get_group_iff get_obj_put [where x = "Group g"])

lemma get_obj_put_group:
  "get_group h p = Inr g \<Longrightarrow> get_obj (put_obj h p y) q = (if q = p then Inr y else get_obj h q)"
  by (simp add: get_group_iff get_obj_put)

lemma put_obj_put [simp]: "put_obj (put_obj h p x) p y = put_obj h p y"
  by (simp add: put_obj_def split: option.split)

lemma delete_objects_None:
  "delete_objects it h ps = Inr h' \<Longrightarrow> i < length h \<Longrightarrow> h ! i = None \<Longrightarrow> h' ! i = None"
proof (induction it h ps rule: delete_objects.induct)
  case (3 it h j ps)
  then show ?case
    by (cases "i = j") (auto split: if_splits option.splits base_object.splits)
qed simp_all

lemma delete_objects_length: "delete_objects it h ps = Inr h' \<Longrightarrow> length h' = length h"
  by (induction it h ps rule: delete_objects.induct) (auto split: if_splits option.splits base_object.splits)

lemma delete_objects_gone:
  "delete_objects it h ps = Inr h' \<Longrightarrow> Some i \<in> set ps \<Longrightarrow> i < length h' \<and> h' ! i = None"
proof (induction it h ps rule: delete_objects.induct)
  case (3 it h j ps)
  have j: "j < length h" using 3(3) by (auto split: if_splits)
  show ?case
  proof (cases "i = j")
    case True
    have "\<exists>qs. delete_objects it (h[j := None]) qs = Inr h'"
      using 3(3) by (auto split: if_splits option.splits base_object.splits)
    then show ?thesis using delete_objects_None delete_objects_length True j by fastforce
  next
    case False
    then show ?thesis using 3 by (auto split: if_splits option.splits base_object.splits)
  qed
qed simp_all

text \<open>Whatever a deleted group held is deleted with it.\<close>

lemma delete_group_members:
  assumes "delete_objects it h [p] = Inr h'" "get_group h p = Inr g" "Some i \<in> set (it (g_objects g))"
  shows "i < length h' \<and> h' ! i = None"
proof -
  obtain j where j: "p = Some j" "j < length h" "h ! j = Some (Group g)"
    using assms(2) by (auto simp: get_group_iff get_obj_def split: option.splits if_splits)
  then have "delete_objects it (h[j := None]) (it (g_objects g)) = Inr h'" using assms(1) by simp
  then show ?thesis using delete_objects_gone assms(3) by blast
qed

lemma deleted_get_obj: "i < length h \<Longrightarrow> h ! i = None \<Longrightarrow> get_obj h (Some i) = Inl UseAfterFree"
  by (simp add: get_obj_def)

section \<open>What groups promise\<close>


text \<open>A thread that is not a member of a group gets nothing done in it, whatever it asks for: the call answers
  with nothing, and all that changes is that the group remembers the thread as a non-member.\<close>

theorem only_members_act:
  assumes "obj_containers F" "get_group h this = Inr g" "\<not> g_lock g" "g_members g t \<noteq> Some True"
  shows "check_membership_and F this t func h =
    Inr (None, put_obj h this (Group (g\<lparr>g_members := (g_members g)(t \<mapsto> False)\<rparr>)))"
proof -
  have "fm_index (member_map F) (g_members g) t = (False, (g_members g)(t \<mapsto> False))"
    using frg_map.index_eq [OF obj_containers.axioms(3) [OF assms(1)]] assms(4)
    by (cases "g_members g t") (auto simp: fun_upd_idem)
  moreover have "g\<lparr>g_lock := False\<rparr> = g" using assms(3) by (cases g) simp
  ultimately show ?thesis
    using assms(2,3) by (cases g) (simp add: check_membership_and_def spin_lock_def spin_unlock_def)
qed

text \<open>Removing a group deletes it together with every object it holds, but the table of groups keeps the pointer: any
  later access to the same identifier, by member or not, uses freed memory.\<close>

theorem removed_group_dangles:
  assumes "obj_containers F" "remove_group F t gid s = Inr (True, s')"
    and "og_groups s gid = Some lg" "get_group (og_heap s) (lg_grp lg) = Inr g" "finite (dom (g_objects g))"
  shows "(\<forall>hnd i. g_objects g hnd = Some (Some i) \<longrightarrow> get_obj (og_heap s') (Some i) = Inl UseAfterFree) \<and>
    (\<forall>u func. groups_check_membership_and F u gid func s' = Inl UseAfterFree) \<and>
    (\<forall>u. remove_group F u gid s' = Inl UseAfterFree)"
proof -
  have gm: "fm_index (group_map F) (og_groups s) gid = (lg, og_groups s)"
    by (rule frg_map.index_present [OF obj_containers.axioms(4) [OF assms(1)]]) (rule assms(3))
  have lk: "\<not> og_lock s" "\<not> lg_lock lg" "lg_grp lg \<noteq> None"
    using assms(2,3) by (auto simp: remove_group_def and_then_Inr_iff spin_lock_Inr_iff split: if_splits)
  obtain i where i: "lg_grp lg = Some i" using lk(3) by auto
  have rm: "and_then (check_membership F (lg_grp lg) t (og_heap s)) (\<lambda>(b, h).
      if \<not> b then Inr (False, s\<lparr>og_heap := h\<rparr>)
      else and_then (delete_objects (obj_iter F) h [lg_grp lg]) (\<lambda>h. Inr (True, s\<lparr>og_groups := og_groups s, og_heap := h\<rparr>))) =
      Inr (True, s')"
    using assms(2,3) lk(1,2) by (simp add: remove_group_def spin_lock_def gm i cong: if_cong)
  then obtain b h where h: "check_membership F (lg_grp lg) t (og_heap s) = Inr (b, h)"
    by (cases "check_membership F (lg_grp lg) t (og_heap s)") auto
  with rm obtain h' where s'1: "delete_objects (obj_iter F) h [lg_grp lg] = Inr h'" and e: "s' = s\<lparr>og_heap := h'\<rparr>"
    by (cases "delete_objects (obj_iter F) h [lg_grp lg]") (auto split: if_splits)
  then have s': "delete_objects (obj_iter F) h [lg_grp lg] = Inr (og_heap s')" "og_groups s' = og_groups s"
    "og_lock s' = og_lock s" by simp_all
  obtain g' where g': "get_group h (lg_grp lg) = Inr g'" "g_objects g' = g_objects g"
    using h assms(4) by (auto simp: check_membership_def get_group_put split: prod.splits)
  have dead: "get_obj (og_heap s') (lg_grp lg) = Inl UseAfterFree"
    using delete_objects_gone [OF s'(1), of i] i by (simp add: deleted_get_obj)
  then have "get_group (og_heap s') (lg_grp lg) = Inl UseAfterFree" by (simp add: get_group_def)
  then have a: "groups_check_membership_and F u gid func s' = Inl UseAfterFree"
    for u and func :: "obj_ref \<Rightarrow> obj_heap \<Rightarrow> ('a \<times> obj_heap) result"
    using s'(2) lk assms(3) by (simp add: groups_check_membership_and_def check_membership_and_def spin_lock_def)
  have r: "remove_group F u gid s' = Inl UseAfterFree" for u
    using \<open>get_group (og_heap s') (lg_grp lg) = Inl UseAfterFree\<close> s'(2,3) lk assms(3)
    by (simp add: remove_group_def check_membership_def spin_lock_def)
  have "get_obj (og_heap s') (Some j) = Inl UseAfterFree" if "g_objects g hnd = Some (Some j)" for hnd j
  proof -
    have "Some j \<in> set (obj_iter F (g_objects g'))"
      using that obj_containers.iter_values [OF assms(1,5)] g'(2) by (auto simp: ran_def)
    from delete_group_members [OF s'(1) g'(1) this] show ?thesis by (simp add: deleted_get_obj)
  qed
  then show ?thesis using a r by blast
qed

section \<open>A group with one queue\<close>

definition demo_groups :: object_groups where
  "demo_groups =
     \<lparr>og_groups = [0 \<mapsto> \<lparr>lg_grp = Some 0, lg_lock = False\<rparr>], og_next_id = 1, og_lock = False,
      og_heap =
        [Some (Group \<lparr>g_parent = None, g_objects = [0 \<mapsto> Some 1], g_members = [1 \<mapsto> True], g_next_id = 1,
           g_lock = False, g_dont_lock = False\<rparr>),
         Some (Queue (new_ipc_queue (Some 0))), Some (Queue (new_ipc_queue None))]\<rparr>"


theorem only_members_act_witness:
  "\<exists>h'. check_membership_and ref_obj (Some 0) 5 (add_object ref_obj (Some 0) (Some 2)) (og_heap demo_groups) =
       Inr (None, h') \<and> get_obj h' (Some 2) = get_obj (og_heap demo_groups) (Some 2)"
proof -
  have g: "get_group (og_heap demo_groups) (Some 0) =
      Inr \<lparr>g_parent = None, g_objects = [0 \<mapsto> Some 1], g_members = [1 \<mapsto> True], g_next_id = 1,
           g_lock = False, g_dont_lock = False\<rparr>"
    by (simp add: demo_groups_def get_group_def get_obj_def)
  from only_members_act [OF refobj.obj_containers_axioms this, of 5 "add_object ref_obj (Some 0) (Some 2)"]
  show ?thesis by (simp add: get_obj_put_group [OF g])
qed

theorem removed_group_dangles_witness:
  "\<exists>s'. remove_group ref_obj 1 0 demo_groups = Inr (True, s') \<and>
     get_obj (og_heap s') (Some 1) = Inl UseAfterFree \<and> remove_group ref_obj 1 0 s' = Inl UseAfterFree"
proof -
  let ?g = "\<lparr>g_parent = None, g_objects = [0 \<mapsto> Some 1], g_members = [1 \<mapsto> True], g_next_id = 1,
           g_lock = False, g_dont_lock = False\<rparr> :: object_group"
  let ?s' = "demo_groups\<lparr>og_heap := [None, None, Some (Queue (new_ipc_queue None))]\<rparr>"
  have lg: "og_groups demo_groups 0 = Some \<lparr>lg_grp = Some 0, lg_lock = False\<rparr>" by (simp add: demo_groups_def)
  have g: "get_group (og_heap demo_groups) (lg_grp \<lparr>lg_grp = Some 0, lg_lock = False\<rparr>) = Inr ?g"
    by (simp add: demo_groups_def get_group_def get_obj_def)
  have rm: "remove_group ref_obj 1 0 demo_groups = Inr (True, ?s')"
    by (simp add: remove_group_def demo_groups_def spin_lock_def check_membership_def get_group_def get_obj_def
        put_obj_def ref_obj_def ref_map_def)
  show ?thesis
    using removed_group_dangles [OF refobj.obj_containers_axioms rm lg g] rm by fastforce
qed

end
