(* ===== verification/Boot.thy ===== *)
theory Boot
  imports Elf Initrd Objects Irq
begin

text \<open>
  The last stage of the boot, \<open>kernel_main\<close> in \<open>kernel/kernel.cpp\<close>: the test of the object groups, and the thread that runs the
  program \<open>startup\<close> from the initial ramdisk. The memory that new objects are made in, the address of the file name, the
  address the heap gives the copy of the file, and the number of processors are arguments. Messages are left out.
\<close>

section \<open>The test of the groups\<close>

text \<open>A function without a result returns the unit value.\<close>

definition without_result :: "obj_heap result \<Rightarrow> (unit \<times> obj_heap) result" where
  "without_result r = and_then r (\<lambda>h. Inr ((), h))"

definition group_test :: "obj_frg \<Rightarrow> bool \<Rightarrow> obj_heap \<Rightarrow> obj_heap result" where
  "group_test F garbage h =
     (let (g, h) = new_obj h (Group (new_object_group garbage None))
      in and_then (check_membership_and F g 1 (\<lambda>h. without_result (add_member F g 2 h)) h) (\<lambda>(res1, h).
         kassert (res1 = None) (
         and_then (add_member F g 1 h) (\<lambda>h.
         and_then (check_membership_and F g 1 (\<lambda>h. without_result (add_member F g 2 h)) h) (\<lambda>(res2, h).
         kassert (res2 \<noteq> None) (
         and_then (check_membership_and F g 1 (\<lambda>h. without_result (remove_member F g 2 h)) h) (\<lambda>(res3, h).
         and_then (check_membership_and F g 1 (get_object F g 0) h) (\<lambda>(res3_5, h).
         and_then (check_membership_and F g 1 (\<lambda>h. without_result (remove_member F g 1 h)) h) (\<lambda>(res4, h).
         and_then (check_membership_and F g 1 (get_object F g 0) h) (\<lambda>(res5, h).
         kassert (res3 \<noteq> None) (
         kassert (res4 \<noteq> None) (
         kassert (res3_5 = Some None) (
         kassert (res5 = None) (
         and_then (check_membership F g 1 h) (\<lambda>(res6, h).
         kassert (\<not> res6) (Inr h))))))))))))))))"

definition all_groups_test :: "obj_frg \<Rightarrow> bool \<Rightarrow> object_groups \<Rightarrow> object_groups result" where
  "all_groups_test F garbage s =
     and_then (new_group F garbage 1 s) (\<lambda>(gid, s).
     and_then (groups_check_membership_and F 1 gid (\<lambda>g h. without_result (add_member F g 2 h)) s) (\<lambda>(_, s).
       let (foo, h) = new_obj (og_heap s) (Queue (new_ipc_queue None))
       in and_then (groups_check_membership_and F 2 gid (\<lambda>g. add_object F g foo) (s\<lparr>og_heap := h\<rparr>)) (\<lambda>(_, s).
          and_then (remove_group F 1 gid s) (\<lambda>(_, s). Inr s))))"

section \<open>The first thread\<close>

definition stack_size :: u64 where
  "stack_size = 8 * 1024 * 1024"

definition vm_perm_urw :: cint where
  "vm_perm_urw = 8 OR 1 OR 2"

definition make_startup ::
  "'s arch_mm_ops \<Rightarrow> vm_frg \<Rightarrow> mem \<Rightarrow> 's \<Rightarrow> arch_task \<Rightarrow> frg_string \<Rightarrow> u64 \<Rightarrow> ('s \<times> thread) result" where
  "make_startup A V m s garbage ident startup_file =
     and_then (new_address_space A V s) (\<lambda>(s, space).
       let task = (new_arch_task garbage)\<lparr>t_vmm_ctx := vmm_ctx space\<rparr>
       in and_then (space_allocate A V s space (stack_size div vm_page_size) vm_perm_urw 0) (\<lambda>(base, s, space).
          let t = new_thread (set_sp task (base + stack_size)) space ident
          in and_then (elf64_load A V m s startup_file t) (\<lambda>(ok, s, t). kassert ok (Inr (s, t)))))"

definition run_startup :: "sched_frg \<Rightarrow> sched \<Rightarrow> thread \<Rightarrow> sched result" where
  "run_startup F sc t =
     and_then (sched_add F (sc\<lparr>sc_heap := sc_heap sc @ [Some t]\<rparr>) (length (sc_heap sc))) (\<lambda>(tid, sc). sched_run F sc tid)"

definition ARCH_INFO_HAS_INITRAMFS :: cint where
  "ARCH_INFO_HAS_INITRAMFS = push_bit 1 1"

record boot_info =
  info_flags :: cint
  info_initramfs :: u64
  info_initramfs_size :: u64

record 's boot_env =
  be_mm :: "'s arch_mm_ops"
  be_vm :: vm_frg
  be_sched :: sched_frg
  be_obj :: obj_frg
  be_flag :: bool
  be_group_flag :: bool
  be_task :: arch_task
  be_ident :: frg_string
  be_path :: u64
  be_file :: u64

text \<open>The machine with the thread's address space, and the scheduler as it is when interrupts are enabled.\<close>

definition kernel_main ::
  "'s boot_env \<Rightarrow> boot_info \<Rightarrow> nat \<Rightarrow> mem \<Rightarrow> 's \<Rightarrow> obj_heap \<Rightarrow> sched \<Rightarrow> ('s \<times> sched) result" where
  "kernel_main B info cpus m s h sc =
     (if info_flags info AND ARCH_INFO_HAS_INITRAMFS = 0 then Inl Panic
      else
        let rd = initrd_init (info_initramfs info) (info_initramfs_size info)
        in and_then (group_test (be_obj B) (be_flag B) h) (\<lambda>h.
           and_then (all_groups_test (be_obj B) (be_group_flag B) (new_object_groups h)) (\<lambda>_.
             (case initrd_read_file m rd (be_path B) (be_file B) of
                None \<Rightarrow> Inl Diverges
              | Some (n, m) \<Rightarrow>
                  if n = 0 then Inl Panic
                  else
                    and_then (sched_init (be_sched B) sc (of_nat cpus)) (\<lambda>sc.
                    and_then (make_startup (be_mm B) (be_vm B) m s (be_task B) (be_ident B) (be_file B)) (\<lambda>(s, t).
                    and_then (run_startup (be_sched B) sc t) (\<lambda>sc. Inr (s, sc))))))))"

section \<open>The test passes\<close>

context obj_containers
begin

lemma group_test_ok: "\<exists>h'. group_test F garbage h = Inr h'"
proof -
  define g where "g = Some (length h)"
  have get: "get_group (h @ [Some (Group x)]) g = Inr x" for x by (simp add: g_def get_group_def get_obj_def)
  have put: "put_obj (h @ [Some (Group x)]) g (Group y) = h @ [Some (Group y)]" for x y by (simp add: g_def put_obj_def)
  show ?thesis
    by (simp add: group_test_def new_obj_def new_object_group_def check_membership_and_def check_membership_def add_member_def
        remove_member_def set_member_def get_object_def without_result_def group_lock_def group_unlock_def spin_lock_def
        spin_unlock_def Let_def g_def [symmetric] get put mm.index_eq om.index_eq)
qed

end

section \<open>The first interrupt\<close>

lemma make_startup_Inr:
  assumes "make_startup A V m s garbage ident file = Inr (s', t)"
  obtains s1 space base s2 space2 where "new_address_space A V s = Inr (s1, space)"
    "space_allocate A V s1 space (stack_size div vm_page_size) vm_perm_urw 0 = Inr (base, s2, space2)"
    "th_task t = set_ip (set_sp ((new_arch_task garbage)\<lparr>t_vmm_ctx := vmm_ctx space\<rparr>) (base + stack_size)) (e_entry (ehdr_at m file))"
    "th_id t = 0" "th_state t = stopped" "th_running_on t = -1"
proof -
  obtain s1 space where 1: "new_address_space A V s = Inr (s1, space)"
    using assms by (cases "new_address_space A V s") (auto simp: make_startup_def)
  obtain base s2 space2 where 2:
    "space_allocate A V s1 space (stack_size div vm_page_size) vm_perm_urw 0 = Inr (base, s2, space2)" (is "?a = _")
    using assms 1 by (cases ?a) (auto simp: make_startup_def Let_def)
  define t0 where "t0 = new_thread (set_sp ((new_arch_task garbage)\<lparr>t_vmm_ctx := vmm_ctx space\<rparr>) (base + stack_size)) space2 ident"
  have "elf64_load A V m s2 file t0 = Inr (True, s', t)"
    using assms 1 2 by (auto simp: make_startup_def Let_def t0_def and_then_Inr_iff kassert_Inr_iff)
  then obtain a where "t = t0\<lparr>th_addr_space := a, th_task := set_ip (th_task t0) (e_entry (ehdr_at m file))\<rparr>"
    by (auto simp: elf64_load_def Let_def and_then_Inr_iff split: if_splits)
  then show ?thesis by (intro that [OF 1 2]) (simp_all add: t0_def new_thread_def)
qed

context sched_containers
begin

lemma push_procs_eq: "push_procs F v n = v @ replicate n \<lparr>current_thread = 0, cpu_running = False\<rparr>"
  by (induction n arbitrary: v) (simp_all add: pv.vec_push_back replicate_append_same [symmetric])

lemma first_resched:
  assumes "sched_init F boot_sched (of_nat cpus) = Inr sc" "run_startup F sc t = Inr sc'" "0 < cpus" "cpus < 2 ^ 31"
    "th_id t = 0" "th_state t = stopped" "th_running_on t = -1"
  shows "sched_ready sc' \<and>
    (\<exists>sc''. sched_resched F 0 sc' irq st 0 = Inr ([DropContext, AckInterrupt irq, EnterTask (th_task t)], sc''))"
proof -
  let ?p = "\<lparr>current_thread = 0, cpu_running = False\<rparr>"
  have n: "(of_nat cpus :: cint) \<noteq> 0" "nat (sint (of_nat cpus :: cint)) = cpus"
    using assms(3,4) by (simp_all add: word_unat_eq_iff unat_of_nat signed_of_nat signed_take_bit_int_eq_self)
  have sc: "sc = boot_sched\<lparr>sc_procs := replicate cpus ?p, sc_ready := True\<rparr>"
    using assms(1) n by (simp add: sched_init_def push_procs_eq boot_sched_def)
  have i: "fm_index (thread_map F) [0 \<mapsto> Some 0] 0 = (Some 0, [0 \<mapsto> Some 0])" by (simp add: tm.index_present)
  have m: "(snd (fm_index (thread_map F) Map.empty 0))(0 \<mapsto> Some 0) = [0 \<mapsto> Some 0]" by (simp add: tm.index_missing)
  have sc': "sc' = \<lparr>sc_lock = False, sc_threads = [0 \<mapsto> Some 0], sc_schedule = [0], sc_next_id = 1, sc_idx = 0,
      sc_procs = replicate cpus ?p, sc_ready = True, sc_heap = [Some t]\<rparr>"
    using assms(2,6) i m sl.push_back
    by (simp add: run_startup_def sched_add_def sched_run_def sc boot_sched_def spin_lock_def spin_unlock_def get_thread_def
        thread_at_def Let_def)
  show ?thesis
    using assms(3,5,7) i
    by (simp add: sc' sched_ready_def sched_resched_def Let_def spin_lock_def get_next_thread_to_run_def get_thread_def
        thread_at_def put_thread_def)
qed

end

end
