(* ===== verification/Entry.thy ===== *)
theory Entry
  imports Scheduler Memory
begin

text \<open>
  The assembly between the processor and the C++ code: the stubs and \<open>service_interrupt\<close> of \<open>arch/x86_64/irq/irq_handler.asm\<close> and
  \<open>ctx_switch\<close> of \<open>cpu/ctx_switch.asm\<close>. The stack is memory that grows down. The records of registers are the structures
  of \<open>irq/isr.h\<close> and \<open>cpu/ctx.h\<close> as the C++ code reads them.
\<close>

section \<open>The stack\<close>

definition push_word :: "mem \<times> u64 \<Rightarrow> u64 \<Rightarrow> mem \<times> u64" where
  "push_word = (\<lambda>(m, rsp) v. (write64 m (rsp - 8) v, rsp - 8))"

definition pop_word :: "mem \<Rightarrow> u64 \<Rightarrow> u64 \<times> u64" where
  "pop_word m rsp = (read64 m rsp, rsp + 8)"

section \<open>Entering\<close>

text \<open>The vectors for which the processor pushes an error code itself.\<close>

definition has_error_code :: "u64 \<Rightarrow> bool" where
  "has_error_code vec \<longleftrightarrow> vec \<in> {8, 10, 11, 12, 13, 14, 17, 30}"

text \<open>What the processor pushes, given the interrupted registers.\<close>

definition cpu_words :: "irq_cpu_state_t \<Rightarrow> u64 list" where
  "cpu_words r =
     [i_ss r, i_rsp r, i_rflags r, i_cs r, i_rip r] @ (if has_error_code (i_int_no r) then [i_err r] else [])"

definition isr_stub :: "u64 \<Rightarrow> u64 list" where
  "isr_stub vec = (if has_error_code vec then [vec] else [0, vec])"

definition service_words :: "irq_cpu_state_t \<Rightarrow> u64 list" where
  "service_words r =
     [i_rax r, i_rbx r, i_rcx r, i_rdx r, i_rbp r, i_rsi r, i_rdi r, i_r8 r, i_r9 r, i_r10 r, i_r11 r, i_r12 r, i_r13 r,
      i_r14 r, i_r15 r, take_bit 16 (i_ds r)]"

text \<open>The memory and the stack pointer with which \<open>dispatch_interrupt\<close> is called.\<close>

definition enter_interrupt :: "mem \<Rightarrow> u64 \<Rightarrow> irq_cpu_state_t \<Rightarrow> mem \<times> u64" where
  "enter_interrupt m rsp r = foldl push_word (m, rsp) (cpu_words r @ isr_stub (i_int_no r) @ service_words r)"

definition irq_state_at :: "mem \<Rightarrow> u64 \<Rightarrow> irq_cpu_state_t" where
  "irq_state_at m p =
     \<lparr>i_ds = read64 m p, i_r15 = read64 m (p + 8), i_r14 = read64 m (p + 16), i_r13 = read64 m (p + 24),
      i_r12 = read64 m (p + 32), i_r11 = read64 m (p + 40), i_r10 = read64 m (p + 48), i_r9 = read64 m (p + 56),
      i_r8 = read64 m (p + 64), i_rdi = read64 m (p + 72), i_rsi = read64 m (p + 80), i_rbp = read64 m (p + 88),
      i_rdx = read64 m (p + 96), i_rcx = read64 m (p + 104), i_rbx = read64 m (p + 112), i_rax = read64 m (p + 120),
      i_int_no = read64 m (p + 128), i_err = read64 m (p + 136), i_rip = read64 m (p + 144), i_cs = read64 m (p + 152),
      i_rflags = read64 m (p + 160), i_rsp = read64 m (p + 168), i_ss = read64 m (p + 176)\<rparr>"

section \<open>Leaving\<close>

text \<open>The pops in order, then the two words that are skipped, then what \<open>iretq\<close> takes. The result keeps the vector and the error
  code of the frame, which nothing loads.\<close>

definition leave_interrupt :: "mem \<Rightarrow> u64 \<Rightarrow> irq_cpu_state_t" where
  "leave_interrupt m rsp =
     (let (ds, rsp) = pop_word m rsp;
          (r15, rsp) = pop_word m rsp; (r14, rsp) = pop_word m rsp; (r13, rsp) = pop_word m rsp; (r12, rsp) = pop_word m rsp;
          (r11, rsp) = pop_word m rsp; (r10, rsp) = pop_word m rsp; (r9, rsp) = pop_word m rsp; (r8, rsp) = pop_word m rsp;
          (rdi, rsp) = pop_word m rsp; (rsi, rsp) = pop_word m rsp; (rbp, rsp) = pop_word m rsp; (rdx, rsp) = pop_word m rsp;
          (rcx, rsp) = pop_word m rsp; (rbx, rsp) = pop_word m rsp; (rax, rsp) = pop_word m rsp;
          (int_no, err) = (read64 m rsp, read64 m (rsp + 8));
          rsp = rsp + 16;
          (rip, rsp) = pop_word m rsp; (cs, rsp) = pop_word m rsp; (rflags, rsp) = pop_word m rsp; (sp, rsp) = pop_word m rsp; (ss, rsp) = pop_word m rsp
      in \<lparr>i_ds = take_bit 16 ds, i_r15 = r15, i_r14 = r14, i_r13 = r13, i_r12 = r12, i_r11 = r11, i_r10 = r10, i_r9 = r9, i_r8 = r8,
          i_rdi = rdi, i_rsi = rsi, i_rbp = rbp, i_rdx = rdx, i_rcx = rcx, i_rbx = rbx, i_rax = rax, i_int_no = int_no,
          i_err = err, i_rip = rip, i_cs = cs, i_rflags = rflags, i_rsp = sp, i_ss = ss\<rparr>)"

section \<open>Switching to a task\<close>

text \<open>The structure of the task is read through \<open>rdi\<close> while the old tables are in use; the result is what \<open>iretq\<close> continues with and
  the tables that are then loaded.\<close>

definition ctx_switch :: "mem \<Rightarrow> u64 \<Rightarrow> u64 \<Rightarrow> ctx_cpu_state_t \<times> u64" where
  "ctx_switch m rdi rsi =
     (let task_cr3 = rsi
      in (\<lparr>c_r15 = read64 m rdi, c_r14 = read64 m (rdi + 8), c_r13 = read64 m (rdi + 16), c_r12 = read64 m (rdi + 24),
           c_r11 = read64 m (rdi + 32), c_r10 = read64 m (rdi + 40), c_r9 = read64 m (rdi + 48), c_r8 = read64 m (rdi + 56),
           c_rdi = read64 m (rdi + 64), c_rsi = read64 m (rdi + 72), c_rbp = read64 m (rdi + 80), c_rdx = read64 m (rdi + 88),
           c_rcx = read64 m (rdi + 96), c_rbx = read64 m (rdi + 104), c_rax = read64 m (rdi + 112),
           c_ss = read64 m (rdi + 120), c_rsp = read64 m (rdi + 128), c_rflags = read64 m (rdi + 136),
           c_cs = read64 m (rdi + 144), c_rip = read64 m (rdi + 152)\<rparr>, task_cr3))"

section \<open>Words on the stack\<close>

lemma foldl_push_rsp: "snd (foldl push_word (m, rsp) ws) = rsp - 8 * of_nat (length ws)"
  by (induction ws rule: rev_induct) (simp_all add: push_word_def split_beta algebra_simps)

lemma apart_above: "n < 2 ^ 60 \<Longrightarrow> apart a (a + 8 * of_nat (Suc n))"
proof -
  assume n: "n < 2 ^ 60"
  have e: "(8 * of_nat (Suc n) :: u64) = of_nat (8 * Suc n)" by simp
  have u: "unat (of_nat (8 * Suc n) :: u64) = 8 * Suc n" using n unfolding unat_of_nat by simp
  have "unat (- (of_nat (8 * Suc n) :: u64)) = 2 ^ 64 - 8 * Suc n"
    using u unat_sub_if' [of 0 "of_nat (8 * Suc n) :: u64"] by simp
  then show ?thesis using n u unfolding apart_def e by (simp add: word_le_nat_alt del: of_nat_mult of_nat_Suc)
qed

lemma read_pushed:
  assumes "i < length ws" "length ws < 2 ^ 60"
  shows "read64 (fst (foldl push_word (m, rsp) ws)) (rsp - 8 * of_nat (length ws) + 8 * of_nat i) = rev ws ! i"
  using assms
proof (induction ws arbitrary: i rule: rev_induct)
  case (snoc v ws)
  let ?s = "foldl push_word (m, rsp) ws"
  have p: "fst (foldl push_word (m, rsp) (ws @ [v])) = write64 (fst ?s) (rsp - 8 * of_nat (length ws) - 8) v"
    using foldl_push_rsp [of m rsp ws] by (simp add: push_word_def split_beta)
  show ?case
  proof (cases i)
    case 0
    then show ?thesis unfolding p by (simp add: algebra_simps)
  next
    case (Suc j)
    have a: "rsp - 8 * of_nat (length (ws @ [v])) + 8 * of_nat i = rsp - 8 * of_nat (length ws) + 8 * of_nat j"
      by (simp add: Suc algebra_simps)
    have "apart (rsp - 8 * of_nat (length ws) - 8) (rsp - 8 * of_nat (length ws) + 8 * of_nat j)"
      using apart_above [of j "rsp - 8 * of_nat (length ws) - 8"] snoc.prems Suc by (simp add: algebra_simps)
    then show ?thesis unfolding p a using snoc Suc by (simp only: read64_write64_apart) simp
  qed
qed simp

lemma interrupt_words:
  assumes "has_error_code (i_int_no r) \<or> i_err r = 0"
  shows "cpu_words r @ isr_stub (i_int_no r) @ service_words r =
    [i_ss r, i_rsp r, i_rflags r, i_cs r, i_rip r, i_err r, i_int_no r] @ service_words r"
  using assms by (auto simp: cpu_words_def isr_stub_def)

lemma interrupt_frame:
  assumes "has_error_code (i_int_no r) \<or> i_err r = 0" "take_bit 16 (i_ds r) = i_ds r"
  shows "(case enter_interrupt m rsp r of (m', p) \<Rightarrow> irq_state_at m' p) = r"
proof -
  define ws where "ws = [i_ss r, i_rsp r, i_rflags r, i_cs r, i_rip r, i_err r, i_int_no r] @ service_words r"
  define m' where "m' = fst (foldl push_word (m, rsp) ws)"
  have l: "length ws = 23" by (simp add: ws_def service_words_def)
  have e: "enter_interrupt m rsp r = (m', rsp - 184)"
    unfolding enter_interrupt_def interrupt_words [OF assms(1)] m'_def ws_def [symmetric]
    using foldl_push_rsp [of m rsp ws] l by (simp add: prod_eq_iff)
  have rd: "read64 m' (rsp - 184 + 8 * of_nat i) = rev ws ! i" if "i < 23" for i
    using read_pushed [of i ws m rsp] that l by (simp add: m'_def)
  have "rev ws = [i_ds r, i_r15 r, i_r14 r, i_r13 r, i_r12 r, i_r11 r, i_r10 r, i_r9 r, i_r8 r, i_rdi r, i_rsi r, i_rbp r,
      i_rdx r, i_rcx r, i_rbx r, i_rax r, i_int_no r, i_err r, i_rip r, i_cs r, i_rflags r, i_rsp r, i_ss r]"
    using assms(2) by (simp add: ws_def service_words_def)
  note rd = rd [unfolded this]
  show ?thesis
    unfolding e irq_state_at_def prod.case
    using rd [of 0] rd [of 1] rd [of 2] rd [of 3] rd [of 4] rd [of 5] rd [of 6] rd [of 7] rd [of 8] rd [of 9] rd [of 10]
      rd [of 11] rd [of 12] rd [of 13] rd [of 14] rd [of 15] rd [of 16] rd [of 17] rd [of 18] rd [of 19] rd [of 20] rd [of 21]
      rd [of 22]
    by simp
qed

lemma leave_at: "leave_interrupt m p = (irq_state_at m p)\<lparr>i_ds := take_bit 16 (read64 m p)\<rparr>"
  by (simp add: leave_interrupt_def irq_state_at_def pop_word_def Let_def algebra_simps)

text \<open>C37. The structure given to \<open>dispatch_interrupt\<close> holds the interrupted registers, and what is in it when the function returns
  is what the interrupted code continues with.\<close>

theorem interrupt_frame_roundtrip:
  assumes "has_error_code (i_int_no r) \<or> i_err r = 0" "i_ds r < 2 ^ 16" "enter_interrupt m rsp r = (m1, p)"
  shows "irq_state_at m1 p = r \<and>
    (i_ds (irq_state_at m2 p) < 2 ^ 16 \<longrightarrow> leave_interrupt m2 p = irq_state_at m2 p)"
proof -
  have t: "x < 2 ^ 16 \<Longrightarrow> take_bit 16 x = x" for x :: u64 by (simp add: take_bit_eq_mod word_arith_nat_mod word_less_nat_alt)
  have "i_ds (irq_state_at m2 p) = read64 m2 p" by (simp add: irq_state_at_def)
  then show ?thesis using interrupt_frame [OF assms(1) t [OF assms(2)], of m rsp] assms(3) t by (simp add: leave_at)
qed

theorem interrupt_frame_roundtrip_witness:
  "\<exists>m1. enter_interrupt (\<lambda>_. 0) 0x9000 demo_irq = (m1, 0x8F48) \<and> irq_state_at m1 0x8F48 = demo_irq \<and>
     leave_interrupt m1 0x8F48 = demo_irq"
proof -
  obtain m1 where m: "enter_interrupt (\<lambda>_. 0) 0x9000 demo_irq = (m1, 0x8F48)"
    using foldl_push_rsp [of "\<lambda>_. 0" "0x9000" "cpu_words demo_irq @ isr_stub (i_int_no demo_irq) @ service_words demo_irq"]
    by (auto simp: enter_interrupt_def prod_eq_iff cpu_words_def isr_stub_def service_words_def)
  have d: "has_error_code (i_int_no demo_irq) \<or> i_err demo_irq = 0" "i_ds demo_irq < 2 ^ 16" by (simp_all add: demo_irq_def)
  show ?thesis using m d(2) interrupt_frame_roundtrip [OF d m, of m1] by auto
qed

end
