(* ===== verification/Spec2Isabelle.thy ===== *)
theory Spec2Isabelle
  imports Heap Printf Console Smp Symtab LaiHost Boot Entry
begin

text \<open>
  Verification of quack, a microkernel for x86\_64 written in C++ (\<open>src/kernel\<close>, \<open>src/duck\<close>, \<open>src/servers\<close>).

  \<^bold>\<open>The program.\<close> The boot code takes the memory map to the frame allocator, sets up page tables, the command line, consoles,
  ACPI, the interrupt controllers and the timer. The kernel then loads the program \<open>startup\<close> from the initial ramdisk
  into an address space and schedules its thread. From there on everything happens in interrupts: the timer
  switches between threads, a page fault of a program fills in a page, and vector 0x30 is a system call.

  \<^bold>\<open>How code is modelled.\<close> Functions of the sources are HOL functions of the same name. State is passed explicitly in records:
  \<open>machine\<close> (physical memory, frame bitmap, \<open>cr3\<close>, the contexts saved by each processor), \<open>sched\<close>, \<open>sys_state\<close>, \<open>kernel\<close>.
  An assertion, a panic, a null or dangling pointer, an index out of range, a deadlock or an endless loop is a value of the type \<open>fault\<close> on the
  left of \<open>fault + 'a\<close>. Machine integers are words of their width. Code outside the sources is an argument: the
  containers of frigg (records of operations with the laws of the locales of \<open>Frg\<close>), the tables and events of lai, the
  devices behind memory-mapped registers, and the symbols of the linker. Every locale is interpreted, and
  every property that relies on such an argument has a witness with a concrete one.

  \<^bold>\<open>Theories.\<close>
  \<^item> \<open>Prelude\<close>, \<open>Frg\<close>, \<open>Memory\<close>, \<open>Machine\<close>: faults and results, contracts of the containers, byte memory, the machine's state.
  \<^item> \<open>CLib\<close>: \<open>lib/ctype.cpp\<close>, \<open>lib/string.cpp\<close>, \<open>lib/stdlib.cpp\<close>.
  \<^item> \<open>Pmm\<close>: the frame allocator, \<open>arch/x86_64/mm/pmm.cpp\<close>. Allocation is first fit, frames are never given out twice, the counter of
    free frames is exact, and initialisation frees only available memory.
  \<^item> \<open>Vm\<close>, \<open>AddressSpace\<close>, \<open>Partition\<close>, \<open>Frames\<close>: mappings and address spaces, \<open>mm/vm.cpp\<close>. Holes and regions partition the
    user half in every reachable state, no frame backs two pages, and the contracts of allocating, destroying and demand paging.
  \<^item> \<open>ElfTypes\<close>, \<open>Vmm\<close>, \<open>PageTables\<close>: \<open>arch/x86_64/mm/vmm.cpp\<close> against a page walk. Mapping is isolated and undone by unmapping;
    the functions implement the architecture interface the address spaces use.
  \<^item> \<open>Spinlock\<close>, \<open>Objects\<close>, \<open>Scheduler\<close>: locks under interleaving, \<open>object/*.cpp\<close> and \<open>proc/groups.h\<close>, \<open>proc/scheduler.cpp\<close> and
    \<open>task/task.cpp\<close>. A queue refines a mailbox for one message, only members act in a group, and each thread runs on one processor as
    long as stored identifiers are right (they never are for a second thread: see the lemmas on thread 0).
  \<^item> \<open>Heap\<close>, \<open>Cmdline\<close>, \<open>Printf\<close>, \<open>Initrd\<close>, \<open>Elf\<close>: \<open>mm/heap.cpp\<close>, \<open>util/cmdline.cpp\<close>, \<open>lib/vsnprintf.cpp\<close> and \<open>lib/kmesg.cpp\<close>,
    \<open>util/initrd.cpp\<close>, \<open>loader/elf64.cpp\<close>, against what they parse or print.
  \<^item> \<open>Font\<close>, \<open>Ports\<close>, \<open>Console\<close>: the font, \<open>io/port.cpp\<close> with the legacy interrupt controller, and the consoles.
  \<^item> \<open>Descriptors\<close>: \<open>irq/idt.cpp\<close> and \<open>cpu/gdt.cpp\<close>; gates and selectors name what the processor expects.
  \<^item> \<open>Syscalls\<close>: \<open>syscall.cpp\<close>, the library \<open>duck\<close> and the startup server; a call changes nothing of other threads.
  \<^item> \<open>Acpi\<close>, \<open>Ioapic\<close>, \<open>Lapic\<close>: tables, routing of interrupts, the local controller and its timer.
  \<^item> \<open>Contexts\<close>, \<open>Irq\<close>: \<open>irq/isr.cpp\<close>, with the parts of \<open>lapic.cpp\<close> and \<open>acpi.cpp\<close> that register handlers. An interrupt either is
    transparent to the interrupted code or enters the thread the scheduler chose; it is acknowledged once. An exception of a
    user program that has no handler halts the kernel, unless it is a page fault.
  \<^item> \<open>Entry\<close>: \<open>irq/irq_handler.asm\<close> and \<open>cpu/ctx_switch.asm\<close>; the frame on the stack is the structure the dispatch is given.
  \<^item> \<open>Pci\<close>, \<open>LaiHost\<close>: \<open>io/pci.cpp\<close> and \<open>acpi/lai_host.cpp\<close>. Probing a register of a device restores it, and enumeration finds the
    functions that answer.
  \<^item> \<open>Smp\<close>, \<open>Symtab\<close>: \<open>cpu/smp.cpp\<close> and \<open>cpu/cpu_data.cpp\<close>; \<open>symtab/symtab.cpp\<close> and \<open>arch/x86_64/symtab.cpp\<close>. A started processor
    finds what its trampoline loads, and the symbol table has the functions of the kernel's sections.
  \<^item> \<open>Boot\<close> and this theory: \<open>kernel_main\<close> of \<open>kernel.cpp\<close>, and the theorem that composes boot, ramdisk, loader, address space,
    scheduler and interrupt dispatch: the first timer interrupt enters the program \<open>startup\<close>.

  \<^bold>\<open>Bounds.\<close> Loops that count are structural recursions on the count. \<open>merge_holes\<close> has fuel, and a theorem shows that
  what it is given is enough. Loops that may not end are \<open>partial_function (option)\<close> or \<open>while_option\<close>; not ending is the fault
  \<open>Diverges\<close> or the value \<open>None\<close>.

  \<^bold>\<open>Not modelled.\<close> Messages to the log, except where a system call or an interrupt handler prints them as its effect; the lookaside
  buffer and caches; single instructions such as \<open>lgdt\<close> and \<open>wrmsr\<close>. The order of the calls in \<open>arch_entry\<close>; the printing of registers
  and stack traces in \<open>cpu/cpu.cpp\<close>; the boot code, the trampoline and the idle loop in assembly; what the library lai does
  to the ports while it evaluates code of the firmware; the callbacks of \<open>ubsan.cpp\<close>, the static constructors and \<open>panic\<close>, which
  is the fault \<open>Panic\<close>. \<open>proc/proc.cpp\<close> and the i386 port are not part of the build and use headers that no longer exist.
  Processors interleave only in the model of the spinlock; elsewhere each operation runs to its end, and what interrupts do
  while a loop waits for them is an argument.
\<close>

section \<open>From the boot to the first program\<close>

lemma kernel_main_Inr:
  assumes "kernel_main B info cpus m s h sc = Inr (s', sc')"
  obtains n m' sc1 t where
    "initrd_read_file m (initrd_init (info_initramfs info) (info_initramfs_size info)) (be_path B) (be_file B) = Some (n, m')"
    "n \<noteq> 0" "sched_init (be_sched B) sc (of_nat cpus) = Inr sc1"
    "make_startup (be_mm B) (be_vm B) m' s (be_task B) (be_ident B) (be_file B) = Inr (s', t)"
    "run_startup (be_sched B) sc1 t = Inr sc'"
  using assms
  by (auto simp: kernel_main_def Let_def and_then_Inr_iff split: if_splits option.splits)

lemma timer_enters:
  assumes "sched_ready (ss_sched (k_sys k))" "i_int_no st = 0x31" "cur_cpu (mach k) = 0" "0 < max_cpus (k_irq k)"
    "length (irq_handlers (k_irq k)) = IDT_ENTRIES" "irq_handlers (k_irq k) ! 0x31 = Some Lapic_Timer_Int"
    "sched_resched (ie_frg E) 0 (ss_sched (k_sys k)) 0x31 st 0 = Inr ([DropContext, AckInterrupt 0x31, EnterTask t], sc)"
  shows "\<exists>k'. dispatch_interrupt E k st = Inr (EnterUser (t_state t), k') \<and> cr3 (mach k') = t_vmm_ctx t"
  using assms
  by (simp add: dispatch_interrupt_def cpu_data_get_def Let_def count_spurious_def run_handler_def IDT_ENTRIES_def
      call_handler_def timer_sink_def timer_irq_sink_def lapic_timer_int_def arch_task_enter_def arch_cpu_ack_interrupt_def
      irq_eoi_def upd_mach_def vmm_set_context_def vmm_save_context_def set_ctx_def arch_mm_drop_context_def
      vmm_drop_context_def)

text \<open>C7. If the boot succeeds, the first timer interrupt of the first processor enters the program \<open>startup\<close> of the ramdisk:
  at the entry point of its file, in user mode with interrupts enabled, with the top of the stack allocated for it,
  in its own page tables.\<close>

theorem startup_entered:
  assumes "sched_containers (ie_frg E)" "kernel_main B info cpus m s h boot_sched = Inr (s', sc)" "be_sched B = ie_frg E"
    "0 < cpus" "cpus < 2 ^ 31" "ss_sched (k_sys k) = sc" "cur_cpu (mach k) = 0" "0 < max_cpus (k_irq k)" "i_int_no st = 0x31"
    "length (irq_handlers (k_irq k)) = IDT_ENTRIES" "irq_handlers (k_irq k) ! 0x31 = Some Lapic_Timer_Int"
  shows "\<exists>r k' n m' s1 space base s2 space2.
    dispatch_interrupt E k st = Inr (EnterUser r, k') \<and>
    initrd_read_file m (initrd_init (info_initramfs info) (info_initramfs_size info)) (be_path B) (be_file B) = Some (n, m') \<and>
    c_rip r = e_entry (ehdr_at m' (be_file B)) \<and> c_cs r = 0x13 \<and> c_ss r = 0x1b \<and> c_rflags r = 0x202 \<and>
    new_address_space (be_mm B) (be_vm B) s = Inr (s1, space) \<and> cr3 (mach k') = vmm_ctx space \<and>
    space_allocate (be_mm B) (be_vm B) s1 space (stack_size div vm_page_size) vm_perm_urw 0 = Inr (base, s2, space2) \<and>
    c_rsp r = base + stack_size"
proof -
  obtain n m' sc1 t where i: "initrd_read_file m (initrd_init (info_initramfs info) (info_initramfs_size info)) (be_path B)
      (be_file B) = Some (n, m')" and "n \<noteq> 0"
    and b: "sched_init (be_sched B) boot_sched (of_nat cpus) = Inr sc1"
    and t: "make_startup (be_mm B) (be_vm B) m' s (be_task B) (be_ident B) (be_file B) = Inr (s', t)"
    and r: "run_startup (be_sched B) sc1 t = Inr sc"
    by (rule kernel_main_Inr [OF assms(2)])
  obtain s1 space base s2 space2 where sp: "new_address_space (be_mm B) (be_vm B) s = Inr (s1, space)"
    "space_allocate (be_mm B) (be_vm B) s1 space (stack_size div vm_page_size) vm_perm_urw 0 = Inr (base, s2, space2)"
    and tt: "th_task t = set_ip (set_sp ((new_arch_task (be_task B))\<lparr>t_vmm_ctx := vmm_ctx space\<rparr>) (base + stack_size))
      (e_entry (ehdr_at m' (be_file B)))" "th_id t = 0" "th_state t = stopped" "th_running_on t = -1"
    by (rule make_startup_Inr [OF t])
  obtain sc'' where q: "sched_ready sc"
    "sched_resched (ie_frg E) 0 sc 0x31 st 0 = Inr ([DropContext, AckInterrupt 0x31, EnterTask (th_task t)], sc'')"
    using sched_containers.first_resched [OF assms(1) b [unfolded assms(3)] r [unfolded assms(3)] assms(4,5) tt(2-4)] by blast
  obtain k' where "dispatch_interrupt E k st = Inr (EnterUser (t_state (th_task t)), k')" "cr3 (mach k') = t_vmm_ctx (th_task t)"
    using timer_enters [OF _ assms(9,7,8,10,11)] q assms(6) by blast
  then show ?thesis
    using i sp by (intro exI conjI) (auto simp: tt(1) set_ip_def set_sp_def new_arch_task_def)
qed

section \<open>A complete boot\<close>

lemma all_groups_ref: "\<exists>s. all_groups_test ref_obj False (new_object_groups h) = Inr s"
  by (simp add: all_groups_test_def new_group_def new_object_groups_def new_obj_def new_object_group_def new_ipc_queue_def
      groups_check_membership_and_def check_membership_and_def check_membership_def add_member_def set_member_def
      add_object_def set_parent_def get_obj_def get_group_def put_obj_def without_result_def group_lock_def
      group_unlock_def spin_lock_def spin_unlock_def Let_def ref_obj_def ref_map_def remove_group_def nth_append
      list_update_append)

text \<open>A ramdisk at 0x1000 with the file \<open>startup\<close>, a program without segments that starts at 0x400000; the name to look for is
  at 0, and the copy is made in place.\<close>

definition demo_header :: "u8 list" where
  "demo_header =
    [0x7F, 0x45, 0x4C, 0x46, 2, 1, 1, 0, 0, 0, 0, 0, 0, 0, 0, 0,
     2, 0, 0x3E, 0, 1, 0, 0, 0, 0, 0, 0x40, 0, 0, 0, 0, 0,
     0, 0, 0, 0, 0, 0, 0, 0, 0, 0, 0, 0, 0, 0, 0, 0,
     0, 0, 0, 0, 0x40, 0, 0x38, 0, 0, 0, 0, 0, 0, 0, 0, 0]"

definition demo_name :: "u8 list" where
  "demo_name = [0x73, 0x74, 0x61, 0x72, 0x74, 0x75, 0x70]"

definition demo_ramdisk :: mem where
  "demo_ramdisk a =
     (if a < 7 then demo_name ! unat a
      else if 0x1000 \<le> a \<and> a < 0x1007 then demo_name ! unat (a - 0x1000)
      else if 0x107C \<le> a \<and> a < 0x1080 then [0x30, 0x31, 0x30, 0x30] ! unat (a - 0x107C)
      else if 0x1101 \<le> a \<and> a < 0x1106 then [0x75, 0x73, 0x74, 0x61, 0x72] ! unat (a - 0x1101)
      else if 0x1200 \<le> a \<and> a < 0x1240 then demo_header ! unat (a - 0x1200)
      else 0)"

lemma demo_ramdisk_name: "cstr demo_ramdisk 0 demo_name" "cstr demo_ramdisk 0x1000 demo_name"
  by (simp_all add: demo_name_def demo_ramdisk_def)

lemma memcpy_same: "memcpy m a a n = m"
proof -
  have "fold (\<lambda>i m. m(a + of_nat i := m (a + of_nat i))) is m = m" for "is" :: "nat list" and m :: mem
    by (induction "is") simp_all
  then show ?thesis by (simp add: memcpy_def)
qed

lemma demo_ramdisk_read: "initrd_read_file demo_ramdisk (initrd_init 0x1000 0x400) 0 0x1200 = Some (64, demo_ramdisk)"
proof -
  obtain r where r: "strcmp demo_ramdisk 0x1000 0 = Some r" "r = 0" using strcmp_cstr demo_ramdisk_name by blast
  have sig: "has_signature demo_ramdisk 0x1000" by code_simp
  have f: "find_entry demo_ramdisk (initrd_init 0x1000 0x400) 0 0 = Some (Some 0)"
    using r sig by (subst find_entry.simps) (simp add: initrd_init_def ustar_name_def)
  have "cstr demo_ramdisk 0x107C (0x30 # [0x31, 0x30, 0x30])" by (simp add: demo_ramdisk_def)
  then have "oct_to_dec demo_ramdisk 0x107C = Some 64"
    using oct_to_dec_cstr [of demo_ramdisk "0x107C" "0x30" "[0x31, 0x30, 0x30]"] by (simp add: is_octal_def oct_value_def)
  then show ?thesis
    using f by (simp add: initrd_read_file_def initrd_init_def ustar_size_def USTAR_BLOCK_SIZE_def memcpy_same)
qed

lemma demo_header_fields:
  "elf64_check (ehdr_at demo_ramdisk 0x1200)" "e_entry (ehdr_at demo_ramdisk 0x1200) = 0x400000"
  "e_phnum (ehdr_at demo_ramdisk 0x1200) = 0"
  by code_simp+

definition demo_boot :: "machine boot_env" where
  "demo_boot = \<lparr>be_mm = pmm_arch, be_vm = ref_vm, be_sched = ref_sched, be_obj = ref_obj, be_flag = True, be_group_flag = False,
     be_task = demo_task 0, be_ident = (0, 64), be_path = 0, be_file = 0x1200\<rparr>"

definition demo_info :: boot_info where
  "demo_info = \<lparr>info_flags = 2, info_initramfs = 0x1000, info_initramfs_size = 0x400\<rparr>"

lemma demo_make_startup:
  "\<exists>s' t. make_startup pmm_arch ref_vm demo_ramdisk small_machine (demo_task 0) (0, 64) 0x1200 = Inr (s', t) \<and> th_state t = stopped"
proof -
  have n: "new_address_space pmm_arch ref_vm small_machine = Inr (small_machine, fresh_space)"
    by (simp add: new_address_space_def fresh_space_def refvm.hl.push_back vm_user_end_def vm_user_base_def vm_page_size_def)
  obtain v a where al: "space_allocate pmm_arch ref_vm small_machine fresh_space (stack_size div vm_page_size) vm_perm_urw 0 =
      Inr (v, small_machine, a)"
    using vm_containers.space_allocate_eq [OF refvm.vm_containers_axioms fresh_space_inv,
        of "stack_size div vm_page_size" pmm_arch small_machine vm_perm_urw 0] by blast
  have "elf64_phdrs demo_ramdisk 0x1200 = []" by (simp add: elf64_phdrs_def demo_header_fields)
  then show ?thesis
    using n al demo_header_fields by (simp add: make_startup_def elf64_load_def new_thread_def Let_def)
qed

lemma demo_boot_ok: "\<exists>s' sc. kernel_main demo_boot demo_info 1 demo_ramdisk small_machine [] boot_sched = Inr (s', sc)"
proof -
  obtain h s where g: "group_test ref_obj True [] = Inr h" "all_groups_test ref_obj False (new_object_groups h) = Inr s"
    using refobj.group_test_ok all_groups_ref by blast
  obtain s' t where t: "make_startup pmm_arch ref_vm demo_ramdisk small_machine (demo_task 0) (0, 64) 0x1200 = Inr (s', t)"
    "th_state t = stopped"
    using demo_make_startup by blast
  have "\<exists>sc1. sched_init ref_sched boot_sched 1 = Inr sc1 \<and> (\<exists>sc. run_startup ref_sched sc1 t = Inr sc)"
    using t(2) by (simp add: run_startup_def sched_eval boot_sched_def)
  then show ?thesis
    using g t by (auto simp: kernel_main_def demo_boot_def demo_info_def ARCH_INFO_HAS_INITRAMFS_def demo_ramdisk_read Let_def)
qed

theorem startup_entered_witness:
  "\<exists>s' sc r k'. kernel_main demo_boot demo_info 1 demo_ramdisk small_machine [] boot_sched = Inr (s', sc) \<and>
     dispatch_interrupt demo_ienv
       ((demo_kernel sc)\<lparr>k_irq := demo_irqs\<lparr>irq_handlers := boot_irq_handlers[0x31 := Some Lapic_Timer_Int]\<rparr>\<rparr>) demo_irq =
       Inr (EnterUser r, k') \<and> c_rip r = 0x400000 \<and> c_cs r = 0x13"
proof -
  obtain s' sc where k: "kernel_main demo_boot demo_info 1 demo_ramdisk small_machine [] boot_sched = Inr (s', sc)"
    using demo_boot_ok by blast
  let ?k = "(demo_kernel sc)\<lparr>k_irq := demo_irqs\<lparr>irq_handlers := boot_irq_handlers[0x31 := Some Lapic_Timer_Int]\<rparr>\<rparr>"
  have h: "ss_sched (k_sys ?k) = sc" "cur_cpu (mach ?k) = 0" "0 < max_cpus (k_irq ?k)" "i_int_no demo_irq = 0x31"
    "length (irq_handlers (k_irq ?k)) = IDT_ENTRIES" "irq_handlers (k_irq ?k) ! 0x31 = Some Lapic_Timer_Int"
    by (simp_all add: demo_kernel_def small_machine_def demo_irqs_def demo_irq_def boot_irq_handlers_def IDT_ENTRIES_def)
  have b: "be_sched demo_boot = ie_frg demo_ienv" "be_path demo_boot = 0" "be_file demo_boot = 0x1200"
    "info_initramfs demo_info = 0x1000" "info_initramfs_size demo_info = 0x400"
    by (simp_all add: demo_boot_def demo_ienv_def demo_info_def)
  obtain r k' n m' where "dispatch_interrupt demo_ienv ?k demo_irq = Inr (EnterUser r, k')"
    "initrd_read_file demo_ramdisk (initrd_init 0x1000 0x400) 0 0x1200 = Some (n, m')"
    "c_rip r = e_entry (ehdr_at m' 0x1200)" "c_cs r = 0x13"
    using startup_entered [OF demo_ienv_ok(1) k b(1) _ _ h] unfolding b by auto
  then show ?thesis using k demo_ramdisk_read demo_header_fields(2) by auto
qed

end
